(* ===== verification/Prelude.thy ===== *)
theory Prelude
  imports Main "HOL-Library.Word" "HOL-Library.Sublist"
begin

text \<open>
  Shared vocabulary of the development: the byte type of a \<^verbatim>\<open>Uint8Array\<close>, the
  collection \<open>step_defs\<close> of handler definitions that the component theories fill, generic
  lemmas on prefixes and lists,
  and the two interfaces every stateful component is proved against: labelled runs with
  an invariant (locale \<open>guarded_system\<close>) and filters that are fed a byte stream chunk
  by chunk (locale \<open>chunked_filter\<close>).
\<close>

type_synonym byte = "8 word"

named_theorems step_defs \<open>unfoldings of handler definitions\<close>

text \<open>A string character and the byte that codes it, for codes below 256.\<close>

definition byte_of_char :: "char \<Rightarrow> byte" where
  "byte_of_char c = word_of_nat (of_char c)"

definition char_of_byte :: "byte \<Rightarrow> char" where
  "char_of_byte b = char_of (unat b)"

lemma char_of_byte_of_char [simp]: "char_of_byte (byte_of_char c) = c"
  by (simp add: byte_of_char_def char_of_byte_def unat_of_nat)

lemma byte_of_char_eq_iff: "byte_of_char c = byte_of_char d \<longleftrightarrow> c = d"
  by (metis char_of_byte_of_char)

section \<open>Lists and prefixes\<close>

lemma take_length_prefix: "prefix p xs \<Longrightarrow> take (length p) xs = p"
  by (auto simp: prefix_def)

lemma prefix_drop_appendI: "i \<le> length d \<Longrightarrow> prefix p (drop i d) \<Longrightarrow> prefix p (drop i (d @ c))"
  by (simp add: prefix_prefix)

lemma prefix_drop_append_inside:
  assumes fits: "i + length p \<le> length d"
  shows "prefix p (drop i (d @ c)) \<longleftrightarrow> prefix p (drop i d)"
proof
  assume "prefix p (drop i (d @ c))"
  with fits have "prefix p (drop i d @ c)" and "length p \<le> length (drop i d)"
    by simp_all
  then show "prefix p (drop i d)"
    by (auto intro: prefix_length_prefix)
qed (use fits in \<open>auto intro: prefix_prefix\<close>)

lemma prefix_iff_nth:
  "prefix p xs \<longleftrightarrow> length p \<le> length xs \<and> (\<forall>j < length p. xs ! j = p ! j)"
proof
  assume "prefix p xs"
  then show "length p \<le> length xs \<and> (\<forall>j < length p. xs ! j = p ! j)"
    by (auto simp: prefix_def nth_append)
next
  assume a: "length p \<le> length xs \<and> (\<forall>j < length p. xs ! j = p ! j)"
  then have "take (length p) xs = p"
    by (intro nth_equalityI) auto
  then show "prefix p xs"
    by (metis take_is_prefix)
qed

lemma sum_list_map_snoc: "sum_list (map f (xs @ [x])) = sum_list (map f xs) + f x"
  by simp

text \<open>A list without its \<open>i\<close>-th element.\<close>

definition remove_nth :: "nat \<Rightarrow> 'a list \<Rightarrow> 'a list" where
  "remove_nth i xs = take i xs @ drop (Suc i) xs"

lemma list_all_remove_nth: "list_all P xs \<Longrightarrow> list_all P (remove_nth i xs)"
  by (auto simp: remove_nth_def list_all_iff dest: in_set_takeD in_set_dropD)

section \<open>Labelled runs and invariants\<close>

text \<open>\<open>run step s es\<close> takes the events \<open>es\<close> one after the other.\<close>

fun run :: "('s \<Rightarrow> 'e \<Rightarrow> 's) \<Rightarrow> 's \<Rightarrow> 'e list \<Rightarrow> 's" where
  "run step s [] = s"
| "run step s (e # es) = run step (step s e) es"

lemma run_append: "run step s (es @ fs) = run step (run step s es) fs"
  by (induction es arbitrary: s) auto

locale guarded_system =
  fixes start :: 's
    and step :: "'s \<Rightarrow> 'e \<Rightarrow> 's"
    and inv :: "'s \<Rightarrow> bool"
  assumes inv_start: "inv start"
    and inv_step: "inv s \<Longrightarrow> inv (step s e)"
begin

lemma inv_run_from: "inv s \<Longrightarrow> inv (run step s es)"
  by (induction es arbitrary: s) (auto intro: inv_step)

lemma inv_run: "inv (run step start es)"
  by (rule inv_run_from [OF inv_start])

text \<open>A measure that no step decreases is monotone along every run.\<close>

lemma run_monotone:
  fixes m :: "'s \<Rightarrow> 'm::order"
  assumes mono: "\<And>s e. inv s \<Longrightarrow> m s \<le> m (step s e)"
  shows "m (run step start es) \<le> m (run step start (es @ fs))"
proof -
  have "m s \<le> m (run step s fs)" if "inv s" for s
    using that
  proof (induction fs arbitrary: s)
    case (Cons e fs)
    from Cons.IH [OF inv_step [OF Cons.prems]] mono [OF Cons.prems]
    show ?case by (auto intro: order_trans)
  qed simp
  then show ?thesis by (simp add: run_append inv_run)
qed

end

section \<open>Filters fed chunk by chunk\<close>

text \<open>
  \<open>run_chunks feed s cs\<close> calls the feed function on every chunk in turn and collects
  what it emits. \<open>flat\<close> turns one emission into the symbols that count; two runs are
  equivalent when the concatenated symbols and the final states agree.
\<close>

fun run_chunks :: "('s \<Rightarrow> 'i list \<Rightarrow> 'e list \<times> 's) \<Rightarrow> 's \<Rightarrow> 'i list list \<Rightarrow> 'e list \<times> 's" where
  "run_chunks feed s [] = ([], s)"
| "run_chunks feed s (c # cs) =
     (let (es, s') = feed s c; (es', s'') = run_chunks feed s' cs in (es @ es', s''))"

lemma run_chunks_Cons:
  "fst (run_chunks feed s (c # cs)) = fst (feed s c) @ fst (run_chunks feed (snd (feed s c)) cs)"
  "snd (run_chunks feed s (c # cs)) = snd (run_chunks feed (snd (feed s c)) cs)"
  by (simp_all add: Let_def split_beta)

lemma run_chunks_append:
  "fst (run_chunks feed s (cs @ ds)) =
     fst (run_chunks feed s cs) @ fst (run_chunks feed (snd (run_chunks feed s cs)) ds)"
  "snd (run_chunks feed s (cs @ ds)) = snd (run_chunks feed (snd (run_chunks feed s cs)) ds)"
  by (induction cs arbitrary: s) (simp_all add: run_chunks_Cons del: run_chunks.simps(2))

definition flatten :: "('e \<Rightarrow> 'o list) \<Rightarrow> 'e list \<Rightarrow> 'o list" where
  "flatten flat es = concat (map flat es)"

lemma flatten_simps [simp]:
  "flatten flat [] = []"
  "flatten flat (e # es) = flat e @ flatten flat es"
  "flatten flat (es @ fs) = flatten flat es @ flatten flat fs"
  by (simp_all add: flatten_def)

locale chunked_filter =
  fixes feed :: "'s \<Rightarrow> 'i list \<Rightarrow> 'e list \<times> 's"
    and flat :: "'e \<Rightarrow> 'o list"
    and inv :: "'s \<Rightarrow> bool"
  assumes feed_inv: "inv s \<Longrightarrow> inv (snd (feed s c))"
    and feed_Nil: "inv s \<Longrightarrow> snd (feed s []) = s \<and> flatten flat (fst (feed s [])) = []"
    and feed_append_state: "inv s \<Longrightarrow> snd (feed s (c @ d)) = snd (feed (snd (feed s c)) d)"
    and feed_append_out: "inv s \<Longrightarrow> flatten flat (fst (feed s (c @ d))) =
          flatten flat (fst (feed s c)) @ flatten flat (fst (feed (snd (feed s c)) d))"
begin

abbreviation out :: "'e list \<Rightarrow> 'o list" where
  "out \<equiv> flatten flat"

lemma run_inv: "inv s \<Longrightarrow> inv (snd (run_chunks feed s cs))"
  by (induction cs arbitrary: s) (simp_all add: run_chunks_Cons feed_inv del: run_chunks.simps(2))

lemma run_concat_state: "inv s \<Longrightarrow> snd (run_chunks feed s cs) = snd (feed s (concat cs))"
  by (induction cs arbitrary: s)
     (simp_all add: run_chunks_Cons feed_inv feed_Nil feed_append_state del: run_chunks.simps(2))

lemma run_concat_out: "inv s \<Longrightarrow> out (fst (run_chunks feed s cs)) = out (fst (feed s (concat cs)))"
  by (induction cs arbitrary: s)
     (simp_all add: run_chunks_Cons feed_inv feed_Nil feed_append_out del: run_chunks.simps(2))

text \<open>Two ways of cutting the same stream into chunks are indistinguishable.\<close>

lemma chunking_irrelevant:
  assumes "inv s" and "concat cs = concat ds"
  shows "out (fst (run_chunks feed s cs)) = out (fst (run_chunks feed s ds))"
    and "snd (run_chunks feed s cs) = snd (run_chunks feed s ds)"
  using assms by (simp_all add: run_concat_out run_concat_state)

end

end
