(* ===== verification/Geometry.thy ===== *)
theory Geometry
  imports Prelude Complex_Main
begin

text \<open>
  The scroll geometry of \<^verbatim>\<open>web/static/term.js\<close>: the last row with content
  (\<^verbatim>\<open>cmLastContentRow\<close>), the legacy follow/pin computation (\<^verbatim>\<open>cmTrackScroll\<close>), the
  font fit (\<^verbatim>\<open>fitFont\<close>), the scroll proxy of wire v2 (\<^verbatim>\<open>updateSpacer\<close>,
  \<^verbatim>\<open>hostToTerm\<close>, \<^verbatim>\<open>termToHost\<close>) and the keypad placement (\<^verbatim>\<open>clampPad\<close> and the grip
  drag). Pixels are rationals; double rounding is not modelled.
\<close>

section \<open>Last row with content\<close>

text \<open>The loop \<^verbatim>\<open>for (r = lines.length - 1; r >= 0; r--)\<close>, at \<open>Suc r\<close>.\<close>

fun last_content_from :: "string list \<Rightarrow> nat \<Rightarrow> nat \<Rightarrow> nat" where
  "last_content_from lines cy 0 = cy"
| "last_content_from lines cy (Suc r) =
     (if lines ! r \<noteq> [] then max cy r else last_content_from lines cy r)"

definition cmLastContentRow :: "string list \<Rightarrow> nat \<Rightarrow> nat" where
  "cmLastContentRow lines cy = last_content_from lines cy (length lines)"

lemma last_content_from_props:
  "n \<le> length lines \<Longrightarrow>
   cy \<le> last_content_from lines cy n \<and>
   (\<forall>r. last_content_from lines cy n < r \<and> r < n \<longrightarrow> lines ! r = []) \<and>
   (last_content_from lines cy n = cy \<or>
      last_content_from lines cy n < n \<and> lines ! last_content_from lines cy n \<noteq> [])"
  by (induction n) (auto simp: less_Suc_eq max_def)

section \<open>Following the live row\<close>

datatype track_mode = Settle | Userscroll

record track_in =
  t_mode :: track_mode
  t_following :: bool
  t_cy :: nat
  t_pinRow :: nat
  t_cellH :: rat
  t_clientHeight :: rat
  t_scrollHeight :: rat
  t_scrollTop :: rat

definition track_cellH :: "track_in \<Rightarrow> rat" where
  "track_cellH s = (if t_cellH s > 0 then t_cellH s else 1)"

definition track_maxTop :: "track_in \<Rightarrow> rat" where
  "track_maxTop s = max 0 (t_scrollHeight s - t_clientHeight s)"

definition track_clamp :: "track_in \<Rightarrow> rat \<Rightarrow> rat" where
  "track_clamp s t = (if t < 0 then 0 else if t > track_maxTop s then track_maxTop s else t)"

definition cmTrackScroll :: "track_in \<Rightarrow> rat \<times> bool" where
  "cmTrackScroll s =
     (let cellH = track_cellH s;
          cursorPx = of_nat (t_cy s + 1) * cellH;
          pinRow = (if t_pinRow s > t_cy s then t_pinRow s else t_cy s);
          pinPx = of_nat (pinRow + 1) * cellH;
          pinTop0 = track_clamp s (pinPx - t_clientHeight s);
          pinTop = (if pinTop0 > of_nat (t_cy s) * cellH
                    then track_clamp s (cursorPx - t_clientHeight s) else pinTop0)
      in if t_mode s = Userscroll
         then (t_scrollTop s, t_scrollTop s + t_clientHeight s \<ge> cursorPx - cellH)
         else if t_following s then (pinTop, True)
         else (t_scrollTop s, False))"

lemma track_clamp_range: "0 \<le> track_clamp s t \<and> track_clamp s t \<le> track_maxTop s"
  by (auto simp: track_clamp_def track_maxTop_def)

lemma track_clamp_bounds:
  "x \<le> t + t_clientHeight s \<Longrightarrow> x \<le> t_scrollHeight s \<Longrightarrow> x \<le> track_clamp s t + t_clientHeight s"
  "t \<le> y \<Longrightarrow> 0 \<le> y \<Longrightarrow> track_clamp s t \<le> y"
  by (auto simp: track_clamp_def track_maxTop_def max_def)

text \<open>The cursor row is on screen: its top is not above, its bottom not below the view.\<close>

definition cursor_visible :: "track_in \<Rightarrow> rat \<Rightarrow> bool" where
  "cursor_visible s tp \<longleftrightarrow>
     tp \<le> of_nat (t_cy s) * track_cellH s \<and>
     of_nat (t_cy s + 1) * track_cellH s \<le> tp + t_clientHeight s"

text \<open>A layout the page can be in: a row fits the view, the cursor row is inside the grid.\<close>

definition layout_ok :: "track_in \<Rightarrow> bool" where
  "layout_ok s \<longleftrightarrow> track_cellH s \<le> t_clientHeight s \<and>
     of_nat (t_cy s + 1) * track_cellH s \<le> t_scrollHeight s"

lemma track_cellH_scrollTop [simp]: "track_cellH (s\<lparr>t_scrollTop := x\<rparr>) = track_cellH s"
  by (simp add: track_cellH_def)

lemma track_cellH_pos: "0 < track_cellH s"
  by (simp add: track_cellH_def)

lemma settle_cursor_visible:
  assumes "layout_ok s" "t_mode s = Settle" "t_following s"
  shows "cursor_visible s (fst (cmTrackScroll s))"
proof -
  define c where "c = track_cellH s"
  define y where "y = of_nat (t_cy s) * c"
  define p where "p = of_nat ((if t_pinRow s > t_cy s then t_pinRow s else t_cy s) + 1) * c"
  have c: "0 < c" by (simp add: c_def track_cellH_pos)
  then have y: "0 \<le> y" by (simp add: y_def)
  have p: "y + c \<le> p"
  proof -
    have "of_nat (t_cy s + 1) * c \<le> p"
      unfolding p_def using c by (intro mult_right_mono) (auto simp del: of_nat_add)
    then show ?thesis by (simp add: y_def algebra_simps)
  qed
  have fits: "c \<le> t_clientHeight s" "y + c \<le> t_scrollHeight s"
    using assms(1) by (simp_all add: layout_ok_def c_def y_def algebra_simps)
  have "fst (cmTrackScroll s) =
      (if track_clamp s (p - t_clientHeight s) > y then track_clamp s (y + c - t_clientHeight s)
       else track_clamp s (p - t_clientHeight s))"
    using assms(2,3) by (simp add: cmTrackScroll_def Let_def c_def y_def p_def algebra_simps)
  moreover have "track_clamp s (y + c - t_clientHeight s) \<le> y"
    using fits y by (intro track_clamp_bounds) auto
  moreover have "y + c \<le> track_clamp s (y + c - t_clientHeight s) + t_clientHeight s"
    using fits by (intro track_clamp_bounds) auto
  moreover have "y + c \<le> track_clamp s (p - t_clientHeight s) + t_clientHeight s"
    using fits p by (intro track_clamp_bounds) auto
  ultimately show ?thesis
    by (simp add: cursor_visible_def c_def y_def algebra_simps)
qed

lemma visible_keeps_following:
  "cursor_visible s (t_scrollTop s) \<Longrightarrow> snd (cmTrackScroll (s\<lparr>t_mode := Userscroll\<rparr>))"
  using track_cellH_pos [of s]
  by (simp add: cmTrackScroll_def cursor_visible_def Let_def track_cellH_def split: if_splits)

section \<open>Font fit\<close>

text \<open>
  \<^verbatim>\<open>fitFont(rows)\<close>: \<open>h px\<close> is the height the browser measures for the screen at font
  size \<open>px\<close> (0 when it cannot be measured), \<open>ch\<close> the host's \<^verbatim>\<open>clientHeight\<close>,
  \<open>fs\<close> the font size set last. The result is the font size left behind.
\<close>

function fit_loop :: "(int \<Rightarrow> rat) \<Rightarrow> rat \<Rightarrow> int \<Rightarrow> int \<Rightarrow> int" where
  "fit_loop h ch px fs =
     (if px \<ge> 4 then (if h px = 0 \<or> h px \<le> ch then px else fit_loop h ch (px - 1) px) else fs)"
  by pat_completeness auto
termination
  by (relation "measure (\<lambda>(h, ch, px, fs). nat px)") auto

declare fit_loop.simps [simp del]

definition fitFont :: "int \<Rightarrow> (int \<Rightarrow> rat) \<Rightarrow> rat \<Rightarrow> int \<Rightarrow> int \<Rightarrow> int" where
  "fitFont override h ch rows fs =
     (if override \<noteq> 0 then override
      else fit_loop h ch (min 13 (max 4 \<lfloor>ch / of_int rows / (12 / 10)\<rfloor>)) fs)"

definition font_fits :: "(int \<Rightarrow> rat) \<Rightarrow> rat \<Rightarrow> int \<Rightarrow> bool" where
  "font_fits h ch px \<longleftrightarrow> h px = 0 \<or> h px \<le> ch"

lemma fit_loop_props:
  assumes "4 \<le> px"
  shows "4 \<le> fit_loop h ch px fs \<and> fit_loop h ch px fs \<le> px \<and>
    (font_fits h ch (fit_loop h ch px fs) \<or> fit_loop h ch px fs = 4) \<and>
    (\<forall>q. fit_loop h ch px fs < q \<and> q \<le> px \<longrightarrow> \<not> font_fits h ch q)"
  using assms
proof (induction h ch px fs rule: fit_loop.induct)
  case (1 h ch px fs)
  consider (fits) "font_fits h ch px" | (last) "\<not> font_fits h ch px" "px = 4"
    | (more) "\<not> font_fits h ch px" "4 \<le> px - 1" using "1.prems" by force
  then show ?case
  proof cases
    case fits
    with "1.prems" show ?thesis by (auto simp: fit_loop.simps [of h ch px fs] font_fits_def)
  next
    case last
    then show ?thesis
      by (auto simp: fit_loop.simps [of h ch 4 fs] fit_loop.simps [of h ch 3 4] font_fits_def)
  next
    case more
    with "1.prems" have eq: "fit_loop h ch px fs = fit_loop h ch (px - 1) px"
      by (simp add: fit_loop.simps [of h ch px fs] font_fits_def)
    from more "1.prems" have "\<not> (h px = 0 \<or> h px \<le> ch)" by (simp add: font_fits_def)
    note IH = "1.IH" [OF \<open>4 \<le> px\<close> this more(2)]
    then have "\<not> font_fits h ch q" if "fit_loop h ch px fs < q \<and> q \<le> px" for q
      using that more(1) eq by (cases "q = px") auto
    with IH eq show ?thesis by simp
  qed
qed

section \<open>The scroll proxy of wire v2\<close>

text \<open>\<^verbatim>\<open>Math.round\<close>.\<close>

definition js_round :: "rat \<Rightarrow> int" where
  "js_round x = \<lfloor>x + 1 / 2\<rfloor>"

lemma js_round_error: "\<bar>of_int (js_round x) - x\<bar> \<le> 1 / 2"
  unfolding js_round_def by linarith

lemma js_round_near: "\<bar>x - of_int n\<bar> < 1 / 2 \<Longrightarrow> js_round x = n"
  unfolding js_round_def by (intro floor_unique) linarith+

text \<open>
  The closure variables (\<open>x_spacer\<close> the spacer's height once it exists, \<open>x_cellPx\<close>,
  \<open>x_syncing\<close>, \<open>x_progUntil\<close>), the host element and the terminal they read:
  \<open>x_top\<close> is \<^verbatim>\<open>host.scrollTop\<close>, \<open>x_ydisp\<close> \<^verbatim>\<open>viewportY\<close>, \<open>x_screenH\<close> the
  measured height of the screen element.
\<close>

record proxy =
  x_spacer :: "int option"
  x_cellPx :: rat
  x_syncing :: bool
  x_progUntil :: rat
  x_top :: rat
  x_clientHeight :: rat
  x_screenH :: rat
  x_rows :: int
  x_bufLen :: int
  x_ydisp :: int

definition rowPx :: "proxy \<Rightarrow> rat" where
  "rowPx p = (if x_screenH p > 0 \<and> x_rows p > 0 then x_screenH p / of_int (x_rows p) else 0)"

definition updateSpacer :: "proxy \<Rightarrow> proxy" where
  "updateSpacer p =
     (case x_spacer p of None \<Rightarrow> p
      | Some _ \<Rightarrow>
         (let p = (if x_cellPx p \<le> 0 then p\<lparr>x_cellPx := rowPx p\<rparr> else p)
          in if x_cellPx p \<le> 0 then p
             else let extra = of_int (max 0 (x_bufLen p - x_rows p)) * x_cellPx p;
                      slack = max 0 (x_clientHeight p - x_cellPx p * of_int (x_rows p))
                  in p\<lparr>x_spacer := Some (js_round (extra + slack))\<rparr>))"

text \<open>What the browser does with an assignment to \<^verbatim>\<open>scrollTop\<close>: the host holds the
  terminal element and below it the spacer.\<close>

definition host_maxTop :: "proxy \<Rightarrow> rat" where
  "host_maxTop p =
     max 0 (x_cellPx p * of_int (x_rows p) + of_int (case x_spacer p of None \<Rightarrow> 0 | Some h \<Rightarrow> h)
            - x_clientHeight p)"

definition set_scrollTop :: "rat \<Rightarrow> proxy \<Rightarrow> proxy" where
  "set_scrollTop t p = p\<lparr>x_top := max 0 (min t (host_maxTop p))\<rparr>"

text \<open>\<^verbatim>\<open>term.scrollToLine\<close> stays inside the scrollback.\<close>

definition scrollToLine :: "int \<Rightarrow> proxy \<Rightarrow> proxy" where
  "scrollToLine line p = p\<lparr>x_ydisp := max 0 (min line (x_bufLen p - x_rows p))\<rparr>"

text \<open>\<^verbatim>\<open>termToHost\<close> returns at once while \<^verbatim>\<open>syncing\<close> is set, which is the case for the
  \<^verbatim>\<open>onScroll\<close> that \<^verbatim>\<open>scrollToLine\<close> fires inside \<^verbatim>\<open>hostToTerm\<close>.\<close>

definition hostToTerm :: "rat \<Rightarrow> proxy \<Rightarrow> proxy" where
  "hostToTerm now p =
     (if x_spacer p = None \<or> x_syncing p \<or> x_cellPx p \<le> 0 then p
      else if now < x_progUntil p then p
      else let line = js_round (x_top p / x_cellPx p)
           in if line \<noteq> x_ydisp p then scrollToLine line p else p)"

definition termToHost :: "rat \<Rightarrow> int \<Rightarrow> proxy \<Rightarrow> proxy" where
  "termToHost now ydisp p =
     (if x_spacer p = None \<or> x_syncing p then p
      else let p = updateSpacer p
           in if x_cellPx p \<le> 0 then p
              else let tp = of_int (js_round (of_int ydisp * x_cellPx p))
                   in if \<bar>x_top p - tp\<bar> \<ge> 1
                      then set_scrollTop tp (p\<lparr>x_progUntil := now + 150\<rparr>) else p)"

definition enableProxyScroll :: "proxy \<Rightarrow> proxy" where
  "enableProxyScroll p =
     (case x_spacer p of Some _ \<Rightarrow> p | None \<Rightarrow> updateSpacer (p\<lparr>x_spacer := Some 0\<rparr>))"

text \<open>The v2 branch of \<^verbatim>\<open>settle\<close>.\<close>

definition settle_v2 :: "rat \<Rightarrow> proxy \<Rightarrow> proxy" where
  "settle_v2 now p =
     (let p = (if rowPx p \<noteq> 0 then p\<lparr>x_cellPx := rowPx p\<rparr> else p);
          p = updateSpacer p
      in termToHost now (x_ydisp p) p)"

lemma updateSpacer_fields [simp]:
  "x_syncing (updateSpacer p) = x_syncing p" "x_top (updateSpacer p) = x_top p"
  "x_ydisp (updateSpacer p) = x_ydisp p" "x_rows (updateSpacer p) = x_rows p"
  "x_bufLen (updateSpacer p) = x_bufLen p" "x_clientHeight (updateSpacer p) = x_clientHeight p"
  "x_spacer (updateSpacer p) = None \<longleftrightarrow> x_spacer p = None"
  "0 < x_cellPx p \<Longrightarrow> x_cellPx (updateSpacer p) = x_cellPx p"
  by (auto simp: updateSpacer_def Let_def split: option.splits)

lemma spacer_height:
  "x_spacer p \<noteq> None \<Longrightarrow> 0 < x_cellPx p \<Longrightarrow>
   x_spacer (updateSpacer p) = Some (js_round (of_int (max 0 (x_bufLen p - x_rows p)) * x_cellPx p +
     max 0 (x_clientHeight p - x_cellPx p * of_int (x_rows p))))"
  by (auto simp: updateSpacer_def Let_def)

text \<open>The spacer leaves room for every line of the scrollback, up to half a pixel.\<close>

lemma host_room:
  assumes "x_spacer p \<noteq> None" "0 < x_cellPx p" "x_rows p \<le> x_bufLen p"
  shows "of_int (x_bufLen p - x_rows p) * x_cellPx p - 1 / 2 \<le> host_maxTop (updateSpacer p)"
proof -
  define e where "e = of_int (x_bufLen p - x_rows p) * x_cellPx p"
  define sl where "sl = max 0 (x_clientHeight p - x_cellPx p * of_int (x_rows p))"
  have h: "x_spacer (updateSpacer p) = Some (js_round (e + sl))"
    using assms by (simp add: spacer_height e_def sl_def)
  have "x_clientHeight p - x_cellPx p * of_int (x_rows p) \<le> sl"
    by (simp add: sl_def)
  with js_round_error [of "e + sl"] have "e - 1 / 2 \<le>
      x_cellPx p * of_int (x_rows p) + of_int (js_round (e + sl)) - x_clientHeight p"
    unfolding abs_le_iff by linarith
  then show ?thesis
    using h assms(2) unfolding host_maxTop_def e_def [symmetric] by simp
qed

lemma termToHost_near:
  assumes "x_spacer p \<noteq> None" "\<not> x_syncing p" "0 < x_cellPx p"
    and "0 \<le> y" "y \<le> x_bufLen p - x_rows p"
  shows "\<bar>x_top (termToHost now y p) - of_int y * x_cellPx p\<bar> < 3 / 2"
proof -
  let ?t = "of_int (js_round (of_int y * x_cellPx p))"
  have err: "\<bar>?t - of_int y * x_cellPx p\<bar> \<le> 1 / 2" by (rule js_round_error)
  have "of_int y * x_cellPx p \<le> of_int (x_bufLen p - x_rows p) * x_cellPx p"
    using assms(3,5) by (intro mult_right_mono) auto
  moreover have "of_int (x_bufLen p - x_rows p) * x_cellPx p - 1 / 2 \<le> host_maxTop (updateSpacer p)"
    using assms by (intro host_room) auto
  ultimately have room: "of_int y * x_cellPx p - 1 / 2 \<le> host_maxTop (updateSpacer p)"
    by linarith
  have y0: "0 \<le> of_int y * x_cellPx p" using assms(3,4) by simp
  have set_top: "host_maxTop (q\<lparr>x_progUntil := u\<rparr>) = host_maxTop q" for q u
    by (simp add: host_maxTop_def)
  show ?thesis
  proof (cases "\<bar>x_top p - ?t\<bar> \<ge> 1")
    case True
    with assms have "x_top (termToHost now y p) = max 0 (min ?t (host_maxTop (updateSpacer p)))"
      by (auto simp: termToHost_def Let_def set_scrollTop_def set_top)
    with err room y0 show ?thesis by (auto simp: max_def min_def abs_if split: if_splits)
  next
    case False
    with assms have "x_top (termToHost now y p) = x_top p"
      by (auto simp: termToHost_def Let_def)
    with err False show ?thesis by (auto simp: abs_if split: if_splits)
  qed
qed

lemma termToHost_fields [simp]:
  "x_ydisp (termToHost now y p) = x_ydisp p"
  "0 < x_cellPx p \<Longrightarrow> x_cellPx (termToHost now y p) = x_cellPx p"
  by (auto simp: termToHost_def Let_def set_scrollTop_def)

section \<open>The keypad\<close>

text \<open>
  \<^verbatim>\<open>clampPad\<close> for a pad of \<open>pw\<close> by \<open>ph\<close> in a window of \<open>vw\<close> by \<open>vh\<close>, and the
  grip drag. \<open>d_pos\<close> is the inline left/top position (\<open>None\<close> while the style sheet places
  the pad), \<open>d_saved\<close> the \<^verbatim>\<open>cm-pad-pos\<close> entry of \<^verbatim>\<open>localStorage\<close>. A pointer-down
  event carries the pad's bounding rectangle as the browser measures it.
\<close>

record viewport =
  v_w :: rat
  v_h :: rat
  v_pw :: rat
  v_ph :: rat

definition clampPad :: "viewport \<Rightarrow> rat \<times> rat \<Rightarrow> rat \<times> rat" where
  "clampPad v p = (max 0 (min (fst p) (v_w v - v_pw v)), max 0 (min (snd p) (v_h v - v_ph v)))"

record pad =
  d_pos :: "(rat \<times> rat) option"
  d_dragging :: bool
  d_start :: "rat \<times> rat"
  d_origin :: "rat \<times> rat"
  d_saved :: "(int \<times> int) option"

datatype pad_event =
    PointerDown "rat \<times> rat" "rat \<times> rat"
  | PointerMove "rat \<times> rat"
  | PointerEnd

definition placePad :: "viewport \<Rightarrow> rat \<times> rat \<Rightarrow> pad \<Rightarrow> pad" where
  "placePad v p d = d\<lparr>d_pos := Some (clampPad v p)\<rparr>"

text \<open>Page load: \<open>saved\<close> is the stored position, if there is one.\<close>

definition pad_load :: "viewport \<Rightarrow> (int \<times> int) option \<Rightarrow> pad" where
  "pad_load v saved =
     (let d = \<lparr>d_pos = None, d_dragging = False, d_start = (0, 0), d_origin = (0, 0), d_saved = saved\<rparr>
      in case saved of None \<Rightarrow> d | Some (l, t) \<Rightarrow> placePad v (of_int l, of_int t) d)"

text \<open>\<^verbatim>\<open>parseInt\<close> of a non-negative length in px is its integer part.\<close>

fun pad_step :: "viewport \<Rightarrow> pad \<Rightarrow> pad_event \<Rightarrow> pad" where
  "pad_step v d (PointerDown client rect) =
     placePad v rect (d\<lparr>d_dragging := True, d_origin := rect, d_start := client\<rparr>)"
| "pad_step v d (PointerMove client) =
     (if \<not> d_dragging d then d
      else placePad v (fst (d_origin d) + (fst client - fst (d_start d)),
                       snd (d_origin d) + (snd client - snd (d_start d))) d)"
| "pad_step v d PointerEnd =
     (if \<not> d_dragging d then d
      else d\<lparr>d_dragging := False,
             d_saved := (case d_pos d of None \<Rightarrow> d_saved d | Some (l, t) \<Rightarrow> Some (\<lfloor>l\<rfloor>, \<lfloor>t\<rfloor>))\<rparr>)"

definition in_viewport :: "viewport \<Rightarrow> rat \<times> rat \<Rightarrow> bool" where
  "in_viewport v p \<longleftrightarrow> 0 \<le> fst p \<and> fst p \<le> max 0 (v_w v - v_pw v) \<and>
     0 \<le> snd p \<and> snd p \<le> max 0 (v_h v - v_ph v)"

definition pad_inv :: "viewport \<Rightarrow> pad \<Rightarrow> bool" where
  "pad_inv v d \<longleftrightarrow> (case d_pos d of None \<Rightarrow> \<not> d_dragging d | Some p \<Rightarrow> in_viewport v p)"

lemma clampPad_in: "in_viewport v (clampPad v p)"
  by (auto simp: in_viewport_def clampPad_def max_def min_def)

lemma clampPad_id: "in_viewport v p \<Longrightarrow> 0 \<le> v_w v - v_pw v \<Longrightarrow> 0 \<le> v_h v - v_ph v \<Longrightarrow> clampPad v p = p"
  by (cases p) (auto simp: in_viewport_def clampPad_def)

lemma pad_step_inv: "pad_inv v d \<Longrightarrow> pad_inv v (pad_step v d e)"
  by (cases e; cases "d_pos d") (simp_all add: pad_inv_def placePad_def clampPad_in)

lemma pad_load_inv: "pad_inv v (pad_load v saved)"
  by (cases saved) (simp_all add: pad_inv_def pad_load_def placePad_def Let_def clampPad_in split_beta)

interpretation pad: guarded_system "pad_load v saved" "pad_step v" "pad_inv v" for v saved
  by unfold_locales (rule pad_load_inv, rule pad_step_inv)

section \<open>Properties\<close>

text \<open>\<^verbatim>\<open>cmLastContentRow\<close> returns the lower of the cursor row and the last non-blank
  row: never above the cursor, nothing but blank rows below it, and content (or the cursor)
  at it.\<close>

lemma cmLastContentRow_correct:
  "cy \<le> cmLastContentRow lines cy \<and>
   list_all (\<lambda>l. l = []) (drop (Suc (cmLastContentRow lines cy)) lines) \<and>
   cmLastContentRow lines cy \<in> insert cy {r. lines ! r \<noteq> []}"
proof -
  note L = last_content_from_props [of "length lines" lines cy, folded cmLastContentRow_def]
  have "lines ! r = []" if "cmLastContentRow lines cy < r" "r < length lines" for r
    using L that by blast
  then have "list_all (\<lambda>l. l = []) (drop (Suc (cmLastContentRow lines cy)) lines)"
    by (auto simp: list_all_length)
  with L show ?thesis by auto
qed

text \<open>C17. While following, settling puts the view where the cursor row is entirely visible,
  and the scroll event that this causes keeps following: the page cannot lose the live row by
  its own scrolling.\<close>

theorem settle_shows_cursor_and_keeps_following:
  assumes "layout_ok s" "t_mode s = Settle" "t_following s"
  shows "cursor_visible s (fst (cmTrackScroll s)) \<and>
    snd (cmTrackScroll (s\<lparr>t_scrollTop := fst (cmTrackScroll s), t_mode := Userscroll\<rparr>))"
proof -
  let ?s = "s\<lparr>t_scrollTop := fst (cmTrackScroll s)\<rparr>"
  note vis = settle_cursor_visible [OF assms]
  then have "cursor_visible ?s (t_scrollTop ?s)"
    by (simp add: cursor_visible_def)
  from visible_keeps_following [OF this] vis show ?thesis by simp
qed

theorem settle_shows_cursor_and_keeps_following_witness:
  "cursor_visible \<lparr>t_mode = Settle, t_following = True, t_cy = 40, t_pinRow = 43, t_cellH = 10,
     t_clientHeight = 50, t_scrollHeight = 5000, t_scrollTop = 0\<rparr> 390"
proof -
  let ?s = "\<lparr>t_mode = Settle, t_following = True, t_cy = 40, t_pinRow = 43, t_cellH = 10,
     t_clientHeight = 50, t_scrollHeight = 5000, t_scrollTop = 0\<rparr> :: track_in"
  have "layout_ok ?s" by (simp add: layout_ok_def track_cellH_def)
  from settle_shows_cursor_and_keeps_following [OF this] show ?thesis
    by (simp add: cmTrackScroll_def Let_def track_clamp_def track_maxTop_def track_cellH_def)
qed

text \<open>Reading history is not disturbed: when not following, settling moves nothing, and
  judging a user's scroll never moves the view in either state.\<close>

lemma track_never_moves_reader:
  "(t_mode s = Userscroll \<or> \<not> t_following s) \<Longrightarrow> fst (cmTrackScroll s) = t_scrollTop s"
  by (auto simp: cmTrackScroll_def Let_def)

lemma track_never_moves_reader_witness:
  "fst (cmTrackScroll \<lparr>t_mode = Settle, t_following = False, t_cy = 40, t_pinRow = 43, t_cellH = 10,
     t_clientHeight = 50, t_scrollHeight = 5000, t_scrollTop = 77\<rparr>) = 77"
  by (subst track_never_moves_reader) simp_all

text \<open>The fitted font size is between 4 and 13; it fits the host unless it is the floor
  of 4, and no larger size the loop may choose fits.\<close>

lemma fitFont_largest:
  assumes "start = min 13 (max 4 \<lfloor>ch / of_int rows / (12 / 10)\<rfloor>)"
  shows "4 \<le> fitFont 0 h ch rows fs \<and> fitFont 0 h ch rows fs \<le> 13 \<and>
    (font_fits h ch (fitFont 0 h ch rows fs) \<or> fitFont 0 h ch rows fs = 4) \<and>
    (\<forall>q. fitFont 0 h ch rows fs < q \<and> q \<le> start \<longrightarrow> \<not> font_fits h ch q)"
proof -
  have "4 \<le> start" "start \<le> 13" by (simp_all add: assms)
  with fit_loop_props [of start h ch fs] show ?thesis by (auto simp: fitFont_def assms)
qed

lemma fitFont_largest_witness:
  "4 \<le> fitFont 0 (\<lambda>px. of_int (px * 70)) 600 70 13"
  using fitFont_largest [of "min 13 (max 4 \<lfloor>600 / of_int 70 / (12 / 10)\<rfloor>)" 600 70
      "\<lambda>px. of_int (px * 70)" 13]
  by blast

text \<open>The two directions of the scroll proxy do not feed back: after the host has been
  moved to the terminal's line, the scroll event that arrives later leaves the terminal on
  that line, for rows of three pixels or more.\<close>

lemma proxy_no_feedback:
  assumes "x_spacer p \<noteq> None" "\<not> x_syncing p" "3 \<le> x_cellPx p"
    and "0 \<le> x_ydisp p" "x_ydisp p \<le> x_bufLen p - x_rows p"
  shows "hostToTerm later (termToHost now (x_ydisp p) p) = termToHost now (x_ydisp p) p"
proof -
  let ?q = "termToHost now (x_ydisp p) p"
  have pos: "0 < x_cellPx p" using assms(3) by simp
  then have c: "x_cellPx ?q = x_cellPx p" by simp
  have "\<bar>x_top ?q - of_int (x_ydisp p) * x_cellPx p\<bar> < 3 / 2"
    using assms pos by (intro termToHost_near) auto
  then have "\<bar>x_top ?q - of_int (x_ydisp p) * x_cellPx p\<bar> / x_cellPx p < (3 / 2) / x_cellPx p"
    using pos by (rule divide_strict_right_mono)
  also have "\<dots> \<le> 1 / 2"
    using assms(3) by (simp add: field_simps)
  finally have "\<bar>(x_top ?q - of_int (x_ydisp p) * x_cellPx p) / x_cellPx p\<bar> < 1 / 2"
    using pos by (simp add: abs_divide)
  then have "\<bar>x_top ?q / x_cellPx p - of_int (x_ydisp p)\<bar> < 1 / 2"
    using pos by (simp add: diff_divide_distrib)
  then have "js_round (x_top ?q / x_cellPx ?q) = x_ydisp ?q"
    unfolding c by (simp add: js_round_near)
  then show ?thesis by (simp add: hostToTerm_def Let_def)
qed

lemma proxy_no_feedback_witness:
  "hostToTerm 1000 (termToHost 0 7 \<lparr>x_spacer = Some 0, x_cellPx = 15, x_syncing = False, x_progUntil = 0,
     x_top = 0, x_clientHeight = 310, x_screenH = 300, x_rows = 20, x_bufLen = 40, x_ydisp = 7\<rparr>) =
   termToHost 0 7 \<lparr>x_spacer = Some 0, x_cellPx = 15, x_syncing = False, x_progUntil = 0,
     x_top = 0, x_clientHeight = 310, x_screenH = 300, x_rows = 20, x_bufLen = 40, x_ydisp = 7\<rparr>"
  using proxy_no_feedback [of "\<lparr>x_spacer = Some 0, x_cellPx = 15, x_syncing = False, x_progUntil = 0,
     x_top = 0, x_clientHeight = 310, x_screenH = 300, x_rows = 20, x_bufLen = 40, x_ydisp = 7\<rparr>" 1000 0]
  by simp

text \<open>Wherever the keypad is dragged, and wherever a stored position puts it, it stays
  inside the window.\<close>

lemma pad_stays_in_viewport:
  "d_pos (run (pad_step v) (pad_load v saved) es) = Some p \<Longrightarrow> in_viewport v p"
  using pad.inv_run [of v saved es] by (simp add: pad_inv_def)

lemma pad_stays_in_viewport_witness:
  "in_viewport \<lparr>v_w = 400, v_h = 800, v_pw = 100, v_ph = 150\<rparr> (300, 0)"
  by (rule pad_stays_in_viewport [of _ "Some (380, 20)" "[PointerDown (10, 10) (300, 20), PointerMove (50, -40), PointerEnd]"])
     (simp add: pad_load_def placePad_def clampPad_def)

end
