(* ===== verification/ByteSearch.thy ===== *)
theory ByteSearch
  imports Prelude
begin

text \<open>
  The three byte-array helpers of \<^verbatim>\<open>web/static/sync.js\<close> (\<^verbatim>\<open>indexOf\<close>,
  \<^verbatim>\<open>tailPrefix\<close>, \<^verbatim>\<open>concat\<close>), their specifications, and the law that makes marker search
  work over a stream: searching what was held back together with the next chunk finds
  exactly what searching the undivided bytes finds (locale \<open>marker_seek\<close>).
\<close>

section \<open>The code's helpers\<close>

text \<open>The inner comparison loop of \<^verbatim>\<open>indexOf\<close>, from \<open>j\<close>: \<open>False\<close> is
  \<^verbatim>\<open>continue outer\<close>.\<close>

function match_at :: "byte list \<Rightarrow> byte list \<Rightarrow> nat \<Rightarrow> nat \<Rightarrow> bool" where
  "match_at data pat i j =
     (if j < length pat
      then if data ! (i + j) \<noteq> pat ! j then False else match_at data pat i (Suc j)
      else True)"
  by pat_completeness auto
termination
  by (relation "measure (\<lambda>(data, pat, i, j). length pat - j)") auto

declare match_at.simps [simp del]

text \<open>\<^verbatim>\<open>indexOf(data, pat, from)\<close>; the code's \<open>-1\<close> is \<open>None\<close>.\<close>

function indexOf :: "byte list \<Rightarrow> byte list \<Rightarrow> nat \<Rightarrow> nat option" where
  "indexOf data pat from =
     (if from + length pat \<le> length data
      then if match_at data pat from 0 then Some from else indexOf data pat (Suc from)
      else None)"
  by pat_completeness auto
termination
  by (relation "measure (\<lambda>(data, pat, from). Suc (length data) - from)") auto

declare indexOf.simps [simp del]

text \<open>The inner loop of \<^verbatim>\<open>tailPrefix\<close> at a candidate \<open>k\<close>.\<close>

function tail_match :: "byte list \<Rightarrow> byte list \<Rightarrow> nat \<Rightarrow> nat \<Rightarrow> bool" where
  "tail_match data pat k j =
     (if j < k
      then if data ! (length data - k + j) \<noteq> pat ! j then False
           else tail_match data pat k (Suc j)
      else True)"
  by pat_completeness auto
termination
  by (relation "measure (\<lambda>(data, pat, k, j). k - j)") auto

declare tail_match.simps [simp del]

text \<open>The outer loop \<^verbatim>\<open>for (k = max; k >= 1; k--)\<close>.\<close>

fun tailPrefix_from :: "byte list \<Rightarrow> byte list \<Rightarrow> nat \<Rightarrow> nat" where
  "tailPrefix_from data pat 0 = 0"
| "tailPrefix_from data pat (Suc k) =
     (if tail_match data pat (Suc k) 0 then Suc k else tailPrefix_from data pat k)"

definition tailPrefix :: "byte list \<Rightarrow> byte list \<Rightarrow> nat" where
  "tailPrefix data pat = tailPrefix_from data pat (min (length pat - 1) (length data))"

text \<open>\<^verbatim>\<open>concat\<close>: a fresh array of both lengths, filled at \<open>0\<close> and at
  \<open>length a\<close> (\<^verbatim>\<open>TypedArray.set\<close>).\<close>

definition ta_set :: "byte list \<Rightarrow> byte list \<Rightarrow> nat \<Rightarrow> byte list" where
  "ta_set r a off = take off r @ a @ drop (off + length a) r"

definition concat_bytes :: "byte list \<Rightarrow> byte list \<Rightarrow> byte list" where
  "concat_bytes a b =
     ta_set (ta_set (replicate (length a + length b) 0) a 0) b (length a)"

lemma concat_bytes_append [simp]: "concat_bytes a b = a @ b"
  by (simp add: concat_bytes_def ta_set_def)

section \<open>What they compute\<close>

definition occurs_at :: "byte list \<Rightarrow> byte list \<Rightarrow> nat \<Rightarrow> bool" where
  "occurs_at pat data i \<longleftrightarrow> i + length pat \<le> length data \<and> prefix pat (drop i data)"

lemma match_at_iff:
  "match_at data pat i j \<longleftrightarrow> (\<forall>k. j \<le> k \<and> k < length pat \<longrightarrow> data ! (i + k) = pat ! k)"
proof (induction data pat i j rule: match_at.induct)
  case (1 data pat i j)
  show ?case
  proof (cases "j < length pat \<and> data ! (i + j) = pat ! j")
    case True
    then have "match_at data pat i j = match_at data pat i (Suc j)"
      by (simp add: match_at.simps [of data pat i j])
    also have "\<dots> \<longleftrightarrow> (\<forall>k. Suc j \<le> k \<and> k < length pat \<longrightarrow> data ! (i + k) = pat ! k)"
      using 1 True by blast
    also have "\<dots> \<longleftrightarrow> (\<forall>k. j \<le> k \<and> k < length pat \<longrightarrow> data ! (i + k) = pat ! k)"
      using True by (metis Suc_leD Suc_leI le_neq_implies_less)
    finally show ?thesis .
  qed (auto simp: match_at.simps [of data pat i j])
qed

lemma match_at_occurs:
  "i + length pat \<le> length data \<Longrightarrow> match_at data pat i 0 \<longleftrightarrow> occurs_at pat data i"
  by (auto simp: match_at_iff occurs_at_def prefix_iff_nth)

lemma indexOf_spec:
  "indexOf data pat from =
     (if \<exists>i \<ge> from. occurs_at pat data i
      then Some (LEAST i. from \<le> i \<and> occurs_at pat data i) else None)"
proof (induction data pat "from" rule: indexOf.induct)
  case (1 data pat "from")
  consider (out) "\<not> from + length pat \<le> length data"
    | (here) "from + length pat \<le> length data" "occurs_at pat data from"
    | (later) "from + length pat \<le> length data" "\<not> occurs_at pat data from"
    by blast
  then show ?case
  proof cases
    case out
    then have "\<not> (\<exists>i \<ge> from. occurs_at pat data i)"
      by (auto simp: occurs_at_def)
    with out show ?thesis
      by (simp add: indexOf.simps [of data pat "from"])
  next
    case here
    then have "(LEAST i. from \<le> i \<and> occurs_at pat data i) = from"
      by (intro Least_equality) auto
    with here show ?thesis
      by (auto simp: indexOf.simps [of data pat "from"] match_at_occurs)
  next
    case later
    then have "(from \<le> i \<and> occurs_at pat data i) \<longleftrightarrow> (Suc from \<le> i \<and> occurs_at pat data i)" for i
      by (metis Suc_leD not_less_eq_eq order_antisym)
    with "1.IH" later show ?thesis
      by (simp add: indexOf.simps [of data pat "from"] match_at_occurs)
  qed
qed

lemma indexOf_SomeD:
  assumes "indexOf data pat from = Some i"
  shows "from \<le> i" "occurs_at pat data i" "\<And>j. from \<le> j \<Longrightarrow> j < i \<Longrightarrow> \<not> occurs_at pat data j"
proof -
  from assms have ex: "\<exists>i. from \<le> i \<and> occurs_at pat data i"
    and i: "i = (LEAST i. from \<le> i \<and> occurs_at pat data i)"
    by (auto simp: indexOf_spec split: if_splits)
  from LeastI_ex [OF ex] i show "from \<le> i" "occurs_at pat data i" by auto
  show "\<not> occurs_at pat data j" if "from \<le> j" "j < i" for j
    using not_less_Least [of j "\<lambda>i. from \<le> i \<and> occurs_at pat data i"] that i by auto
qed

lemma indexOf_NoneD: "indexOf data pat from = None \<Longrightarrow> from \<le> i \<Longrightarrow> \<not> occurs_at pat data i"
  by (auto simp: indexOf_spec split: if_splits)

lemma indexOf_SomeI:
  assumes "from \<le> i" "occurs_at pat data i" "\<And>j. from \<le> j \<Longrightarrow> j < i \<Longrightarrow> \<not> occurs_at pat data j"
  shows "indexOf data pat from = Some i"
proof -
  have "(LEAST i. from \<le> i \<and> occurs_at pat data i) = i"
    using assms by (intro Least_equality) (auto simp: not_less [symmetric])
  with assms show ?thesis by (auto simp: indexOf_spec)
qed

lemma indexOf_NoneI: "(\<And>i. from \<le> i \<Longrightarrow> \<not> occurs_at pat data i) \<Longrightarrow> indexOf data pat from = None"
  by (auto simp: indexOf_spec)

lemma indexOf_None_iff: "indexOf data pat 0 = None \<longleftrightarrow> (\<forall>i. \<not> occurs_at pat data i)"
  by (auto simp: indexOf_spec)

text \<open>Searching from \<open>pos\<close> is searching the rest of the data from its start.\<close>

lemma occurs_at_drop: "pos \<le> length data \<Longrightarrow> occurs_at pat (drop pos data) i \<longleftrightarrow> occurs_at pat data (pos + i)"
  by (auto simp: occurs_at_def add.commute)

lemma indexOf_drop:
  assumes "pos \<le> length data"
  shows "indexOf data pat pos = map_option ((+) pos) (indexOf (drop pos data) pat 0)"
proof (cases "indexOf (drop pos data) pat 0")
  case None
  have "\<not> occurs_at pat data i" if "pos \<le> i" for i
    using indexOf_NoneD [OF None, of "i - pos"] that assms by (simp add: occurs_at_drop)
  with None show ?thesis by (simp add: indexOf_NoneI)
next
  case (Some i)
  note * = indexOf_SomeD [OF Some]
  have "\<not> occurs_at pat data j" if "pos \<le> j" "j < pos + i" for j
    using *(3) [of "j - pos"] that assms by (simp add: occurs_at_drop)
  with * assms have "indexOf data pat pos = Some (pos + i)"
    by (intro indexOf_SomeI) (auto simp: occurs_at_drop)
  with Some show ?thesis by simp
qed

lemma indexOf_prefixed:
  "indexOf (p @ d) pat (length p + q) = map_option ((+) (length p)) (indexOf d pat q)"
proof (cases "q \<le> length d")
  case True
  then show ?thesis
    using indexOf_drop [of "length p + q" "p @ d" pat] indexOf_drop [of q d pat]
    by (simp add: option.map_comp comp_def add.assoc [symmetric] fun_eq_iff
        cong: option.map_cong)
next
  case False
  then show ?thesis
    by (simp add: indexOf.simps [of "p @ d"] indexOf.simps [of d])
qed

text \<open>\<^verbatim>\<open>tailPrefix\<close> is the longest proper prefix of the marker that ends the data.\<close>

definition held :: "byte list \<Rightarrow> byte list \<Rightarrow> nat \<Rightarrow> bool" where
  "held data pat k \<longleftrightarrow> k < length pat \<and> k \<le> length data \<and> drop (length data - k) data = take k pat"

lemma tail_match_iff:
  "tail_match data pat k j \<longleftrightarrow> (\<forall>l. j \<le> l \<and> l < k \<longrightarrow> data ! (length data - k + l) = pat ! l)"
proof (induction data pat k j rule: tail_match.induct)
  case (1 data pat k j)
  show ?case
  proof (cases "j < k \<and> data ! (length data - k + j) = pat ! j")
    case True
    then have "tail_match data pat k j = tail_match data pat k (Suc j)"
      by (simp add: tail_match.simps [of data pat k j])
    also have "\<dots> \<longleftrightarrow> (\<forall>l. Suc j \<le> l \<and> l < k \<longrightarrow> data ! (length data - k + l) = pat ! l)"
      using 1 True by blast
    also have "\<dots> \<longleftrightarrow> (\<forall>l. j \<le> l \<and> l < k \<longrightarrow> data ! (length data - k + l) = pat ! l)"
      using True by (metis Suc_leD Suc_leI le_neq_implies_less)
    finally show ?thesis .
  qed (auto simp: tail_match.simps [of data pat k j])
qed

lemma tail_match_held:
  assumes "k < length pat" "k \<le> length data"
  shows "tail_match data pat k 0 \<longleftrightarrow> held data pat k"
proof -
  from assms have "drop (length data - k) data = take k pat \<longleftrightarrow>
      (\<forall>l < k. data ! (length data - k + l) = pat ! l)"
    by (auto simp: list_eq_iff_nth_eq)
  with assms show ?thesis by (auto simp: tail_match_iff held_def)
qed

lemma tailPrefix_from_greatest:
  assumes "m < length pat" "m \<le> length data"
  shows "held data pat (tailPrefix_from data pat m)"
    and "held data pat k \<Longrightarrow> k \<le> m \<Longrightarrow> k \<le> tailPrefix_from data pat m"
  using assms
proof (induction m)
  case 0
  { case 1 then show ?case by (simp add: held_def) }
  { case 2 then show ?case by simp }
next
  case (Suc m)
  { case 1 with Suc show ?case by (auto simp: tail_match_held) }
  { case 2 with Suc show ?case by (auto simp: tail_match_held le_Suc_eq) }
qed

lemma tailPrefix_held: "pat \<noteq> [] \<Longrightarrow> held data pat (tailPrefix data pat)"
  unfolding tailPrefix_def by (rule tailPrefix_from_greatest) (cases pat; simp)+

lemma tailPrefix_greatest: "held data pat k \<Longrightarrow> k \<le> tailPrefix data pat"
  unfolding tailPrefix_def by (rule tailPrefix_from_greatest) (auto simp: held_def)

lemma tailPrefix_le: "tailPrefix data pat \<le> length data"
proof (cases "pat = []")
  case True
  then show ?thesis by (simp add: tailPrefix_def)
next
  case False
  then show ?thesis using tailPrefix_held [of pat data] by (simp add: held_def)
qed

section \<open>Searching a stream\<close>

text \<open>
  One search step on the bytes available so far: the marker is found, or the bytes that
  cannot belong to a marker any more are let through and a partial marker is carried.
\<close>

datatype seek_result = Found "byte list" "byte list" | Held "byte list" "byte list"

definition seek :: "byte list \<Rightarrow> byte list \<Rightarrow> seek_result" where
  "seek pat d =
     (case indexOf d pat 0 of
        Some i \<Rightarrow> Found (take i d) (drop (i + length pat) d)
      | None \<Rightarrow> (let cutp = length d - tailPrefix d pat in Held (take cutp d) (drop cutp d)))"

fun seek_after :: "seek_result \<Rightarrow> byte list \<Rightarrow> (byte list \<Rightarrow> seek_result) \<Rightarrow> seek_result" where
  "seek_after (Found a r) c again = Found a (r @ c)"
| "seek_after (Held out k) c again =
     (case again (k @ c) of
        Found a r \<Rightarrow> Found (out @ a) r
      | Held out' k' \<Rightarrow> Held (out @ out') k')"

text \<open>Occurrences that straddle a chunk border start inside the carried bytes.\<close>

lemma straddling_start:
  assumes pat: "pat \<noteq> []" and none: "indexOf d pat 0 = None"
    and occ: "occurs_at pat (d @ c) i"
  shows "length d - tailPrefix d pat \<le> i"
proof (rule ccontr)
  assume "\<not> ?thesis"
  then have i: "i < length d" by simp
  have "\<not> occurs_at pat d i"
    using indexOf_NoneD [OF none] by simp
  with occ have long: "length d < i + length pat"
    using prefix_drop_append_inside [of i pat d c] by (fastforce simp: occurs_at_def)
  from occ i have "prefix pat (drop i d @ c)"
    by (simp add: occurs_at_def)
  then have "take (length d - i) pat = take (length d - i) (drop i d @ c)"
    using long by (auto simp: prefix_def dest: arg_cong [where f = "take (length d - i)"])
  with i long have "held d pat (length d - i)"
    by (simp add: held_def)
  from tailPrefix_greatest [OF this] \<open>\<not> ?thesis\<close> i show False
    by simp
qed

lemma held_straddling:
  assumes "held (d @ c) pat k" and "length c < k"
  shows "held d pat (k - length c)"
proof -
  from assms have "drop (length d - (k - length c)) d @ c = take k pat"
    by (simp add: held_def)
  from arg_cong [OF this, of "take (k - length c)"] assms
  have "drop (length d - (k - length c)) d = take (k - length c) pat"
    by (simp add: held_def)
  with assms show ?thesis by (auto simp: held_def)
qed

lemma indexOf_skip:
  assumes "\<And>i. i < cutp \<Longrightarrow> \<not> occurs_at pat data i"
  shows "indexOf data pat 0 = indexOf data pat cutp"
proof -
  have "(0 \<le> i \<and> occurs_at pat data i) \<longleftrightarrow> (cutp \<le> i \<and> occurs_at pat data i)" for i
    using assms by (metis linorder_not_less zero_le)
  then show ?thesis by (simp add: indexOf_spec)
qed

lemma tailPrefix_eqI:
  assumes "pat \<noteq> []" and "\<And>k. held data pat k \<longleftrightarrow> held data' pat k"
  shows "tailPrefix data pat = tailPrefix data' pat"
  using assms tailPrefix_held tailPrefix_greatest by (metis order_antisym)

lemma held_carry:
  assumes pat: "pat \<noteq> []" and cutp: "cutp = length d - tailPrefix d pat"
  shows "held (d @ c) pat k \<longleftrightarrow> held (drop cutp d @ c) pat k"
proof (cases "k \<le> length (drop cutp d @ c)")
  case True
  moreover have "drop cutp d @ c = drop cutp (d @ c)"
    using cutp by simp
  ultimately show ?thesis
    using cutp by (auto simp: held_def drop_drop simp del: drop_append)
next
  case False
  have "\<not> held (d @ c) pat k"
  proof
    assume h: "held (d @ c) pat k"
    from False have "length c < k" by simp
    from tailPrefix_greatest [OF held_straddling [OF h this]] False cutp tailPrefix_le [of d pat]
    show False by simp
  qed
  with False show ?thesis by (simp add: held_def)
qed

lemma seek_append:
  assumes pat: "pat \<noteq> []"
  shows "seek pat (d @ c) = seek_after (seek pat d) c (seek pat)"
proof (cases "indexOf d pat 0")
  case (Some i)
  note * = indexOf_SomeD [OF Some]
  have "indexOf (d @ c) pat 0 = Some i"
  proof (rule indexOf_SomeI)
    show "occurs_at pat (d @ c) i"
      using *(2) by (auto simp: occurs_at_def prefix_prefix)
    show "\<not> occurs_at pat (d @ c) j" if "j < i" for j
      using *(2) *(3) [of j] that prefix_drop_append_inside [of j pat d c]
      by (auto simp: occurs_at_def simp del: drop_append)
  qed simp
  with Some *(2) show ?thesis
    by (simp add: seek_def occurs_at_def)
next
  case None
  define cutp where "cutp = length d - tailPrefix d pat"
  have rest: "drop cutp d @ c = drop cutp (d @ c)" and le: "cutp \<le> length (d @ c)"
    by (simp_all add: cutp_def)
  have "indexOf (d @ c) pat 0 = indexOf (d @ c) pat cutp"
    using straddling_start [OF pat None, of c] by (intro indexOf_skip) (fastforce simp: cutp_def)
  also have "\<dots> = map_option ((+) cutp) (indexOf (drop cutp d @ c) pat 0)"
    by (simp only: rest indexOf_drop [OF le])
  finally have ix: "indexOf (d @ c) pat 0 = map_option ((+) cutp) (indexOf (drop cutp d @ c) pat 0)" .
  have tp: "tailPrefix (d @ c) pat = tailPrefix (drop cutp d @ c) pat"
    by (rule tailPrefix_eqI [OF pat held_carry [OF pat cutp_def]])
  have seek_d: "seek pat d = Held (take cutp d) (drop cutp d)"
    using None by (simp add: seek_def cutp_def Let_def)
  have "take cutp (d @ c) = take cutp d"
    by (simp add: cutp_def)
  then have tk: "take (cutp + n) (d @ c) = take cutp d @ take n (drop cutp d @ c)" for n
    by (simp only: take_add rest)
  have dr: "drop (cutp + n) (d @ c) = drop n (drop cutp d @ c)" for n
    by (simp only: rest drop_drop add.commute)
  show ?thesis
  proof (cases "indexOf (drop cutp d @ c) pat 0")
    case None
    define n where "n = length (drop cutp d @ c) - tailPrefix (drop cutp d @ c) pat"
    have "length (d @ c) - tailPrefix (d @ c) pat = cutp + n"
      using tailPrefix_le [of "drop cutp d @ c" pat] le by (simp add: tp n_def cutp_def)
    then have "seek pat (d @ c) = Held (take cutp d @ take n (drop cutp d @ c)) (drop n (drop cutp d @ c))"
      using None ix by (simp add: seek_def tk dr Let_def del: drop_append take_append)
    moreover have "seek pat (drop cutp d @ c) = Held (take n (drop cutp d @ c)) (drop n (drop cutp d @ c))"
      by (simp only: seek_def None n_def Let_def option.case)
    ultimately show ?thesis
      by (simp only: seek_d seek_after.simps seek_result.case)
  next
    case (Some i)
    with ix have "seek pat (d @ c) = Found (take cutp d @ take i (drop cutp d @ c))
        (drop (i + length pat) (drop cutp d @ c))"
      by (simp add: seek_def tk dr add.assoc del: drop_append take_append)
    moreover from Some have "seek pat (drop cutp d @ c) =
        Found (take i (drop cutp d @ c)) (drop (i + length pat) (drop cutp d @ c))"
      by (simp only: seek_def option.case)
    ultimately show ?thesis
      by (simp only: seek_d seek_after.simps seek_result.case)
  qed
qed

lemma seek_FoundD:
  assumes "seek pat d = Found a r"
  shows "d = a @ pat @ r" and "indexOf d pat 0 = Some (length a)"
proof -
  from assms obtain i where i: "indexOf d pat 0 = Some i"
    and a: "a = take i d" and r: "r = drop (i + length pat) d"
    by (auto simp: seek_def Let_def split: option.splits)
  from indexOf_SomeD(2) [OF i] have "take (length pat) (drop i d) = pat" and le: "i \<le> length d"
    by (auto simp: occurs_at_def dest: take_length_prefix)
  then have "drop i d = pat @ r"
    by (metis append_take_drop_id drop_drop add.commute r)
  with a show "d = a @ pat @ r" by (metis append_take_drop_id)
  from i a le show "indexOf d pat 0 = Some (length a)" by simp
qed

lemma seek_HeldD:
  assumes "seek pat d = Held a k" and "pat \<noteq> []"
  shows "d = a @ k" and "indexOf d pat 0 = None" and "length k < length pat"
    and "take (length k) pat = k" and "length d - tailPrefix d pat = length a"
proof -
  from assms have none: "indexOf d pat 0 = None"
    and a: "a = take (length d - tailPrefix d pat) d" and k: "k = drop (length d - tailPrefix d pat) d"
    by (auto simp: seek_def Let_def split: option.splits)
  from a k show "d = a @ k" by simp
  from none show "indexOf d pat 0 = None" .
  from tailPrefix_held [OF assms(2), of d] k
  show "length k < length pat" and "take (length k) pat = k"
    by (auto simp: held_def)
  from a show "length d - tailPrefix d pat = length a"
    by simp
qed

lemma seek_eq_FoundI:
  "indexOf d pat 0 = Some i \<Longrightarrow> seek pat d = Found (take i d) (drop (i + length pat) d)"
  by (simp add: seek_def)

text \<open>What precedes a marker that was searched contains none.\<close>

lemma occurs_at_inside: "occurs_at pat a i \<Longrightarrow> occurs_at pat (x @ a @ y) (length x + i)"
  by (auto simp: occurs_at_def prefix_prefix)

lemma seek_Held_free:
  assumes "seek pat d = Held (x @ a @ y) k" "pat \<noteq> []"
  shows "\<not> occurs_at pat a i"
  using occurs_at_inside [of pat a i x "y @ k"] seek_HeldD(1,2) [OF assms] indexOf_NoneD by fastforce

lemma seek_Found_free:
  assumes "seek pat d = Found (x @ a @ y) r" "pat \<noteq> []"
  shows "\<not> occurs_at pat a i"
proof
  assume occ: "occurs_at pat a i"
  note F = seek_FoundD [OF assms(1)]
  from occ assms(2) have "i < length a"
    by (cases pat) (auto simp: occurs_at_def)
  moreover from occ F(1) have "occurs_at pat d (length x + i)"
    using occurs_at_inside [of pat a i x "y @ pat @ r"] by simp
  ultimately show False using indexOf_SomeD(3) [OF F(2), of "length x + i"] by simp
qed

lemma free_not_prefix: "(\<And>i. \<not> occurs_at pat a i) \<Longrightarrow> \<not> prefix pat a"
  by (metis add_0 drop_0 occurs_at_def prefix_length_le)

lemma tailPrefix_Nil [simp]: "tailPrefix [] pat = 0"
  by (simp add: tailPrefix_def)

lemma seek_Held_strict: "seek pat d = Held a k \<Longrightarrow> pat \<noteq> [] \<Longrightarrow> strict_prefix k pat"
  using seek_HeldD(3,4) [of pat d a k] by (metis less_irrefl strict_prefixI take_is_prefix)

lemma seek_Nil: "pat \<noteq> [] \<Longrightarrow> seek pat [] = Held [] []"
  by (simp add: seek_def indexOf.simps [of "[]"])

section \<open>Filters that cut a stream at markers\<close>

text \<open>
  What \<^verbatim>\<open>makeSyncFilter\<close> and \<^verbatim>\<open>cmMakeMetaFilter\<close> have in common. The state \<open>s\<close>
  chooses the marker to look for (\<open>sk\<close>); \<open>pass\<close> handles bytes that precede any marker;
  \<open>hit\<close> handles the bytes up to a marker that was found and says which bytes are read
  again before the rest. \<open>scan\<close> is the loop over one buffer, and a partial marker at the
  end goes to the carry (\<open>getc\<close>, \<open>setc\<close>). Under these laws the loop commutes with
  cutting the stream.
\<close>

locale marker_machine =
  fixes sk :: "'s \<Rightarrow> byte list \<Rightarrow> seek_result"
    and pass :: "'s \<Rightarrow> byte list \<Rightarrow> 'e list \<times> 's"
    and hit :: "'s \<Rightarrow> byte list \<Rightarrow> 'e list \<times> 's \<times> byte list"
    and scan :: "'s \<Rightarrow> byte list \<Rightarrow> 'e list \<times> 's"
    and getc :: "'s \<Rightarrow> byte list"
    and setc :: "byte list \<Rightarrow> 's \<Rightarrow> 's"
    and flat :: "'e \<Rightarrow> 'o list"
    and weight :: "'s \<Rightarrow> byte list \<Rightarrow> nat"
  assumes sk_append: "sk s (d @ c) = seek_after (sk s d) c (sk s)"
    and scan_Held: "getc s = [] \<Longrightarrow> sk s d = Held a k \<Longrightarrow>
          scan s d = (fst (pass s a), setc k (snd (pass s a)))"
    and scan_Found: "getc s = [] \<Longrightarrow> sk s d = Found a r \<Longrightarrow> hit s a = (es, s', b) \<Longrightarrow>
          scan s d = (es @ fst (scan s' (b @ r)), snd (scan s' (b @ r)))"
    and found_lighter: "sk s d = Found a r \<Longrightarrow> hit s a = (es, s', b) \<Longrightarrow> weight s' (b @ r) < weight s d"
    and pass_sk: "sk (snd (pass s a)) = sk s"
    and pass_clear: "getc s = [] \<Longrightarrow> getc (snd (pass s a)) = []"
    and hit_clear: "getc s = [] \<Longrightarrow> hit s a = (es, s', b) \<Longrightarrow> getc s' = []"
    and pass_append_out: "sk s x = Held (a @ a') k \<Longrightarrow> flatten flat (fst (pass s (a @ a'))) =
          flatten flat (fst (pass s a)) @ flatten flat (fst (pass (snd (pass s a)) a'))"
    and pass_append_state: "snd (pass s (a @ a')) = snd (pass (snd (pass s a)) a')"
    and hit_pass_out: "sk s x = Found (a @ a') r \<Longrightarrow> flatten flat (fst (hit s (a @ a'))) =
          flatten flat (fst (pass s a)) @ flatten flat (fst (hit (snd (pass s a)) a'))"
    and hit_pass_state: "snd (hit s (a @ a')) = snd (hit (snd (pass s a)) a')"
    and get_set: "getc (setc k s) = k"
    and set_set: "setc k (setc k' s) = setc k s"
    and set_get: "setc (getc s) s = s"
begin

lemma set_clear: "getc s = [] \<Longrightarrow> setc [] s = s"
  by (metis set_get)

lemma scan_Found': "getc s = [] \<Longrightarrow> sk s d = Found a r \<Longrightarrow>
    scan s d = (fst (hit s a) @ fst (scan (fst (snd (hit s a))) (snd (snd (hit s a)) @ r)),
      snd (scan (fst (snd (hit s a))) (snd (snd (hit s a)) @ r)))"
  by (cases "hit s a") (simp add: scan_Found)

lemma scan_append_aux:
  assumes "getc s = []"
  shows "flatten flat (fst (scan s (d @ c))) =
           flatten flat (fst (scan s d)) @
           flatten flat (fst (scan (setc [] (snd (scan s d))) (getc (snd (scan s d)) @ c))) \<and>
         snd (scan s (d @ c)) = snd (scan (setc [] (snd (scan s d))) (getc (snd (scan s d)) @ c))"
  using assms
proof (induction "weight s d" arbitrary: s d rule: less_induct)
  case less
  note clear = less.prems
  show ?case
  proof (cases "sk s d")
    case (Found a r)
    obtain es s' b where hit: "hit s a = (es, s', b)" by (cases "hit s a") auto
    from Found have "sk s (d @ c) = Found a (r @ c)" by (simp add: sk_append)
    with Found hit clear less.hyps [OF found_lighter [OF Found hit] hit_clear [OF clear hit]]
    show ?thesis by (simp add: scan_Found)
  next
    case (Held a k)
    let ?s = "snd (pass s a)"
    note p = pass_clear [OF clear, of a]
    from Held clear have sd: "scan s d = (fst (pass s a), setc k ?s)" by (simp add: scan_Held)
    show ?thesis
    proof (cases "sk s (k @ c)")
      case Found': (Found a' r)
      with Held have whole: "sk s (d @ c) = Found (a @ a') r" by (simp add: sk_append)
      with Found' clear p show ?thesis
        by (simp add: sd set_set set_clear get_set scan_Found' pass_sk hit_pass_out [OF whole] hit_pass_state)
    next
      case Held': (Held a' k')
      with Held have "sk s (d @ c) = Held (a @ a') k'" by (simp add: sk_append)
      with Held' clear p show ?thesis
        by (simp add: sd set_set set_clear get_set scan_Held pass_sk pass_append_out pass_append_state)
    qed
  qed
qed

lemmas scan_append = scan_append_aux [THEN conjunct1] scan_append_aux [THEN conjunct2]

text \<open>A loop over a buffer ends where a search finds no marker.\<close>

lemma scan_ends:
  assumes "getc s = []"
  obtains s' d' a k where "getc s' = []" "sk s' d' = Held a k" "snd (scan s d) = setc k (snd (pass s' a))"
  using assms
proof (induction "weight s d" arbitrary: s d thesis rule: less_induct)
  case less
  show ?case
  proof (cases "sk s d")
    case (Found a r)
    obtain es s' b where hit: "hit s a = (es, s', b)" by (cases "hit s a") auto
    note clear' = hit_clear [OF less.prems(2) hit]
    show ?thesis
      by (rule less.hyps [OF found_lighter [OF Found hit] _ clear'])
         (rule less.prems(1), simp_all add: scan_Found [OF less.prems(2) Found hit])
  next
    case (Held a k)
    show ?thesis by (rule less.prems(1) [OF less.prems(2) Held]) (simp add: scan_Held [OF less.prems(2) Held])
  qed
qed

text \<open>The feed function puts the carry in front of the chunk; a state is settled when
  feeding nothing changes nothing, and every state a feed returns is settled.\<close>

definition feed :: "'s \<Rightarrow> byte list \<Rightarrow> 'e list \<times> 's" where
  "feed s c = scan (setc [] s) (getc s @ c)"

definition settled :: "'s \<Rightarrow> bool" where
  "settled s \<longleftrightarrow> snd (feed s []) = s \<and> flatten flat (fst (feed s [])) = []"

lemma settled_feed: "settled (snd (feed s c))"
  using scan_append [OF get_set, of s "getc s @ c" "[]"]
  by (simp add: settled_def feed_def)

sublocale chunked_filter feed flat settled
proof
  fix s c d
  show "settled (snd (feed s c))" by (rule settled_feed)
  show "settled s \<Longrightarrow> snd (feed s []) = s \<and> flatten flat (fst (feed s [])) = []"
    by (simp add: settled_def)
  show "snd (feed s (c @ d)) = snd (feed (snd (feed s c)) d)"
    and "flatten flat (fst (feed s (c @ d))) =
      flatten flat (fst (feed s c)) @ flatten flat (fst (feed (snd (feed s c)) d))"
    using scan_append [OF get_set, of s "getc s @ c" d] by (simp_all add: feed_def)
qed

end

end
