(* ===== verification/MetaSearch.thy ===== *)
theory MetaSearch
  imports ByteSearch
begin

text \<open>
  The byte search inside \<^verbatim>\<open>cmMakeMetaFilter\<close> (\<^verbatim>\<open>web/static/term.js\<close>): this script has its own
  \<^verbatim>\<open>indexOf\<close>, \<^verbatim>\<open>tailPrefix\<close> and \<^verbatim>\<open>concat\<close>. They are translated here from its text and
  shown to compute what those of \<^verbatim>\<open>sync.js\<close> compute, so that one theory of search serves both
  filters.
\<close>

text \<open>The labelled loop of \<^verbatim>\<open>indexOf\<close>: the inner loop is the search for a mismatch.\<close>

fun mf_mismatch :: "byte list \<Rightarrow> byte list \<Rightarrow> bool" where
  "mf_mismatch d [] = False"
| "mf_mismatch [] (p # pat) = True"
| "mf_mismatch (b # d) (p # pat) = (if b \<noteq> p then True else mf_mismatch d pat)"

function mf_indexOf :: "byte list \<Rightarrow> byte list \<Rightarrow> nat \<Rightarrow> nat option" where
  "mf_indexOf d pat i =
     (if i + length pat \<le> length d
      then if mf_mismatch (drop i d) pat then mf_indexOf d pat (Suc i) else Some i
      else None)"
  by pat_completeness auto
termination
  by (relation "measure (\<lambda>(d, pat, i). Suc (length d) - i)") auto

declare mf_indexOf.simps [simp del]

text \<open>\<^verbatim>\<open>tailPrefix\<close>: the candidates from \<open>k\<close> down.\<close>

fun mf_tail_from :: "byte list \<Rightarrow> byte list \<Rightarrow> nat \<Rightarrow> nat" where
  "mf_tail_from d pat 0 = 0"
| "mf_tail_from d pat (Suc k) =
     (if \<not> mf_mismatch (drop (length d - Suc k) d) (take (Suc k) pat) then Suc k else mf_tail_from d pat k)"

definition mf_tailPrefix :: "byte list \<Rightarrow> byte list \<Rightarrow> nat" where
  "mf_tailPrefix d pat = mf_tail_from d pat (min (length pat - 1) (length d))"

definition mf_concat :: "byte list \<Rightarrow> byte list \<Rightarrow> byte list" where
  "mf_concat a b = ta_set (ta_set (replicate (length a + length b) 0) a 0) b (length a)"

section \<open>They are the functions of the shim\<close>

lemma mf_mismatch_iff: "mf_mismatch d pat = (\<not> prefix pat d)"
  by (induction d pat rule: mf_mismatch.induct) auto

lemma mf_indexOf_eq [simp]: "mf_indexOf d pat i = indexOf d pat i"
proof (induction d pat i rule: mf_indexOf.induct)
  case (1 d pat i)
  show ?case
  proof (cases "i + length pat \<le> length d")
    case True
    then have "match_at d pat i 0 = (\<not> mf_mismatch (drop i d) pat)"
      by (simp add: match_at_occurs occurs_at_def mf_mismatch_iff)
    with 1 True show ?thesis
      by (simp add: mf_indexOf.simps [of d pat i] indexOf.simps [of d pat i])
  qed (simp add: mf_indexOf.simps [of d pat i] indexOf.simps [of d pat i])
qed

lemma prefix_same_length: "length p = length d \<Longrightarrow> prefix p d \<longleftrightarrow> d = p"
  by (auto simp: prefix_def)

lemma mf_tail_from_eq: "k < length pat \<Longrightarrow> k \<le> length d \<Longrightarrow> mf_tail_from d pat k = tailPrefix_from d pat k"
proof (induction k)
  case (Suc k)
  have "prefix (take (Suc k) pat) (drop (length d - Suc k) d) \<longleftrightarrow> drop (length d - Suc k) d = take (Suc k) pat"
    using Suc.prems by (intro prefix_same_length) simp
  with Suc show ?case
    by (simp add: mf_mismatch_iff tail_match_held held_def)
qed simp

lemma mf_tailPrefix_eq [simp]: "mf_tailPrefix d pat = tailPrefix d pat"
proof (cases "pat = []")
  case False
  then show ?thesis
    unfolding mf_tailPrefix_def tailPrefix_def by (intro mf_tail_from_eq) (cases pat; simp)+
qed (simp add: mf_tailPrefix_def tailPrefix_def)

lemma mf_concat_eq [simp]: "mf_concat a b = a @ b"
  by (simp add: mf_concat_def ta_set_def)

end
