(* ===== verification/JsRuntime.thy ===== *)
theory JsRuntime
  imports Prelude
begin

text \<open>
  The parts of the JavaScript standard library the scripts call, on strings held as their
  UTF-8 bytes (a HOL \<open>char\<close> is one byte; a lone surrogate, which has no UTF-8 form, is
  outside the model): \<^verbatim>\<open>String.prototype.indexOf\<close> and \<^verbatim>\<open>split\<close>,
  \<^verbatim>\<open>parseInt(_, 10)\<close> and number to string. Numbers are mathematical integers or rationals: the rounding of a
  double beyond \<open>2 ^ 53\<close> is not modelled.
\<close>

section \<open>Strings\<close>

text \<open>\<^verbatim>\<open>s.indexOf(pat)\<close>, \<open>None\<close> for \<open>-1\<close>.\<close>

fun str_indexOf :: "string \<Rightarrow> string \<Rightarrow> nat option" where
  "str_indexOf [] pat = (if pat = [] then Some 0 else None)"
| "str_indexOf (c # s) pat = (if prefix pat (c # s) then Some 0 else map_option Suc (str_indexOf s pat))"

text \<open>\<^verbatim>\<open>s.split(sep)\<close> for a separator of one character.\<close>

fun str_split :: "char \<Rightarrow> string \<Rightarrow> string list" where
  "str_split sep [] = [[]]"
| "str_split sep (c # s) =
     (if c = sep then [] # str_split sep s
      else (case str_split sep s of [] \<Rightarrow> [[c]] | p # ps \<Rightarrow> (c # p) # ps))"

fun str_join :: "char \<Rightarrow> string list \<Rightarrow> string" where
  "str_join sep [] = []"
| "str_join sep [p] = p"
| "str_join sep (p # q # ps) = p @ sep # str_join sep (q # ps)"

text \<open>\<^verbatim>\<open>a || b\<close> on strings: the empty string is falsy.\<close>

definition or_str :: "string \<Rightarrow> string \<Rightarrow> string" where
  "or_str a b = (if a = [] then b else a)"

text \<open>\<^verbatim>\<open>x || b\<close> where \<^verbatim>\<open>x\<close> may be missing (\<^verbatim>\<open>null\<close> or \<^verbatim>\<open>undefined\<close>).\<close>

fun or_opt :: "string option \<Rightarrow> string \<Rightarrow> string" where
  "or_opt None b = b"
| "or_opt (Some a) b = or_str a b"

lemma str_split_not_Nil [simp]: "str_split sep s \<noteq> []"
  by (induction s) (auto split: list.splits)

lemma str_split_no_sep: "sep \<notin> set s \<Longrightarrow> str_split sep s = [s]"
  by (induction s) auto

lemma str_split_append: "sep \<notin> set p \<Longrightarrow> str_split sep (p @ sep # s) = p # str_split sep s"
  by (induction p) auto

lemma str_split_join:
  "ps \<noteq> [] \<Longrightarrow> (\<And>p. p \<in> set ps \<Longrightarrow> sep \<notin> set p) \<Longrightarrow> str_split sep (str_join sep ps) = ps"
  by (induction ps rule: str_join.induct) (auto simp: str_split_no_sep str_split_append)

lemma str_join_split: "str_join sep (str_split sep s) = s"
proof (induction s)
  case (Cons c s)
  then show ?case
    by (cases "str_split sep s"; cases "tl (str_split sep s)") auto
qed simp

lemma str_indexOf_char: "c \<notin> set p \<Longrightarrow> str_indexOf (p @ c # s) [c] = Some (length p)"
  by (induction p) auto

lemma str_indexOf_char_None: "str_indexOf s [c] = None \<longleftrightarrow> c \<notin> set s"
  by (induction s) auto

lemma str_indexOf_prefix: "str_indexOf s pat = Some 0 \<longleftrightarrow> prefix pat s"
  by (cases s) auto

lemma str_indexOf_None_iff: "str_indexOf s pat = None \<longleftrightarrow> \<not> sublist pat s"
  by (induction s) (auto simp: sublist_Cons_right)

section \<open>Numbers\<close>

definition is_digit :: "char \<Rightarrow> bool" where
  "is_digit c \<longleftrightarrow> c \<in> set ''0123456789''"

definition digit_value :: "char \<Rightarrow> nat" where
  "digit_value c = of_char c - 48"

fun digits_value :: "nat \<Rightarrow> string \<Rightarrow> nat" where
  "digits_value n [] = n"
| "digits_value n (c # s) = digits_value (10 * n + digit_value c) s"

text \<open>The white space \<^verbatim>\<open>parseInt\<close> skips, as UTF-8 byte sequences.\<close>

definition js_spaces :: "string list" where
  "js_spaces =
    [[CHR 0x09],
     [CHR 0x0A],
     [CHR 0x0B],
     [CHR 0x0C],
     [CHR 0x0D],
     [CHR 0x20],
     [CHR 0xC2, CHR 0xA0],
     [CHR 0xE1, CHR 0x9A, CHR 0x80],
     [CHR 0xE2, CHR 0x80, CHR 0x80],
     [CHR 0xE2, CHR 0x80, CHR 0x81],
     [CHR 0xE2, CHR 0x80, CHR 0x82],
     [CHR 0xE2, CHR 0x80, CHR 0x83],
     [CHR 0xE2, CHR 0x80, CHR 0x84],
     [CHR 0xE2, CHR 0x80, CHR 0x85],
     [CHR 0xE2, CHR 0x80, CHR 0x86],
     [CHR 0xE2, CHR 0x80, CHR 0x87],
     [CHR 0xE2, CHR 0x80, CHR 0x88],
     [CHR 0xE2, CHR 0x80, CHR 0x89],
     [CHR 0xE2, CHR 0x80, CHR 0x8A],
     [CHR 0xE2, CHR 0x80, CHR 0xA8],
     [CHR 0xE2, CHR 0x80, CHR 0xA9],
     [CHR 0xE2, CHR 0x80, CHR 0xAF],
     [CHR 0xE2, CHR 0x81, CHR 0x9F],
     [CHR 0xE3, CHR 0x80, CHR 0x80],
     [CHR 0xEF, CHR 0xBB, CHR 0xBF]]"

fun skip_spaces_fuel :: "nat \<Rightarrow> string \<Rightarrow> string" where
  "skip_spaces_fuel 0 s = s"
| "skip_spaces_fuel (Suc n) s =
     (case filter (\<lambda>w. prefix w s) js_spaces of [] \<Rightarrow> s | w # _ \<Rightarrow> skip_spaces_fuel n (drop (length w) s))"

text \<open>\<^verbatim>\<open>parseInt(s, 10)\<close>; \<open>None\<close> is \<^verbatim>\<open>NaN\<close>. Every skipped sequence is at least one
  byte, so the length of the string is fuel enough.\<close>

definition js_parseInt :: "string \<Rightarrow> int option" where
  "js_parseInt s =
     (let t = skip_spaces_fuel (length s) s;
          neg = (t \<noteq> [] \<and> hd t = CHR ''-'');
          u = (if t \<noteq> [] \<and> (hd t = CHR ''-'' \<or> hd t = CHR ''+'') then tl t else t);
          ds = takeWhile is_digit u
      in if ds = [] then None
         else Some (if neg then - int (digits_value 0 ds) else int (digits_value 0 ds)))"

text \<open>The decimal form of a number (template concatenation of an integer).\<close>

fun nat_to_string :: "nat \<Rightarrow> string" where
  "nat_to_string n =
     (if n < 10 then [char_of (48 + n)] else nat_to_string (n div 10) @ [char_of (48 + n mod 10)])"

declare nat_to_string.simps [simp del]

lemma digit_chars: "list_all (\<lambda>n. is_digit (char_of (48 + n))) [0..<10]"
  by code_simp

lemma is_digit_char_of: "(n::nat) < 10 \<Longrightarrow> is_digit (char_of (48 + n))"
  using digit_chars by (simp add: list_all_iff)

lemma digit_value_char_of: "n < 10 \<Longrightarrow> digit_value (char_of (48 + n)) = n"
  by (simp add: digit_value_def)

lemma nat_to_string_digits: "list_all is_digit (nat_to_string n) \<and> nat_to_string n \<noteq> []"
proof (induction n rule: nat_to_string.induct)
  case (1 n)
  then show ?case
    by (cases "n < 10") (auto simp: nat_to_string.simps [of n] is_digit_char_of)
qed

lemma digits_value_append: "digits_value k (s @ [c]) = 10 * digits_value k s + digit_value c"
  by (induction s arbitrary: k) auto

lemma digits_value_nat_to_string: "digits_value 0 (nat_to_string n) = n"
proof (induction n rule: nat_to_string.induct)
  case (1 n)
  then show ?case
    by (cases "n < 10")
       (auto simp: nat_to_string.simps [of n] digits_value_append digit_value_char_of)
qed

lemma skip_spaces_none: "filter (\<lambda>w. prefix w s) js_spaces = [] \<Longrightarrow> skip_spaces_fuel n s = s"
  by (cases n) auto

lemma js_spaces_not_digits: "list_all (\<lambda>w. w \<noteq> [] \<and> \<not> is_digit (hd w)) js_spaces"
  by (simp add: js_spaces_def is_digit_def)

lemma digit_no_space: "is_digit c \<Longrightarrow> filter (\<lambda>w. prefix w (c # s)) js_spaces = []"
  using js_spaces_not_digits by (auto simp: list_all_iff filter_empty_conv prefix_Cons)

lemma parseInt_nat_to_string: "js_parseInt (nat_to_string n) = Some (int n)"
proof -
  obtain c s where cs: "nat_to_string n = c # s" and c: "is_digit c"
    using nat_to_string_digits [of n] by (cases "nat_to_string n") auto
  have "c \<noteq> CHR ''-''" "c \<noteq> CHR ''+''"
    using c by (auto simp: is_digit_def)
  moreover have "takeWhile is_digit s = s"
    using nat_to_string_digits [of n] cs by (simp add: list_all_iff)
  ultimately show ?thesis
    using digits_value_nat_to_string [of n] c
    by (simp only: cs) (simp add: js_parseInt_def skip_spaces_none digit_no_space Let_def
        del: takeWhile_eq_all_conv)
qed

definition int_to_string :: "int \<Rightarrow> string" where
  "int_to_string n = (if n < 0 then CHR ''-'' # nat_to_string (nat (- n)) else nat_to_string (nat n))"

lemma js_spaces_not_minus: "list_all (\<lambda>w. w \<noteq> [] \<and> hd w \<noteq> CHR ''-'') js_spaces"
  by (simp add: js_spaces_def)

lemma minus_no_space: "filter (\<lambda>w. prefix w (CHR ''-'' # s)) js_spaces = []"
  using js_spaces_not_minus by (auto simp: list_all_iff filter_empty_conv prefix_Cons)

lemma takeWhile_nat_to_string: "takeWhile is_digit (nat_to_string n) = nat_to_string n"
  using nat_to_string_digits [of n] by (simp add: list_all_iff)

lemma parseInt_int_to_string: "js_parseInt (int_to_string n) = Some n"
proof (cases "n < 0")
  case True
  have "js_parseInt (CHR ''-'' # nat_to_string m) = Some (- int m)" for m
    using nat_to_string_digits [of m] digits_value_nat_to_string [of m] takeWhile_nat_to_string [of m]
    by (simp add: js_parseInt_def skip_spaces_none minus_no_space Let_def del: takeWhile_eq_all_conv)
  with True show ?thesis by (simp add: int_to_string_def)
next
  case False
  then show ?thesis by (simp add: int_to_string_def parseInt_nat_to_string)
qed

section \<open>Responses\<close>

text \<open>What \<^verbatim>\<open>fetch\<close> and reading its body as JSON give: a status with the body, or a
  rejection.\<close>

datatype 'a response = Response nat 'a | NoResponse

text \<open>\<^verbatim>\<open>r.ok\<close>.\<close>

definition ok_status :: "nat \<Rightarrow> bool" where
  "ok_status n \<longleftrightarrow> 200 \<le> n \<and> n < 300"

end
