(* ===== verification/MetaFilter.thy ===== *)
theory MetaFilter
  imports MetaSearch JsRuntime
begin

text \<open>
  The wire-v2 control filter of \<^verbatim>\<open>web/static/term.js\<close>: \<^verbatim>\<open>cmMakeMetaFilter\<close>
  strips \<^verbatim>\<open>OSC 7707\<close> sequences from the stream, hands their payload to \<^verbatim>\<open>onMeta\<close>,
  and lets the scrollback history of the page through once. The closure variables are the
  record \<open>meta_state\<close>; the calls of \<^verbatim>\<open>emit\<close> and \<^verbatim>\<open>onMeta\<close> are the events returned,
  in order. The engine's limit on the number of arguments of
  \<^verbatim>\<open>String.fromCharCode.apply\<close> is not modelled.
\<close>

definition OSC :: "byte list" where
  "OSC = [0x1b, 0x5d, 0x37, 0x37, 0x30, 0x37, 0x3b]"

definition ST :: "byte list" where
  "ST = [0x1b, 0x5c]"

record meta_state =
  m_carry :: "byte list"
  m_inMeta :: bool
  m_acc :: "byte list"
  m_inHist :: bool
  m_histDone :: bool
  m_blockHasHist :: bool

datatype meta_event = Emit "byte list" | OnMeta string

definition meta_init :: meta_state where
  "meta_init = \<lparr>m_carry = [], m_inMeta = False, m_acc = [],
     m_inHist = False, m_histDone = False, m_blockHasHist = False\<rparr>"

text \<open>\<^verbatim>\<open>out(bytes)\<close>.\<close>

definition meta_out :: "meta_state \<Rightarrow> byte list \<Rightarrow> meta_event list" where
  "meta_out s bytes =
     (if length bytes = 0 then []
      else if m_inHist s \<and> m_histDone s then []
      else [Emit bytes])"

text \<open>\<^verbatim>\<open>String.fromCharCode.apply(null, acc)\<close>: one character per byte.\<close>

definition fromCharCode :: "byte list \<Rightarrow> string" where
  "fromCharCode acc = map char_of_byte acc"

text \<open>The effect of a payload on the history flags.\<close>

definition meta_flags :: "string \<Rightarrow> meta_state \<Rightarrow> meta_state" where
  "meta_flags payload s =
     (if str_indexOf payload ''v='' = Some 0
      then s\<lparr>m_inHist := True, m_blockHasHist := (str_indexOf payload '';hist=1'' \<noteq> None)\<rparr>
      else if payload = ''hist_end''
      then s\<lparr>m_inHist := False, m_histDone := (if m_blockHasHist s then True else m_histDone s)\<rparr>
      else s)"

text \<open>The loop of \<^verbatim>\<open>feed\<close>; the carry has been emptied.\<close>

function meta_loop :: "byte list \<Rightarrow> nat \<Rightarrow> meta_state \<Rightarrow> meta_event list \<times> meta_state" where
  "meta_loop data pos s =
     (if pos < length data then
        (if \<not> m_inMeta s then
           (case mf_indexOf data OSC pos of
              None \<Rightarrow>
                (let rest = drop pos data;
                     hold = mf_tailPrefix rest OSC;
                     cutp = length rest - hold
                 in (if cutp > 0 then meta_out s (take cutp rest) else [],
                     s\<lparr>m_carry := drop cutp rest\<rparr>))
            | Some i \<Rightarrow>
                (let es = (if i > pos then meta_out s (take (i - pos) (drop pos data)) else []);
                     (es', s') = meta_loop data (i + length OSC) (s\<lparr>m_inMeta := True, m_acc := []\<rparr>)
                 in (es @ es', s')))
         else
           (case mf_indexOf data ST pos of
              None \<Rightarrow>
                (let rest2 = drop pos data;
                     hold2 = mf_tailPrefix rest2 ST;
                     cut2 = length rest2 - hold2
                 in ([], s\<lparr>m_acc := (if cut2 > 0 then mf_concat (m_acc s) (take cut2 rest2) else m_acc s),
                           m_carry := drop cut2 rest2\<rparr>))
            | Some j \<Rightarrow>
                (let ac = mf_concat (m_acc s) (take (j - pos) (drop pos data));
                     payload = fromCharCode ac;
                     (es', s') = meta_loop data (j + length ST)
                                   (meta_flags payload (s\<lparr>m_acc := ac, m_inMeta := False\<rparr>))
                 in (OnMeta payload # es', s'))))
      else ([], s))"
  by pat_completeness auto
termination
proof (relation "measure (\<lambda>(data, pos, s). length data - pos)", goal_cases)
  case (2 data pos s i)
  then show ?case using indexOf_SomeD(1) [of data OSC pos i] by (auto simp: OSC_def)
next
  case (3 data pos s j)
  then show ?case using indexOf_SomeD(1) [of data ST pos j] by (auto simp: ST_def)
qed auto

declare meta_loop.simps [simp del]

definition meta_feed :: "meta_state \<Rightarrow> byte list \<Rightarrow> meta_event list \<times> meta_state" where
  "meta_feed s chunk =
     (let data = (if length (m_carry s) \<noteq> 0 then mf_concat (m_carry s) chunk else chunk)
      in meta_loop data 0 (s\<lparr>m_carry := []\<rparr>))"

text \<open>\<^verbatim>\<open>feed.reset\<close>, called for every new connection.\<close>

definition meta_reset :: "meta_state \<Rightarrow> meta_state" where
  "meta_reset s = s\<lparr>m_carry := [], m_inMeta := False, m_acc := [], m_inHist := False\<rparr>"

section \<open>The loop as a marker machine\<close>

lemma meta_markers [simp]: "OSC \<noteq> []" "ST \<noteq> []" "length OSC = 7" "length ST = 2"
  by (simp_all add: OSC_def ST_def)

fun meta_seek :: "meta_state \<Rightarrow> byte list \<Rightarrow> seek_result" where
  "meta_seek s d = seek (if m_inMeta s then ST else OSC) d"

fun meta_pass :: "meta_state \<Rightarrow> byte list \<Rightarrow> meta_event list \<times> meta_state" where
  "meta_pass s a = (if m_inMeta s then ([], s\<lparr>m_acc := m_acc s @ a\<rparr>) else (meta_out s a, s))"

fun meta_hit :: "meta_state \<Rightarrow> byte list \<Rightarrow> meta_event list \<times> meta_state \<times> byte list" where
  "meta_hit s a =
     (if m_inMeta s
      then ([OnMeta (fromCharCode (m_acc s @ a))],
            meta_flags (fromCharCode (m_acc s @ a)) (s\<lparr>m_acc := m_acc s @ a, m_inMeta := False\<rparr>), [])
      else (meta_out s a, s\<lparr>m_inMeta := True, m_acc := []\<rparr>, []))"

lemma meta_loop_prefixed: "meta_loop (p @ d) (length p + q) s = meta_loop d q s"
proof (induction d q s rule: meta_loop.induct)
  case (1 d q s)
  show ?case
    using 1 by (simp add: meta_loop.simps [of "p @ d" "length p + q" s] meta_loop.simps [of d q s]
        indexOf_prefixed add.assoc Let_def split: option.splits)
qed

lemma meta_loop_drop: "pos \<le> length d \<Longrightarrow> meta_loop d pos s = meta_loop (drop pos d) 0 s"
  using meta_loop_prefixed [of "take pos d" "drop pos d" 0 s] by simp

lemma meta_loop_Held:
  assumes sk: "meta_seek s d = Held a k" and clear: "m_carry s = []"
  shows "meta_loop d 0 s = (fst (meta_pass s a), (snd (meta_pass s a))\<lparr>m_carry := k\<rparr>)"
proof (cases "d = []")
  case True
  have "s\<lparr>m_carry := []\<rparr> = s" using clear by simp
  with True sk show ?thesis
    by (cases "m_inMeta s") (auto simp: seek_Nil meta_loop.simps [of "[]" 0 s] meta_out_def)
next
  case False
  from sk have "seek (if m_inMeta s then ST else OSC) d = Held a k" by simp
  note H = seek_HeldD [OF this]
  have d: "take (length a) d = a" "drop (length a) d = k"
    using H(1) by auto
  show ?thesis
  proof (cases "m_inMeta s")
    case True
    from H(2) True have none: "indexOf d ST 0 = None" by simp
    from H(5) True have cut: "length d - tailPrefix d ST = length a" by simp
    from cut have "tailPrefix d ST < length d \<longleftrightarrow> 0 < length a" by linarith
    then have "(tailPrefix d ST < length d) = (a \<noteq> [])" by simp
    with True False none cut d show ?thesis
      by (subst meta_loop.simps) (simp add: Let_def)
  next
    case False': False
    from H(2) False' have none: "indexOf d OSC 0 = None" by simp
    from H(5) False' have cut: "length d - tailPrefix d OSC = length a" by simp
    from cut have "tailPrefix d OSC < length d \<longleftrightarrow> 0 < length a" by linarith
    then have "(tailPrefix d OSC < length d) = (a \<noteq> [])" by simp
    with False' False none cut d show ?thesis
      by (subst meta_loop.simps) (simp add: Let_def meta_out_def)
  qed
qed

lemma meta_loop_Found:
  assumes "meta_seek s d = Found a r" "meta_hit s a = (es, s', b)"
  shows "meta_loop d 0 s = (es @ fst (meta_loop (b @ r) 0 s'), snd (meta_loop (b @ r) 0 s'))"
proof -
  let ?pat = "if m_inMeta s then ST else OSC"
  from assms(1) have sk: "seek ?pat d = Found a r" by simp
  note F = seek_FoundD [OF sk]
  have ne: "0 < length d" using F(1) by auto
  show ?thesis
  proof (cases "m_inMeta s")
    case True
    with F have d: "d = a @ ST @ r" and ix: "indexOf d ST 0 = Some (length a)" by simp_all
    have "meta_loop d (length a + length ST) s' = meta_loop r 0 s'"
      using d by (subst meta_loop_drop) simp_all
    moreover have "take (length a) d = a"
      using d by simp
    ultimately show ?thesis
      using True ne ix assms(2) by (subst meta_loop.simps) (auto simp: split_beta Let_def)
  next
    case False
    with F have d: "d = a @ OSC @ r" and ix: "indexOf d OSC 0 = Some (length a)" by simp_all
    have "meta_loop d (length a + length OSC) s' = meta_loop r 0 s'"
      using d by (subst meta_loop_drop) simp_all
    moreover have "take (length a) d = a"
      using d by simp
    ultimately show ?thesis
      using False ne ix assms(2)
      by (subst meta_loop.simps) (auto simp: split_beta Let_def meta_out_def)
  qed
qed

text \<open>What an event shows: the bytes of an emission one by one, a payload as a whole.\<close>

fun meta_symbols :: "meta_event \<Rightarrow> (byte + string) list" where
  "meta_symbols (Emit bs) = map Inl bs"
| "meta_symbols (OnMeta p) = [Inr p]"

lemma meta_flags_carry [simp]: "m_carry (meta_flags p s) = m_carry s"
  by (simp add: meta_flags_def)

interpretation meta: marker_machine meta_seek meta_pass meta_hit
    "\<lambda>s d. meta_loop d 0 s" m_carry "\<lambda>k s. s\<lparr>m_carry := k\<rparr>" meta_symbols "\<lambda>s d. length d"
proof (unfold_locales, goal_cases)
  case (1 s d c)
  let ?pat = "if m_inMeta s then ST else OSC"
  have "meta_seek s = seek ?pat" by (simp add: fun_eq_iff)
  then show ?case by (simp add: seek_append)
next
  case (2 s d a k)
  then show ?case by (intro meta_loop_Held)
next
  case (3 s d a r es s' b)
  then show ?case by (intro meta_loop_Found)
next
  case (4 s d a r es s' b)
  then show ?case
    using seek_FoundD(1) [of "if m_inMeta s then ST else OSC" d a r] by (auto split: if_splits)
qed (auto simp: fun_eq_iff meta_out_def split: if_splits)

lemma meta_feed_eq: "meta_feed = meta.feed"
  by (intro ext) (simp add: meta_feed_def meta.feed_def Let_def)

interpretation meta_stream: chunked_filter meta_feed meta_symbols meta.settled
  unfolding meta_feed_eq by unfold_locales

lemma meta_settled:
  assumes "m_carry s = []" shows "meta.settled s"
proof -
  have "s\<lparr>m_carry := []\<rparr> = s" using assms by simp
  with assms show ?thesis
    by (simp add: meta.settled_def meta.feed_def meta_loop.simps [of "[]"])
qed

section \<open>The stream-level specification\<close>

text \<open>
  A connection's byte stream is text interleaved with control payloads (\<open>meta_lex\<close>);
  what the page lets through depends on three flags (\<open>history_once\<close>): inside a history
  section, history already received in full, and whether the current section has a body.
\<close>

function meta_lex :: "byte list \<Rightarrow> (byte + string) list" where
  "meta_lex d =
     (case seek OSC d of
        Held a k \<Rightarrow> map Inl a
      | Found a r \<Rightarrow> map Inl a @
          (case seek ST r of
             Held b k \<Rightarrow> []
           | Found b r' \<Rightarrow> Inr (fromCharCode b) # meta_lex r'))"
  by pat_completeness auto
termination
proof (relation "measure length", goal_cases)
  case (2 d a r b r')
  then have "length r = length (b @ ST @ r')" and "length d = length (a @ OSC @ r)"
    using seek_FoundD(1) by metis+
  then show ?case by simp
qed simp

declare meta_lex.simps [simp del]

fun history_once :: "bool \<Rightarrow> bool \<Rightarrow> bool \<Rightarrow> (byte + string) list \<Rightarrow> (byte + string) list" where
  "history_once inh dn blk [] = []"
| "history_once inh dn blk (Inl b # xs) =
     (if inh \<and> dn then [] else [Inl b]) @ history_once inh dn blk xs"
| "history_once inh dn blk (Inr p # xs) = Inr p #
     (if prefix ''v='' p then history_once True dn (sublist '';hist=1'' p) xs
      else if p = ''hist_end'' then history_once False (dn \<or> blk) blk xs
      else history_once inh dn blk xs)"

lemma history_once_text [simp]:
  "history_once inh dn blk (map Inl a @ xs) =
     (if inh \<and> dn then [] else map Inl a) @ history_once inh dn blk xs"
  by (induction a) auto

lemmas history_once_only_text [simp] = history_once_text [where xs = "[]", simplified]

lemma meta_out_symbols [simp]:
  "flatten meta_symbols (meta_out s a) = (if m_inHist s \<and> m_histDone s then [] else map Inl a)"
  by (simp add: meta_out_def)

lemma meta_flags_cases:
  "m_inMeta (meta_flags p s) = m_inMeta s"
  "history_once (m_inHist s) (m_histDone s) (m_blockHasHist s) (Inr p # xs) =
     Inr p # history_once (m_inHist (meta_flags p s)) (m_histDone (meta_flags p s))
               (m_blockHasHist (meta_flags p s)) xs"
  by (auto simp: meta_flags_def str_indexOf_prefix str_indexOf_None_iff)

text \<open>The flags after a whole connection, on the same items.\<close>

fun history_done :: "bool \<Rightarrow> bool \<Rightarrow> (byte + string) list \<Rightarrow> bool" where
  "history_done dn blk [] = dn"
| "history_done dn blk (Inl b # xs) = history_done dn blk xs"
| "history_done dn blk (Inr p # xs) =
     (if prefix ''v='' p then history_done dn (sublist '';hist=1'' p) xs
      else if p = ''hist_end'' then history_done (dn \<or> blk) blk xs
      else history_done dn blk xs)"

lemma history_done_text [simp]: "history_done dn blk (map Inl a @ xs) = history_done dn blk xs"
  by (induction a) auto

lemmas history_done_only_text [simp] = history_done_text [where xs = "[]", simplified]

lemma meta_flags_done:
  "history_done (m_histDone s) (m_blockHasHist s) (Inr p # xs) =
     history_done (m_histDone (meta_flags p s)) (m_blockHasHist (meta_flags p s)) xs"
  by (auto simp: meta_flags_def str_indexOf_prefix str_indexOf_None_iff)

lemma meta_loop_spec:
  assumes "m_carry s = []" "\<not> m_inMeta s"
  shows "flatten meta_symbols (fst (meta_loop d 0 s)) =
      history_once (m_inHist s) (m_histDone s) (m_blockHasHist s) (meta_lex d) \<and>
    m_histDone (snd (meta_loop d 0 s)) = history_done (m_histDone s) (m_blockHasHist s) (meta_lex d)"
  using assms
proof (induction "length d" arbitrary: s d rule: less_induct)
  case less
  show ?case
  proof (cases "seek OSC d")
    case (Held a k)
    with less.prems show ?thesis by (simp add: meta_loop_Held meta_lex.simps [of d])
  next
    case (Found a r)
    let ?t = "s\<lparr>m_inMeta := True, m_acc := []\<rparr>"
    have open_: "meta_loop d 0 s = (meta_out s a @ fst (meta_loop ([] @ r) 0 ?t), snd (meta_loop ([] @ r) 0 ?t))"
      using Found less.prems by (intro meta_loop_Found) simp_all
    show ?thesis
    proof (cases "seek ST r")
      case (Held b k)
      with less.prems have "fst (meta_loop r 0 ?t) = []" "m_histDone (snd (meta_loop r 0 ?t)) = m_histDone s"
        by (simp_all add: meta_loop_Held)
      with Found Held open_ show ?thesis by (simp add: meta_lex.simps [of d])
    next
      case Found': (Found b r')
      let ?p = "fromCharCode b" and ?v = "?t\<lparr>m_acc := b, m_inMeta := False\<rparr>"
      let ?u = "meta_flags ?p ?v"
      have close: "meta_loop r 0 ?t = ([OnMeta ?p] @ fst (meta_loop ([] @ r') 0 ?u), snd (meta_loop ([] @ r') 0 ?u))"
        using Found' by (intro meta_loop_Found) simp_all
      have shorter: "length r' < length d"
        using seek_FoundD(1) [OF Found'] seek_FoundD(1) [OF Found] by simp
      have "m_carry ?u = []" "\<not> m_inMeta ?u"
        using less.prems by (simp_all add: meta_flags_cases(1))
      note IH = less.hyps [OF shorter this]
      show ?thesis
        using IH meta_flags_cases(2) [of ?v ?p] meta_flags_done [of ?v ?p] Found Found' open_ close
        by (simp add: meta_lex.simps [of d] del: history_once.simps history_done.simps)
    qed
  qed
qed

section \<open>Whole connections\<close>

text \<open>The terminal bytes among the events, and the payloads among them.\<close>

fun meta_shown :: "meta_event list \<Rightarrow> byte list" where
  "meta_shown [] = []"
| "meta_shown (Emit b # es) = b @ meta_shown es"
| "meta_shown (OnMeta p # es) = meta_shown es"

fun meta_payloads :: "meta_event list \<Rightarrow> string list" where
  "meta_payloads [] = []"
| "meta_payloads (Emit b # es) = meta_payloads es"
| "meta_payloads (OnMeta p # es) = p # meta_payloads es"

lemma meta_shown_symbols: "map Inl (meta_shown es) = filter isl (flatten meta_symbols es)"
  by (induction es rule: meta_shown.induct) auto

lemma meta_shownI:
  assumes "flatten meta_symbols es = xs" "filter isl xs = map Inl b"
  shows "meta_shown es = b"
proof -
  have "map Inl (meta_shown es) = (map Inl b :: (byte + string) list)"
    using assms meta_shown_symbols [of es] by simp
  then show ?thesis by (simp add: inj_map_eq_map)
qed

text \<open>A fresh connection, fed in any chunks, after whatever the page saw before.\<close>

lemma meta_connection:
  "flatten meta_symbols (fst (run_chunks meta_feed (meta_reset s) cs)) =
     history_once False (m_histDone s) (m_blockHasHist s) (meta_lex (concat cs))"
  "m_histDone (snd (run_chunks meta_feed (meta_reset s) cs)) =
     history_done (m_histDone s) (m_blockHasHist s) (meta_lex (concat cs))"
proof -
  have st: "meta.settled (meta_reset s)"
    by (rule meta_settled) (simp add: meta_reset_def)
  note R = meta.run_concat_out [OF st, of cs] meta.run_concat_state [OF st, of cs]
  have "(meta_reset s)\<lparr>m_carry := []\<rparr> = meta_reset s" "m_carry (meta_reset s) = []"
    "\<not> m_inMeta (meta_reset s)"
    by (simp_all add: meta_reset_def)
  with R meta_loop_spec [of "meta_reset s" "concat cs"]
  show "flatten meta_symbols (fst (run_chunks meta_feed (meta_reset s) cs)) =
     history_once False (m_histDone s) (m_blockHasHist s) (meta_lex (concat cs))"
  "m_histDone (snd (run_chunks meta_feed (meta_reset s) cs)) =
     history_done (m_histDone s) (m_blockHasHist s) (meta_lex (concat cs))"
    by (simp_all add: meta_feed_eq meta.feed_def) (simp_all add: meta_reset_def)
qed

text \<open>How the producer writes a payload, and text without markers.\<close>

definition osc :: "string \<Rightarrow> byte list" where
  "osc p = OSC @ map byte_of_char p @ ST"

definition plain :: "byte list \<Rightarrow> bool" where
  "plain h \<longleftrightarrow> seek OSC h = Held h []"

definition payload_ok :: "string \<Rightarrow> bool" where
  "payload_ok p \<longleftrightarrow> CHR 0x1B \<notin> set p"

lemma fromCharCode_of_char: "fromCharCode (map byte_of_char p) = p"
  by (induction p) (simp_all add: fromCharCode_def)

lemma plain_seek: "plain h \<Longrightarrow> seek OSC (h @ OSC @ r) = Found h r"
proof -
  assume h: "plain h"
  have "seek OSC OSC = Found [] []"
    by (simp add: seek_def indexOf.simps [of OSC] match_at_iff)
  then have "seek OSC (OSC @ r) = Found [] r"
    using seek_append [of OSC OSC r] by simp
  with h show ?thesis
    using seek_append [of OSC h "OSC @ r"] by (simp add: plain_def)
qed

lemma payload_seek: "payload_ok p \<Longrightarrow> seek ST (map byte_of_char p @ ST @ r) = Found (map byte_of_char p) r"
proof -
  assume ok: "payload_ok p"
  let ?w = "map byte_of_char p :: byte list"
  have "indexOf (?w @ ST @ r) ST 0 = Some (length ?w)"
  proof (rule indexOf_SomeI)
    show "occurs_at ST (?w @ ST @ r) (length ?w)" by (simp add: occurs_at_def)
    show "\<not> occurs_at ST (?w @ ST @ r) j" if "j < length ?w" for j
    proof
      assume "occurs_at ST (?w @ ST @ r) j"
      with that have "?w ! j = 0x1b"
        by (auto simp: occurs_at_def ST_def prefix_iff_nth nth_append dest!: spec [of _ 0])
      with that have "byte_of_char (p ! j) = byte_of_char (CHR 0x1B)"
        by (simp add: byte_of_char_def)
      then have "p ! j = CHR 0x1B" by (simp add: byte_of_char_eq_iff)
      with ok that show False by (auto simp: payload_ok_def in_set_conv_nth)
    qed
  qed simp
  then show ?thesis by (simp add: seek_def)
qed

lemma meta_lex_plain: "plain h \<Longrightarrow> meta_lex h = map Inl h"
  by (simp add: meta_lex.simps [of h] plain_def)

lemma meta_lex_osc:
  "plain h \<Longrightarrow> payload_ok p \<Longrightarrow> meta_lex (h @ osc p @ r) = map Inl h @ Inr p # meta_lex r"
  by (subst meta_lex.simps) (simp add: osc_def plain_seek payload_seek fromCharCode_of_char)

lemma plain_Nil [simp]: "plain []"
  by (simp add: plain_def seek_Nil)

lemma payload_ok_hist_end [simp]: "payload_ok ''hist_end''"
  by (simp add: payload_ok_def)

text \<open>A v2 connection: the META payload, history text, the end mark, then the live frames.\<close>

definition v2_stream :: "string \<Rightarrow> byte list \<Rightarrow> byte list \<Rightarrow> byte list" where
  "v2_stream v h l = osc v @ h @ osc ''hist_end'' @ l"

lemma meta_lex_v2:
  assumes "payload_ok v" "plain h" "plain l"
  shows "meta_lex (v2_stream v h l) = Inr v # map Inl h @ Inr ''hist_end'' # map Inl l"
  using assms meta_lex_osc [of "[]" v] by (simp add: v2_stream_def meta_lex_osc meta_lex_plain)

lemma meta_lex_cut: "payload_ok v \<Longrightarrow> plain h \<Longrightarrow> meta_lex (osc v @ h) = Inr v # map Inl h"
  using meta_lex_osc [of "[]" v h] by (simp add: meta_lex_plain)

text \<open>A payload that announces a history section, with or without a body.\<close>

definition announces :: "string \<Rightarrow> bool" where
  "announces v \<longleftrightarrow> payload_ok v \<and> prefix ''v='' v"

definition has_body :: "string \<Rightarrow> bool" where
  "has_body v \<longleftrightarrow> sublist '';hist=1'' v"

lemma hist_end_no_prefix [simp]: "\<not> prefix ''v='' ''hist_end''"
  by simp

abbreviation first_connection :: "byte list list \<Rightarrow> meta_event list \<times> meta_state" where
  "first_connection cs \<equiv> run_chunks meta_feed (meta_reset meta_init) cs"

abbreviation next_connection :: "byte list list \<Rightarrow> byte list list \<Rightarrow> meta_event list \<times> meta_state" where
  "next_connection cs cs' \<equiv> run_chunks meta_feed (meta_reset (snd (first_connection cs))) cs'"

lemma meta_init_flags [simp]: "m_histDone meta_init = False" "m_blockHasHist meta_init = False"
  by (simp_all add: meta_init_def)

lemma history_flags_v2:
  assumes "announces v" "plain h" "plain l"
  shows "history_done dn blk (meta_lex (v2_stream v h l)) = (dn \<or> has_body v)"
  using assms by (simp add: announces_def has_body_def meta_lex_v2)

section \<open>Properties\<close>


text \<open>The history is shown once per page: after a connection that delivered it in full,
  a second connection's history is discarded while its payloads and live frames pass.\<close>

lemma meta_history_once_per_page:
  assumes "announces v1" "has_body v1" "plain h1" "plain l1" "concat cs1 = v2_stream v1 h1 l1"
    and "announces v2" "plain h2" "plain l2" "concat cs2 = v2_stream v2 h2 l2"
  shows "meta_shown (fst (first_connection cs1)) = h1 @ l1 \<and>
    meta_shown (fst (next_connection cs1 cs2)) = l2"
proof -
  have "meta_shown (fst (first_connection cs1)) = h1 @ l1"
    using assms(1-5) by (intro meta_shownI [OF meta_connection(1)])
      (simp add: announces_def meta_lex_v2 filter_map comp_def)
  moreover have "m_histDone (snd (first_connection cs1))"
    using assms(1-5) by (simp add: meta_connection(2) history_flags_v2)
  then have "meta_shown (fst (next_connection cs1 cs2)) = l2"
    using assms(6-9) by (intro meta_shownI [OF meta_connection(1)])
      (simp add: announces_def meta_lex_v2 filter_map comp_def)
  ultimately show ?thesis ..
qed

text \<open>A history that came late or was cut off does not count as received: after a first
  connection without a body, or one that closed before \<open>hist_end\<close>, the next connection's
  history passes. When the first one was cut off inside its history, the part already shown
  is shown again, so the scrollback then holds it twice.\<close>

lemma meta_history_accepted_again:
  assumes "announces v1" "plain h1" "plain l1"
    and "concat cs1 = v2_stream v1 h1 l1 \<and> \<not> has_body v1 \<or> concat cs1 = osc v1 @ h1"
    and "announces v2" "plain h2" "plain l2" "concat cs2 = v2_stream v2 h2 l2"
  shows "meta_shown (fst (next_connection cs1 cs2)) = h2 @ l2 \<and>
    (concat cs1 = osc v1 @ h1 \<longrightarrow> meta_shown (fst (first_connection cs1)) = h1)"
proof -
  have "\<not> m_histDone (snd (first_connection cs1))"
    using assms(1-4) by (auto simp: meta_connection(2) history_flags_v2 meta_lex_cut announces_def)
  then have "meta_shown (fst (next_connection cs1 cs2)) = h2 @ l2"
    using assms(5-8) by (intro meta_shownI [OF meta_connection(1)])
      (simp add: announces_def meta_lex_v2 filter_map comp_def)
  moreover have "meta_shown (fst (first_connection cs1)) = h1" if "concat cs1 = osc v1 @ h1"
    using assms(1,2) that by (intro meta_shownI [OF meta_connection(1)])
      (simp add: announces_def meta_lex_cut filter_map comp_def)
  ultimately show ?thesis by blast
qed

text \<open>A producer that sends no META is untouched: every byte passes, in order, except a
  partial marker at the end, which is carried; no payload is reported.\<close>

lemma meta_legacy_transparent:
  assumes "indexOf (concat cs) OSC 0 = None"
  shows "meta_shown (fst (run_chunks meta_feed (meta_reset s) cs)) @
      m_carry (snd (run_chunks meta_feed (meta_reset s) cs)) = concat cs \<and>
    meta_payloads (fst (run_chunks meta_feed (meta_reset s) cs)) = []"
proof -
  have clear: "m_carry (meta_reset s) = []" "\<not> m_inMeta (meta_reset s)"
    by (simp_all add: meta_reset_def)
  from assms obtain a k where sk: "seek OSC (concat cs) = Held a k"
    by (auto simp: seek_def Let_def)
  note H = seek_HeldD(1) [OF sk meta_markers(1)]
  have "snd (run_chunks meta_feed (meta_reset s) cs) = snd (meta_feed (meta_reset s) (concat cs))"
    unfolding meta_feed_eq by (rule meta.run_concat_state [OF meta_settled [OF clear(1)]])
  also have "\<dots> = (meta_reset s)\<lparr>m_carry := k\<rparr>"
    using sk by (simp add: meta_feed_eq meta.feed_def meta_loop_Held clear)
  finally have carry: "m_carry (snd (run_chunks meta_feed (meta_reset s) cs)) = k" by simp
  have syms: "flatten meta_symbols (fst (run_chunks meta_feed (meta_reset s) cs)) = map Inl a"
    using sk by (simp add: meta_connection(1) meta_lex.simps [of "concat cs"])
  have "meta_shown (fst (run_chunks meta_feed (meta_reset s) cs)) = a"
    by (rule meta_shownI [OF syms]) (simp add: filter_map comp_def)
  moreover have "meta_payloads es = []" if "flatten meta_symbols es = map Inl b" for es b
    using that
  proof (induction es arbitrary: b rule: meta_payloads.induct)
    case (2 bs es)
    then show ?case by (auto simp: append_eq_map_conv)
  qed auto
  ultimately show ?thesis using H carry syms by auto
qed

section \<open>Witnesses\<close>

lemma plain_A: "plain [0x41, 0x42]"
  by code_simp

lemma plain_B: "plain [0x43]"
  by code_simp

lemma announces_body: "announces ''v=2;hist=1''" "has_body ''v=2;hist=1''"
  by code_simp+

lemma announces_no_body: "announces ''v=2;hist=0''" "\<not> has_body ''v=2;hist=0''"
  by code_simp+

lemma meta_history_once_per_page_witness:
  "meta_shown (fst (first_connection [v2_stream ''v=2;hist=1'' [0x41, 0x42] [0x43]])) = [0x41, 0x42, 0x43] \<and>
   meta_shown (fst (next_connection [v2_stream ''v=2;hist=1'' [0x41, 0x42] [0x43]]
     [v2_stream ''v=2;hist=1'' [0x41, 0x42] [0x43]])) = [0x43]"
  using meta_history_once_per_page [OF announces_body plain_A plain_B _ announces_body(1) plain_A plain_B,
      of "[v2_stream ''v=2;hist=1'' [0x41, 0x42] [0x43]]" "[v2_stream ''v=2;hist=1'' [0x41, 0x42] [0x43]]"]
  by simp

lemma meta_history_accepted_again_witness:
  "meta_shown (fst (next_connection [osc ''v=2;hist=1'' @ [0x41, 0x42]]
     [v2_stream ''v=2;hist=1'' [0x41, 0x42] [0x43]])) = [0x41, 0x42, 0x43] \<and>
   meta_shown (fst (first_connection [osc ''v=2;hist=1'' @ [0x41, 0x42]])) = [0x41, 0x42]"
  using meta_history_accepted_again [OF announces_body(1) plain_A plain_B _ announces_body(1) plain_A plain_B,
      of "[osc ''v=2;hist=1'' @ [0x41, 0x42]]" "[v2_stream ''v=2;hist=1'' [0x41, 0x42] [0x43]]"]
  by simp

lemma meta_legacy_transparent_witness:
  "meta_shown (fst (run_chunks meta_feed (meta_reset meta_init) [[0x41, 0x1b], [0x5d]])) @
     m_carry (snd (run_chunks meta_feed (meta_reset meta_init) [[0x41, 0x1b], [0x5d]])) = [0x41, 0x1b, 0x5d]"
proof -
  have "indexOf (concat [[0x41, 0x1b], [0x5d]]) OSC 0 = None" by code_simp
  from meta_legacy_transparent [OF this] show ?thesis by simp
qed

end
