(* ===== verification/SyncFilter.thy ===== *)
theory SyncFilter
  imports ByteSearch
begin

text \<open>
  The synchronized-update shim of \<^verbatim>\<open>web/static/sync.js\<close>: \<^verbatim>\<open>makeSyncFilter\<close>.
  Its closure variables \<^verbatim>\<open>carry\<close>, \<^verbatim>\<open>syncing\<close> and \<^verbatim>\<open>acc\<close> are the record
  \<open>sync_state\<close>; the calls of \<^verbatim>\<open>emit\<close> are the list of byte arrays returned.
\<close>

definition BSU :: "byte list" where
  "BSU = [0x1b, 0x5b, 0x3f, 0x32, 0x30, 0x32, 0x36, 0x68]"

definition ESU :: "byte list" where
  "ESU = [0x1b, 0x5b, 0x3f, 0x32, 0x30, 0x32, 0x36, 0x6c]"

record sync_state =
  s_carry :: "byte list"
  s_syncing :: bool
  s_acc :: "byte list"

definition sync_init :: sync_state where
  "sync_init = \<lparr>s_carry = [], s_syncing = False, s_acc = []\<rparr>"

text \<open>\<^verbatim>\<open>subarray(from, to)\<close> for bounds inside the array.\<close>

definition subarray :: "'a list \<Rightarrow> nat \<Rightarrow> nat \<Rightarrow> 'a list" where
  "subarray d lo hi = take (hi - lo) (drop lo d)"

text \<open>The loop \<^verbatim>\<open>while (pos < data.length)\<close>; the state is the closure's, with
  \<^verbatim>\<open>carry\<close> already emptied.\<close>

function sync_loop :: "byte list \<Rightarrow> nat \<Rightarrow> sync_state \<Rightarrow> byte list list \<times> sync_state" where
  "sync_loop data pos s =
     (if pos < length data then
        (if \<not> s_syncing s then
           (case indexOf data BSU pos of
              None \<Rightarrow>
                (let rest = drop pos data;
                     hold = tailPrefix rest BSU;
                     cutp = length rest - hold
                 in (if cutp > 0 then [subarray rest 0 cutp] else [],
                     s\<lparr>s_carry := drop cutp rest\<rparr>))
            | Some i \<Rightarrow>
                (let out = (if i > pos then [subarray data pos i] else []);
                     (es, s') = sync_loop data i (s\<lparr>s_syncing := True, s_acc := []\<rparr>)
                 in (out @ es, s')))
         else
           (case indexOf data ESU pos of
              None \<Rightarrow>
                (let rest2 = drop pos data;
                     hold2 = tailPrefix rest2 ESU;
                     cut2 = length rest2 - hold2
                 in ([], s\<lparr>s_acc := (if cut2 > 0 then concat_bytes (s_acc s) (subarray rest2 0 cut2)
                                     else s_acc s),
                           s_carry := drop cut2 rest2\<rparr>))
            | Some j \<Rightarrow>
                (let end = j + length ESU;
                     blk = concat_bytes (s_acc s) (subarray data pos end);
                     (es, s') = sync_loop data end (s\<lparr>s_acc := [], s_syncing := False\<rparr>)
                 in (blk # es, s'))))
      else ([], s))"
  by pat_completeness auto
termination
proof (relation "measure (\<lambda>(data, pos, s). 2 * (length data - pos) + (if s_syncing s then 0 else 1))",
    goal_cases)
  case (2 data pos s i)
  then show ?case using indexOf_SomeD(1) [of data BSU pos i] by auto
next
  case (3 data pos s j)
  then show ?case using indexOf_SomeD(1) [of data ESU pos j] by (auto simp: ESU_def)
qed auto

declare sync_loop.simps [simp del]

definition sync_feed :: "sync_state \<Rightarrow> byte list \<Rightarrow> byte list list \<times> sync_state" where
  "sync_feed s chunk =
     (let data = (if length (s_carry s) \<noteq> 0 then concat_bytes (s_carry s) chunk else chunk)
      in sync_loop data 0 (s\<lparr>s_carry := []\<rparr>))"

section \<open>The loop as a marker machine\<close>

lemma markers_not_Nil [simp]: "BSU \<noteq> []" "ESU \<noteq> []" "length BSU = 8" "length ESU = 8"
  by (simp_all add: BSU_def ESU_def)

lemma ESU_not_in_BSU: "indexOf (BSU @ r) ESU 0 = Some j \<Longrightarrow> 8 \<le> j"
proof -
  assume j: "indexOf (BSU @ r) ESU 0 = Some j"
  have "\<not> occurs_at ESU (BSU @ r) i" if "i < 8" for i
  proof -
    from that have "i \<in> {0, 1, 2, 3, 4, 5, 6, 7}" by auto
    then show ?thesis by (auto simp: occurs_at_def BSU_def ESU_def)
  qed
  with indexOf_SomeD(2) [OF j] show "8 \<le> j" by (meson not_less)
qed

lemma sync_loop_prefixed: "sync_loop (p @ d) (length p + q) s = sync_loop d q s"
proof (induction d q s rule: sync_loop.induct)
  case (1 d q s)
  show ?case
    using 1 by (simp add: sync_loop.simps [of "p @ d" "length p + q" s] sync_loop.simps [of d q s]
        indexOf_prefixed subarray_def add.assoc Let_def split: option.splits)
qed

lemma sync_loop_drop: "pos \<le> length d \<Longrightarrow> sync_loop d pos s = sync_loop (drop pos d) 0 s"
  using sync_loop_prefixed [of "take pos d" "drop pos d" 0 s] by simp

fun sync_seek :: "sync_state \<Rightarrow> byte list \<Rightarrow> seek_result" where
  "sync_seek s d = seek (if s_syncing s then ESU else BSU) d"

fun sync_pass :: "sync_state \<Rightarrow> byte list \<Rightarrow> byte list list \<times> sync_state" where
  "sync_pass s a =
     (if s_syncing s then ([], s\<lparr>s_acc := s_acc s @ a\<rparr>) else (if a \<noteq> [] then [a] else [], s))"

fun sync_hit :: "sync_state \<Rightarrow> byte list \<Rightarrow> byte list list \<times> sync_state \<times> byte list" where
  "sync_hit s a =
     (if s_syncing s then ([s_acc s @ a @ ESU], s\<lparr>s_acc := [], s_syncing := False\<rparr>, [])
      else (if a \<noteq> [] then [a] else [], s\<lparr>s_syncing := True, s_acc := []\<rparr>, BSU))"

lemma sync_loop_Held:
  assumes sk: "sync_seek s d = Held a k" and clear: "s_carry s = []"
  shows "sync_loop d 0 s = (fst (sync_pass s a), (snd (sync_pass s a))\<lparr>s_carry := k\<rparr>)"
proof (cases "d = []")
  case True
  have "s\<lparr>s_carry := []\<rparr> = s" using clear by simp
  with True sk show ?thesis
    by (cases "s_syncing s") (auto simp: seek_Nil sync_loop.simps [of "[]" 0 s])
next
  case False
  from sk have "seek (if s_syncing s then ESU else BSU) d = Held a k" by simp
  note H = seek_HeldD [OF this]
  have d: "take (length a) d = a" "drop (length a) d = k"
    using H(1) by auto
  show ?thesis
  proof (cases "s_syncing s")
    case True
    from H(2) True have none: "indexOf d ESU 0 = None" by simp
    from H(5) True have cut: "length d - tailPrefix d ESU = length a" by simp
    from cut have "tailPrefix d ESU < length d \<longleftrightarrow> 0 < length a" by linarith
    then have "(tailPrefix d ESU < length d) = (a \<noteq> [])" by simp
    with True False none cut d show ?thesis
      by (subst sync_loop.simps) (simp add: subarray_def Let_def)
  next
    case False': False
    from H(2) False' have none: "indexOf d BSU 0 = None" by simp
    from H(5) False' have cut: "length d - tailPrefix d BSU = length a" by simp
    from cut have "tailPrefix d BSU < length d \<longleftrightarrow> 0 < length a" by linarith
    then have "(tailPrefix d BSU < length d) = (a \<noteq> [])" by simp
    with False' False none cut d show ?thesis
      by (subst sync_loop.simps) (simp add: subarray_def Let_def)
  qed
qed

lemma sync_loop_Found:
  assumes "sync_seek s d = Found a r" "sync_hit s a = (es, s', b)"
  shows "sync_loop d 0 s = (es @ fst (sync_loop (b @ r) 0 s'), snd (sync_loop (b @ r) 0 s'))"
proof -
  let ?pat = "if s_syncing s then ESU else BSU"
  from assms(1) have sk: "seek ?pat d = Found a r" by simp
  note F = seek_FoundD [OF sk]
  have ne: "0 < length d" using F(1) by auto
  show ?thesis
  proof (cases "s_syncing s")
    case True
    with F have d: "d = a @ ESU @ r" and ix: "indexOf d ESU 0 = Some (length a)" by simp_all
    from True assms(2) have hit: "es = [s_acc s @ a @ ESU]" "s' = s\<lparr>s_acc := [], s_syncing := False\<rparr>" "b = []"
      by simp_all
    have "sync_loop d (length a + length ESU) s' = sync_loop r 0 s'"
      using d by (subst sync_loop_drop) simp_all
    moreover have "subarray d 0 (length a + length ESU) = a @ ESU"
      using d by (simp add: subarray_def)
    ultimately show ?thesis
      using True ne ix by (subst sync_loop.simps) (simp add: hit split_beta Let_def)
  next
    case False
    with F have d: "d = a @ BSU @ r" and ix: "indexOf d BSU 0 = Some (length a)" by simp_all
    from False assms(2) have hit: "es = (if a \<noteq> [] then [a] else [])"
        "s' = s\<lparr>s_syncing := True, s_acc := []\<rparr>" "b = BSU"
      by simp_all
    have "sync_loop d (length a) s' = sync_loop (BSU @ r) 0 s'"
      using d by (subst sync_loop_drop) simp_all
    moreover have "subarray d 0 (length a) = a"
      using d by (simp add: subarray_def)
    ultimately show ?thesis
      using False ne ix by (subst sync_loop.simps) (simp add: hit split_beta Let_def)
  qed
qed

lemma sync_found_lighter:
  assumes "sync_seek s d = Found a r" "sync_hit s a = (es, s', b)"
  shows "2 * length (b @ r) + (if s_syncing s' then 0 else 1) < 2 * length d + (if s_syncing s then 0 else 1)"
  using assms seek_FoundD(1) [of "if s_syncing s then ESU else BSU" d a r]
  by (auto split: if_splits)

lemma sync_seek_append: "sync_seek s (d @ c) = seek_after (sync_seek s d) c (sync_seek s)"
proof -
  let ?pat = "if s_syncing s then ESU else BSU"
  have "sync_seek s = seek ?pat" by (simp add: fun_eq_iff)
  then show ?thesis by (simp add: seek_append)
qed

lemma sync_pass_seek: "sync_seek (snd (sync_pass s a)) = sync_seek s"
  by (simp add: fun_eq_iff)

text \<open>
  What a write shows: the bytes outside a synchronized block count one by one, a block
  counts as a whole. Two runs with the same symbols paint the same frames.
\<close>

datatype sync_symbol = Byte byte | Block "byte list"

definition sync_symbols :: "byte list \<Rightarrow> sync_symbol list" where
  "sync_symbols e = (if prefix BSU e then [Block e] else map Byte e)"

lemma sync_symbols_plain:
  assumes "\<And>i. \<not> occurs_at BSU (a @ b) i"
  shows "sync_symbols (a @ b) = sync_symbols a @ sync_symbols b"
proof -
  have "\<not> prefix BSU a" and "\<not> prefix BSU b" and "\<not> prefix BSU (a @ b)"
    using assms occurs_at_inside [of BSU a _ "[]" b] occurs_at_inside [of BSU b _ a "[]"]
    by (auto intro!: free_not_prefix)
  then show ?thesis by (simp add: sync_symbols_def)
qed

lemma sync_symbols_Nil [simp]: "sync_symbols [] = []"
  by (simp add: sync_symbols_def)

lemma sync_pass_append:
  assumes "sync_seek s x = Held (a @ a') k"
  shows "flatten sync_symbols (fst (sync_pass s (a @ a'))) =
    flatten sync_symbols (fst (sync_pass s a)) @
    flatten sync_symbols (fst (sync_pass (snd (sync_pass s a)) a'))"
proof (cases "s_syncing s")
  case False
  with assms seek_Held_free [of BSU x "[]" "a @ a'" "[]" k] show ?thesis
    by (auto simp: sync_symbols_plain)
qed simp

lemma sync_hit_pass:
  assumes "sync_seek s x = Found (a @ a') r"
  shows "flatten sync_symbols (fst (sync_hit s (a @ a'))) =
    flatten sync_symbols (fst (sync_pass s a)) @
    flatten sync_symbols (fst (sync_hit (snd (sync_pass s a)) a'))"
proof (cases "s_syncing s")
  case False
  with assms seek_Found_free [of BSU x "[]" "a @ a'" "[]" r] show ?thesis
    by (auto simp: sync_symbols_plain)
qed simp

interpretation sync: marker_machine sync_seek sync_pass sync_hit
    "\<lambda>s d. sync_loop d 0 s" s_carry "\<lambda>k s. s\<lparr>s_carry := k\<rparr>" sync_symbols
    "\<lambda>s d. 2 * length d + (if s_syncing s then 0 else 1)"
proof (unfold_locales, goal_cases)
  case (1 s d c)
  show ?case by (rule sync_seek_append)
next
  case (2 s d a k)
  then show ?case by (intro sync_loop_Held)
next
  case (3 s d a r es s' b)
  then show ?case by (intro sync_loop_Found)
next
  case (4 s d a r es s' b)
  then show ?case by (rule sync_found_lighter)
next
  case (5 s a)
  show ?case by (rule sync_pass_seek)
next
  case (8 s x a a' k)
  then show ?case by (rule sync_pass_append)
next
  case (10 s x a a' r)
  then show ?case by (rule sync_hit_pass)
qed (auto split: if_splits)

lemma sync_feed_eq: "sync_feed = sync.feed"
  by (intro ext) (simp add: sync_feed_def sync.feed_def Let_def)

interpretation sync_stream: chunked_filter sync_feed sync_symbols sync.settled
  unfolding sync_feed_eq by unfold_locales

lemma sync_init_settled: "sync.settled sync_init"
  by (simp add: sync.settled_def sync.feed_def sync_init_def sync_loop.simps [of "[]"])

text \<open>The loop by cases on one search, for inductions over the buffer.\<close>

lemma sync_scan_cases:
  assumes "s_carry s = []"
  obtains (Held) a k where "sync_seek s d = Held a k"
      "sync_loop d 0 s = (fst (sync_pass s a), (snd (sync_pass s a))\<lparr>s_carry := k\<rparr>)"
  | (Found) a r es s' b where "sync_seek s d = Found a r" "sync_hit s a = (es, s', b)"
      "s_carry s' = []"
      "sync_loop d 0 s = (es @ fst (sync_loop (b @ r) 0 s'), snd (sync_loop (b @ r) 0 s'))"
proof (cases "sync_seek s d")
  case (Held a k)
  with assms sync_loop_Held that(1) show thesis by blast
next
  case (Found a r)
  obtain es s' b where hit: "sync_hit s a = (es, s', b)" by (cases "sync_hit s a") auto
  from that(2) [OF Found hit sync.hit_clear [OF assms hit] sync_loop_Found [OF Found hit]]
  show thesis .
qed

section \<open>Losslessness\<close>

text \<open>Everything fed is either written, in order, or still held (accumulated or carried).\<close>

lemma sync_loop_bytes:
  assumes "s_carry s = []" and "\<not> s_syncing s \<Longrightarrow> s_acc s = []"
  shows "concat (fst (sync_loop d 0 s)) @ s_acc (snd (sync_loop d 0 s)) @ s_carry (snd (sync_loop d 0 s))
      = s_acc s @ d \<and>
    (\<not> s_syncing (snd (sync_loop d 0 s)) \<longrightarrow> s_acc (snd (sync_loop d 0 s)) = [])"
  using assms
proof (induction "2 * length d + (if s_syncing s then 0 else 1)" arbitrary: s d rule: less_induct)
  case less
  from less.prems(1) show ?case
  proof (cases rule: sync_scan_cases [of s d])
    case (Held a k)
    with less.prems seek_HeldD(1) [of ESU d a k] seek_HeldD(1) [of BSU d a k] show ?thesis
      by (cases "s_syncing s") auto
  next
    case (Found a r es s' b)
    have acc': "\<not> s_syncing s' \<Longrightarrow> s_acc s' = []"
      using Found(2) less.prems(2) by (auto split: if_splits)
    note IH = less.hyps [OF sync_found_lighter [OF Found(1,2)] Found(3) acc']
    have "concat es @ s_acc s' @ b @ r = s_acc s @ d"
      using Found(1,2) less.prems(2) seek_FoundD(1) [of "if s_syncing s then ESU else BSU" d a r]
      by (auto split: if_splits)
    with IH Found(4) show ?thesis by simp
  qed
qed

definition sync_acc_ok :: "sync_state \<Rightarrow> bool" where
  "sync_acc_ok s \<longleftrightarrow> (\<not> s_syncing s \<longrightarrow> s_acc s = [])"

definition pending :: "sync_state \<Rightarrow> byte list" where
  "pending s = s_acc s @ s_carry s"

lemma sync_feed_bytes:
  assumes "sync_acc_ok s"
  shows "concat (fst (sync_feed s c)) @ pending (snd (sync_feed s c)) = pending s @ c"
    and "sync_acc_ok (snd (sync_feed s c))"
  using assms sync_loop_bytes [of "s\<lparr>s_carry := []\<rparr>" "s_carry s @ c"]
  by (simp_all add: sync_feed_eq sync.feed_def pending_def sync_acc_ok_def)

lemma sync_run_bytes:
  assumes "sync_acc_ok s"
  shows "concat (fst (run_chunks sync_feed s cs)) @ pending (snd (run_chunks sync_feed s cs)) =
      pending s @ concat cs"
  using assms
proof (induction cs arbitrary: s)
  case (Cons c cs)
  let ?s = "snd (sync_feed s c)"
  note F = sync_feed_bytes [OF Cons.prems, of c]
  have "concat (fst (run_chunks sync_feed s (c # cs))) @ pending (snd (run_chunks sync_feed s (c # cs))) =
      concat (fst (sync_feed s c)) @ pending ?s @ concat cs"
    by (simp only: run_chunks_Cons concat_append append.assoc Cons.IH [OF F(2)])
  also have "\<dots> = pending s @ c @ concat cs"
    by (simp only: append.assoc [symmetric] F(1))
  finally show ?case by simp
qed simp

section \<open>Atomic blocks\<close>

text \<open>A complete block starts with BSU and its first ESU is its end.\<close>

definition complete_block :: "byte list \<Rightarrow> bool" where
  "complete_block e \<longleftrightarrow> prefix BSU e \<and> seek ESU e = Found (take (length e - 8) e) [] "

definition sync_inv :: "sync_state \<Rightarrow> bool" where
  "sync_inv s \<longleftrightarrow> (s_syncing s \<longrightarrow>
     prefix BSU (s_acc s @ s_carry s) \<and> seek ESU (s_acc s @ s_carry s) = Held (s_acc s) (s_carry s))"

lemma seek_cut: "seek pat d = Found a r \<Longrightarrow> pat \<noteq> [] \<Longrightarrow> seek pat (a @ pat) = Found a []"
proof -
  assume s: "seek pat d = Found a r" and pat: "pat \<noteq> []"
  note F = seek_FoundD [OF s]
  have "indexOf (a @ pat) pat 0 = Some (length a)"
  proof (rule indexOf_SomeI)
    show "occurs_at pat (a @ pat) (length a)" by (simp add: occurs_at_def)
    show "\<not> occurs_at pat (a @ pat) j" if "j < length a" for j
      using indexOf_SomeD(3) [OF F(2), of j] occurs_at_inside [of pat "a @ pat" j "[]" r] that F(1)
      by auto
  qed simp
  then show ?thesis by (simp add: seek_def)
qed

lemma sync_loop_blocks:
  assumes "s_carry s = []"
    and "s_syncing s \<Longrightarrow> prefix BSU (s_acc s @ d)"
    and "s_syncing s \<Longrightarrow> seek ESU (s_acc s @ d) = seek_after (Held (s_acc s) []) d (seek ESU)"
  shows "(\<forall>e \<in> set (fst (sync_loop d 0 s)). complete_block e \<or> (\<forall>i. \<not> occurs_at BSU e i)) \<and>
    sync_inv (snd (sync_loop d 0 s))"
  using assms
proof (induction "2 * length d + (if s_syncing s then 0 else 1)" arbitrary: s d rule: less_induct)
  case less
  from less.prems(1) show ?case
  proof (cases rule: sync_scan_cases [of s d])
    case (Held a k)
    show ?thesis
    proof (cases "s_syncing s")
      case True
      with Held less.prems(2,3) seek_HeldD(1) [of ESU d a k] show ?thesis
        by (auto simp: sync_inv_def)
    next
      case False
      with Held seek_Held_free [of BSU d "[]" a "[]" k] show ?thesis
        by (auto simp: sync_inv_def)
    qed
  next
    case (Found a r es s' b)
    show ?thesis
    proof (cases "s_syncing s")
      case True
      with Found(1,2) have sk: "seek ESU d = Found a r" and es: "es = [s_acc s @ a @ ESU]"
        and s': "\<not> s_syncing s'" by auto
      from True less.prems(3) sk have whole: "seek ESU (s_acc s @ d) = Found (s_acc s @ a) r" by simp
      have "prefix BSU (s_acc s @ a @ ESU)"
        using True less.prems(2) seek_FoundD(1) [OF sk]
        by (auto intro: prefix_length_prefix [of _ "s_acc s @ d"])
      with seek_cut [OF whole] have "complete_block (s_acc s @ a @ ESU)"
        by (simp add: complete_block_def)
      with Found(4) es less.hyps [OF sync_found_lighter [OF Found(1,2)] Found(3)] s' show ?thesis
        by simp
    next
      case False
      with Found(1,2) have sk: "seek BSU d = Found a r" and es: "es = (if a \<noteq> [] then [a] else [])"
        and s': "s_syncing s'" "s_acc s' = []" and b: "b = BSU" by auto
      have "seek ESU (b @ r) = seek_after (Held [] []) (b @ r) (seek ESU)"
        by (simp split: seek_result.splits)
      with s' b less.hyps [OF sync_found_lighter [OF Found(1,2)] Found(3)]
      have "(\<forall>e \<in> set (fst (sync_loop (b @ r) 0 s')). complete_block e \<or> (\<forall>i. \<not> occurs_at BSU e i)) \<and>
          sync_inv (snd (sync_loop (b @ r) 0 s'))"
        by simp
      with Found(4) es seek_Found_free [of BSU d "[]" a "[]" r] sk show ?thesis
        by auto
    qed
  qed
qed

lemma sync_feed_blocks:
  assumes "sync_inv s"
  shows "list_all (\<lambda>e. complete_block e \<or> indexOf e BSU 0 = None) (fst (sync_feed s c)) \<and>
    sync_inv (snd (sync_feed s c))"
proof -
  let ?s = "s\<lparr>s_carry := []\<rparr>" and ?d = "s_carry s @ c"
  have pre: "prefix BSU (s_acc ?s @ ?d)" if "s_syncing ?s"
    using assms that prefix_prefix [of BSU "s_acc s @ s_carry s" c] by (simp add: sync_inv_def)
  have sk: "seek ESU (s_acc ?s @ ?d) = seek_after (Held (s_acc ?s) []) ?d (seek ESU)" if "s_syncing ?s"
    using assms that seek_append [of ESU "s_acc s @ s_carry s" c] by (simp add: sync_inv_def)
  have "(\<forall>e \<in> set (fst (sync_feed s c)). complete_block e \<or> (\<forall>i. \<not> occurs_at BSU e i)) \<and>
      sync_inv (snd (sync_feed s c))"
    using sync_loop_blocks [OF _ pre sk] by (simp add: sync_feed_eq sync.feed_def)
  then show ?thesis by (simp add: list_all_iff indexOf_None_iff)
qed

section \<open>The stream-level specification\<close>

text \<open>
  What the shim promises, on the whole stream and without chunks, carry or accumulator:
  bytes outside blocks pass, a block passes as one write once its ESU is there, and an
  open block (or a partial marker at the end) shows nothing.
\<close>

function sync_spec :: "byte list \<Rightarrow> sync_symbol list" where
  "sync_spec d =
     (case seek BSU d of
        Held a k \<Rightarrow> map Byte a
      | Found a r \<Rightarrow> map Byte a @
          (case seek ESU (BSU @ r) of
             Held b k \<Rightarrow> []
           | Found b r' \<Rightarrow> Block (b @ ESU) # sync_spec r'))"
  by pat_completeness auto
termination
proof (relation "measure length", goal_cases)
  case (2 d a r b r')
  then have "length (BSU @ r) = length (b @ ESU @ r')" and "length d = length (a @ BSU @ r)"
    using seek_FoundD(1) by metis+
  then show ?case by simp
qed simp

declare sync_spec.simps [simp del]

lemma sync_loop_spec:
  assumes "s_carry s = []" "\<not> s_syncing s"
  shows "flatten sync_symbols (fst (sync_loop d 0 s)) = sync_spec d"
  using assms
proof (induction "length d" arbitrary: s d rule: less_induct)
  case less
  note plain = sync_symbols_def free_not_prefix
  show ?case
  proof (cases "seek BSU d")
    case (Held a k)
    with less.prems seek_Held_free [of BSU d "[]" a "[]" k] show ?thesis
      by (simp add: sync_loop_Held sync_spec.simps [of d] plain)
  next
    case (Found a r)
    let ?t = "s\<lparr>s_syncing := True, s_acc := []\<rparr>"
    have "sync_loop d 0 s = ((if a \<noteq> [] then [a] else []) @ fst (sync_loop (BSU @ r) 0 ?t),
        snd (sync_loop (BSU @ r) 0 ?t))"
      using Found less.prems by (intro sync_loop_Found) simp_all
    moreover have "flatten sync_symbols (if a \<noteq> [] then [a] else []) = map Byte a"
      using seek_Found_free [of BSU d "[]" a "[]" r] Found by (simp add: plain)
    ultimately have split: "flatten sync_symbols (fst (sync_loop d 0 s)) =
        map Byte a @ flatten sync_symbols (fst (sync_loop (BSU @ r) 0 ?t))"
      by simp
    show ?thesis
    proof (cases "seek ESU (BSU @ r)")
      case (Held b k)
      with less.prems have "fst (sync_loop (BSU @ r) 0 ?t) = []"
        by (simp add: sync_loop_Held)
      with Found Held split show ?thesis by (simp add: sync_spec.simps [of d])
    next
      case Found': (Found b r')
      let ?u = "?t\<lparr>s_acc := [], s_syncing := False\<rparr>"
      have "sync_loop (BSU @ r) 0 ?t =
          ([b @ ESU] @ fst (sync_loop ([] @ r') 0 ?u), snd (sync_loop ([] @ r') 0 ?u))"
        using Found' by (intro sync_loop_Found) simp_all
      moreover have "prefix BSU (b @ ESU)"
        using seek_FoundD(1) [OF Found'] prefix_length_prefix [of BSU "BSU @ r" "b @ ESU"]
        by (metis append.assoc le_add2 length_append markers_not_Nil(3,4) prefixI)
      moreover have "length r' < length d"
        using seek_FoundD(1) [OF Found'] seek_FoundD(1) [OF Found] 
        by (metis add_less_cancel_left length_append less_add_same_cancel2 markers_not_Nil(3,4)
            add.left_commute trans_less_add2 zero_less_numeral)
      ultimately show ?thesis
        using less.hyps [of r' ?u] less.prems Found Found' split
        by (simp add: sync_spec.simps [of d] sync_symbols_def)
    qed
  qed
qed

section \<open>Properties\<close>

text \<open>C1. Whatever the chunk borders of the WebSocket messages, what the shim writes to
  the terminal is what the stream-level specification says: text outside blocks in order,
  every synchronized block as one write, nothing of an unfinished block.\<close>

theorem sync_refines_spec:
  "flatten sync_symbols (fst (run_chunks sync_feed sync_init cs)) = sync_spec (concat cs)"
proof -
  have "flatten sync_symbols (fst (run_chunks sync_feed sync_init cs)) =
      flatten sync_symbols (fst (sync_feed sync_init (concat cs)))"
    by (rule sync_stream.run_concat_out [OF sync_init_settled])
  also have "\<dots> = sync_spec (concat cs)"
    by (simp add: sync_feed_eq sync.feed_def sync_loop_spec sync_init_def)
  finally show ?thesis .
qed

text \<open>The shim loses, reorders and duplicates nothing: what was written followed by
  what is held is the input, after any sequence of messages.\<close>

lemma sync_lossless:
  "concat (fst (run_chunks sync_feed sync_init cs)) @ pending (snd (run_chunks sync_feed sync_init cs))
     = concat cs"
  using sync_run_bytes [of sync_init cs]
  by (simp add: sync_acc_ok_def pending_def sync_init_def)

text \<open>Every single write is either a complete block (BSU first, its first ESU last) or
  free of BSU: a screen update is never painted half-way.\<close>

lemma sync_writes_atomic:
  "list_all (\<lambda>e. complete_block e \<or> indexOf e BSU 0 = None) (fst (run_chunks sync_feed sync_init cs))"
proof -
  have "list_all (\<lambda>e. complete_block e \<or> indexOf e BSU 0 = None) (fst (run_chunks sync_feed s cs))"
    if "sync_inv s" for s
    using that
  proof (induction cs arbitrary: s)
    case (Cons c cs)
    from sync_feed_blocks [OF Cons.prems, of c] Cons.IH show ?case
      by (simp add: run_chunks_Cons del: run_chunks.simps(2))
  qed simp
  then show ?thesis by (simp add: sync_inv_def sync_init_def)
qed

end
