(* ===== verification/Frames.thy ===== *)
theory Frames
  imports JsRuntime
begin

text \<open>
  The control frames \<^verbatim>\<open>web/static/term.js\<close> sends to the producer: the size request
  (\<^verbatim>\<open>resizeFrame\<close>), the v2 greetings, the keypad sequences and the image frame
  (\<^verbatim>\<open>cmImageExt\<close>, \<^verbatim>\<open>cmImageFrame\<close>), with the decoder of the documented layout.
\<close>

unbundle bit_operations_syntax

section \<open>Grid size from the query\<close>

text \<open>\<^verbatim>\<open>clampNum\<close>; a missing parameter is \<^verbatim>\<open>null\<close>, whose string form has no digits.\<close>

definition clampNum :: "string option \<Rightarrow> int \<Rightarrow> int" where
  "clampNum v dflt =
     (case js_parseInt (case v of None \<Rightarrow> ''null'' | Some s \<Rightarrow> s) of
        None \<Rightarrow> dflt
      | Some n \<Rightarrow> if n > 0 \<and> n \<le> 2000 then n else dflt)"

section \<open>Frames\<close>

text \<open>\<^verbatim>\<open>x >> k\<close> and \<^verbatim>\<open>x >>> k\<close> work on the 32-bit form of a number.\<close>

definition to_int32 :: "int \<Rightarrow> 32 word" where
  "to_int32 n = word_of_int n"

definition low_byte :: "32 word \<Rightarrow> byte" where
  "low_byte w = ucast (w AND 0xff)"

definition resizeFrame :: "int \<Rightarrow> int \<Rightarrow> byte list" where
  "resizeFrame rows cols =
     [0xff, 0xff,
      low_byte (signed_drop_bit 8 (to_int32 rows)), low_byte (to_int32 rows),
      low_byte (signed_drop_bit 8 (to_int32 cols)), low_byte (to_int32 cols)]"

definition HELLO_V2 :: "byte list" where
  "HELLO_V2 = [0xff, 0xfe, 0x7f, 0xff]"

definition HELLO_V2_NOHIST :: "byte list" where
  "HELLO_V2_NOHIST = [0xff, 0xfe, 0x7f, 0xfc]"

text \<open>\<^verbatim>\<open>PAD_KEYS\<close>, by the button's \<^verbatim>\<open>data-k\<close>; \<open>None\<close> is a missing entry.\<close>

definition PAD_KEYS :: "string \<Rightarrow> byte list option" where
  "PAD_KEYS = map_of
     [(''esc'', [0x1b]),
      (''up'', [0x1b, 0x5b, 0x41]),
      (''down'', [0x1b, 0x5b, 0x42]),
      (''right'', [0x1b, 0x5b, 0x43]),
      (''left'', [0x1b, 0x5b, 0x44]),
      (''shiftLeft'', [0x1b, 0x5b, 0x31, 0x3b, 0x32, 0x44]),
      (''shiftTab'', [0x1b, 0x5b, 0x5a]),
      (''enter'', [0x0d]),
      (''bottom'', [0xff, 0xfe, 0x7f, 0xfe])]"

text \<open>
  \<^verbatim>\<open>cmImageExt\<close> looks the MIME type up in an object literal, so a name that every
  object inherits yields a (truthy) function or object instead of \<open>0\<close>.
\<close>

datatype ext_code = Code nat | Inherited

definition object_members :: "string list" where
  "object_members = [''constructor'', ''__proto__'', ''hasOwnProperty'', ''isPrototypeOf'',
     ''propertyIsEnumerable'', ''toLocaleString'', ''toString'', ''valueOf'',
     ''__defineGetter__'', ''__defineSetter__'', ''__lookupGetter__'', ''__lookupSetter__'']"

definition cmImageExt :: "string \<Rightarrow> ext_code" where
  "cmImageExt ty =
     (if ty = ''image/png'' then Code 1
      else if ty = ''image/jpeg'' then Code 2
      else if ty = ''image/gif'' then Code 3
      else if ty \<in> set object_members then Inherited
      else Code 0)"

text \<open>Storing the code in a byte: an inherited member converts to \<^verbatim>\<open>NaN\<close>, stored as 0.\<close>

fun code_byte :: "ext_code \<Rightarrow> byte" where
  "code_byte (Code n) = word_of_nat n"
| "code_byte Inherited = 0"

definition cmImageFrame :: "byte list \<Rightarrow> ext_code \<Rightarrow> byte list" where
  "cmImageFrame buf code =
     (let n = to_int32 (int (length buf)) in
      [0xff, 0xfd,
       low_byte (drop_bit 24 n), low_byte (drop_bit 16 n), low_byte (drop_bit 8 n), low_byte n,
       code_byte code] @ buf)"

section \<open>Decoding\<close>

text \<open>The layout the receiver documents: \<^verbatim>\<open>0xff 0xff\<close> rows cols (16 bit, big endian),
  \<^verbatim>\<open>0xff 0xfe\<close> scroll, \<^verbatim>\<open>0xff 0xfd\<close> length (32 bit, big endian) ext bytes.\<close>

datatype client_frame = Resize nat nat | Scroll nat | Image nat "byte list"

fun be :: "byte list \<Rightarrow> nat" where
  "be [] = 0"
| "be (b # bs) = unat b * 256 ^ length bs + be bs"

definition decode_frame :: "byte list \<Rightarrow> (client_frame \<times> byte list) option" where
  "decode_frame d =
     (if prefix [0xff, 0xff] d \<and> length d \<ge> 6
        then Some (Resize (be (take 2 (drop 2 d))) (be (take 2 (drop 4 d))), drop 6 d)
      else if prefix [0xff, 0xfe] d \<and> length d \<ge> 4
        then Some (Scroll (be (take 2 (drop 2 d))), drop 4 d)
      else if prefix [0xff, 0xfd] d \<and> length d \<ge> 7 \<and> length d \<ge> 7 + be (take 4 (drop 2 d))
        then Some (Image (unat (d ! 6)) (take (be (take 4 (drop 2 d))) (drop 7 d)),
                   drop (7 + be (take 4 (drop 2 d))) d)
      else None)"

lemma low_byte_unat: "unat (low_byte w) = unat w mod 256"
proof -
  have "w AND 0xff = take_bit 8 w"
    by (simp add: take_bit_eq_mask mask_eq_exp_minus_1)
  then have "unat (low_byte w) = take_bit 8 (take_bit 8 (unat w))"
    by (simp only: low_byte_def unsigned_ucast_eq unsigned_take_bit_eq len_bit0 len_num1 mult_2 one_add_one)
       simp
  then show ?thesis
    by (simp add: take_bit_eq_mod)
qed

lemma low_byte_signed_shift: "low_byte (signed_drop_bit 8 w) = low_byte (drop_bit 8 w)"
  by (rule bit_word_eqI) (auto simp: low_byte_def bit_simps)

lemma unat_drop_bit_32: "unat (drop_bit n (w :: 32 word)) = unat w div 2 ^ n"
  unfolding unat_drop_bit_eq by (simp add: drop_bit_eq_div)

lemma unat_to_int32: "0 \<le> n \<Longrightarrow> n < 2 ^ 32 \<Longrightarrow> unat (to_int32 n) = nat n"
  by (simp add: to_int32_def unat_eq_nat_uint uint_word_of_int_eq take_bit_int_eq_self)

lemma be_two: "n < 65536 \<Longrightarrow> n div 256 mod 256 * 256 + n mod 256 = (n::nat)"
  by (simp add: mod_less div_less_iff_less_mult)

lemma be_four:
  "n < 4294967296 \<Longrightarrow>
   n div 16777216 mod 256 * 16777216 + (n div 65536 mod 256 * 65536 + (n div 256 mod 256 * 256 + n mod 256)) = (n::nat)"
proof -
  assume "n < 4294967296"
  then have "n div 16777216 < 256" by simp
  then have a: "n div 16777216 mod 256 = n div 16777216" by simp
  have "n div 256 div 256 = n div 65536" "n div 65536 div 256 = n div 16777216"
    by (simp_all add: div_mult2_eq [symmetric])
  then show ?thesis
    using a div_mult_mod_eq [of n 256] div_mult_mod_eq [of "n div 256" 256]
      div_mult_mod_eq [of "n div 65536" 256] by linarith
qed

lemma decode_resize [simp]:
  "decode_frame ([0xff, 0xff, a, b, c, d] @ rest) = Some (Resize (be [a, b]) (be [c, d]), rest)"
  by (simp add: decode_frame_def del: be.simps)

lemma drop_seven: "drop (7 + n) (x1 # x2 # x3 # x4 # x5 # x6 # x7 # ys) = drop n ys"
  by (simp add: eval_nat_numeral)

lemma decode_image:
  "be [a, b, c, d] = length buf \<Longrightarrow>
   decode_frame ([0xff, 0xfd, a, b, c, d, e] @ buf @ rest) = Some (Image (unat e) buf, rest)"
  by (simp add: decode_frame_def drop_seven del: be.simps)

lemma resize_bytes:
  assumes "0 \<le> n" "n < 65536"
  shows "be [low_byte (signed_drop_bit 8 (to_int32 n)), low_byte (to_int32 n)] = nat n"
proof -
  have "nat n < 65536" using assms by simp
  with assms show ?thesis
    using be_two [of "nat n"]
    by (simp add: low_byte_signed_shift low_byte_unat unat_drop_bit_32 unat_to_int32)
qed

lemma resizeFrame_decode:
  assumes "0 \<le> rows" "rows < 65536" "0 \<le> cols" "cols < 65536"
  shows "decode_frame (resizeFrame rows cols @ rest) = Some (Resize (nat rows) (nat cols), rest)"
  unfolding resizeFrame_def decode_resize
  by (simp only: resize_bytes [OF assms(1,2)] resize_bytes [OF assms(3,4)])

lemma clampNum_range:
  "1 \<le> dflt \<Longrightarrow> dflt \<le> 2000 \<Longrightarrow> 1 \<le> clampNum v dflt \<and> clampNum v dflt \<le> 2000"
  by (auto simp: clampNum_def split: option.splits)

lemma cmImageExt_bound: "cmImageExt ty = Code n \<Longrightarrow> n \<le> 3"
  by (auto simp: cmImageExt_def split: if_splits)

lemma clampNum_nat_to_string:
  "clampNum (Some (nat_to_string n)) dflt = (if 1 \<le> n \<and> n \<le> 2000 then int n else dflt)"
  by (simp add: clampNum_def parseInt_nat_to_string)

section \<open>Properties\<close>

text \<open>Whatever the query string holds, the size request the page sends decodes to the
  grid it uses, and that grid is between 1 and 2000 in both directions.\<close>

lemma resize_request_decodes:
  "decode_frame (resizeFrame (clampNum r 500) (clampNum c 160) @ rest) =
     Some (Resize (nat (clampNum r 500)) (nat (clampNum c 160)), rest) \<and>
   1 \<le> clampNum r 500 \<and> clampNum r 500 \<le> 2000 \<and> 1 \<le> clampNum c 160 \<and> clampNum c 160 \<le> 2000"
proof -
  have "1 \<le> clampNum r 500 \<and> clampNum r 500 \<le> 2000" "1 \<le> clampNum c 160 \<and> clampNum c 160 \<le> 2000"
    by (intro clampNum_range; simp)+
  then show ?thesis by (simp add: resizeFrame_decode)
qed

text \<open>An image frame decodes to exactly the image bytes and the extension code of the
  MIME type, and what follows it on the wire is intact: the length header is big-endian and
  covers every image below 4 GiB.\<close>

lemma decode_image_frame:
  assumes "length buf < 2 ^ 32" "cmImageExt ty = Code n"
  shows "decode_frame (cmImageFrame buf (cmImageExt ty) @ rest) = Some (Image n buf, rest)"
proof -
  let ?w = "to_int32 (int (length buf))"
  have "unat ?w = length buf" using assms(1) by (simp add: unat_to_int32)
  then have "be [low_byte (drop_bit 24 ?w), low_byte (drop_bit 16 ?w), low_byte (drop_bit 8 ?w), low_byte ?w] = length buf"
    using be_four [of "length buf"] assms(1) by (simp add: low_byte_unat unat_drop_bit_32)
  moreover have "unat (code_byte (cmImageExt ty)) = n"
    using cmImageExt_bound [OF assms(2)] assms(2) by (simp add: unat_of_nat)
  ultimately show ?thesis
    unfolding cmImageFrame_def Let_def append.assoc by (simp only: decode_image)
qed

lemma decode_image_frame_example:
  "decode_frame (cmImageFrame [9, 8] (cmImageExt ''image/jpeg'') @ [0x1b]) = Some (Image 2 [9, 8], [0x1b])"
  by (rule decode_image_frame) (simp_all add: cmImageExt_def)

text \<open>The wire images the producer's tests use.\<close>

lemma cmImageFrame_golden:
  "cmImageFrame [1, 2, 3, 4, 5] (cmImageExt ''image/png'') = [0xff, 0xfd, 0, 0, 0, 5, 1, 1, 2, 3, 4, 5]"
  "cmImageFrame [9] (cmImageExt ''image/jpeg'') = [0xff, 0xfd, 0, 0, 0, 1, 2, 9]"
  "cmImageExt ''image/webp'' = Code 0" "cmImageExt [] = Code 0"
  by code_simp+

lemma resizeFrame_golden: "resizeFrame 500 160 = [0xff, 0xff, 0x01, 0xf4, 0x00, 0xa0]"
  by code_simp

end
