(* ===== verification/Terminal.thy ===== *)
theory Terminal
  imports Geometry MetaFilter SyncFilter Frames
begin

text \<open>
  What the page does with the terminal (\<^verbatim>\<open>web/static/term.js\<close>): reading a META
  payload (\<^verbatim>\<open>cmParseMeta\<close>), switching to wire v2 (\<^verbatim>\<open>onMeta\<close>), the settle and scroll
  handlers, and the pipeline from a WebSocket message through the META filter and the
  synchronized-update shim to \<^verbatim>\<open>term.write\<close>. The xterm.js terminal is third-party code:
  its calls are logged in order, and of its state only what the page reads back is kept.
\<close>

section \<open>META payloads\<close>

datatype meta_val = MNum int | MStr string | MTrue

text \<open>The regular expression \<^verbatim>\<open>^-?[0-9]+$\<close>.\<close>

definition int_text :: "string \<Rightarrow> bool" where
  "int_text v = (let u = (if v \<noteq> [] \<and> hd v = CHR ''-'' then tl v else v) in u \<noteq> [] \<and> list_all is_digit u)"

text \<open>\<^verbatim>\<open>o[k] = v\<close> on a plain object; assigning a primitive to \<^verbatim>\<open>__proto__\<close> has no effect.\<close>

definition js_put :: "string \<Rightarrow> meta_val \<Rightarrow> (string \<rightharpoonup> meta_val) \<Rightarrow> (string \<rightharpoonup> meta_val)" where
  "js_put k v ob = (if k = ''__proto__'' then ob else ob(k \<mapsto> v))"

definition meta_value :: "string \<Rightarrow> meta_val" where
  "meta_value v =
     (if int_text v then (case js_parseInt v of Some n \<Rightarrow> MNum n | None \<Rightarrow> MStr v) else MStr v)"

fun meta_fields :: "string list \<Rightarrow> (string \<rightharpoonup> meta_val) \<Rightarrow> (string \<rightharpoonup> meta_val)" where
  "meta_fields [] ob = ob"
| "meta_fields (p # ps) ob =
     (case str_indexOf p ''='' of
        None \<Rightarrow> meta_fields ps (js_put p MTrue ob)
      | Some eq \<Rightarrow> meta_fields ps (js_put (take eq p) (meta_value (drop (eq + 1) p)) ob))"

definition cmParseMeta :: "string \<Rightarrow> (string \<rightharpoonup> meta_val)" where
  "cmParseMeta payload = meta_fields (str_split (CHR '';'') payload) Map.empty"

text \<open>How the producer renders the fields.\<close>

definition render_field :: "string \<times> int \<Rightarrow> string" where
  "render_field kv = fst kv @ CHR ''='' # int_to_string (snd kv)"

definition render_meta :: "(string \<times> int) list \<Rightarrow> string" where
  "render_meta kvs = str_join (CHR '';'') (map render_field kvs)"

definition field_ok :: "string \<times> int \<Rightarrow> bool" where
  "field_ok kv \<longleftrightarrow> CHR ''='' \<notin> set (fst kv) \<and> CHR '';'' \<notin> set (fst kv) \<and> fst kv \<noteq> ''__proto__''"

lemma digit_not_minus: "is_digit c \<Longrightarrow> c \<noteq> CHR ''-'' \<and> c \<noteq> CHR '';''"
  by (auto simp: is_digit_def)

lemma int_text_int_to_string: "int_text (int_to_string n)"
proof (cases "n < 0")
  case True
  then show ?thesis
    using nat_to_string_digits [of "nat (- n)"] by (simp add: int_text_def int_to_string_def)
next
  case False
  obtain c s where "nat_to_string (nat n) = c # s" "is_digit c" "list_all is_digit s"
    using nat_to_string_digits [of "nat n"] by (cases "nat_to_string (nat n)") auto
  with False show ?thesis
    by (simp add: int_text_def int_to_string_def digit_not_minus)
qed

lemma meta_value_int: "meta_value (int_to_string n) = MNum n"
  by (simp add: meta_value_def int_text_int_to_string parseInt_int_to_string)

lemma digits_no_semicolon: "CHR '';'' \<notin> set (int_to_string n)"
proof -
  have "CHR '';'' \<notin> set (nat_to_string k)" for k
    using nat_to_string_digits [of k] digit_not_minus unfolding list_all_iff by blast
  then show ?thesis by (simp add: int_to_string_def)
qed

lemma meta_fields_render:
  "list_all field_ok kvs \<Longrightarrow>
   meta_fields (map render_field kvs) ob = ob ++ map_of (rev (map (\<lambda>kv. (fst kv, MNum (snd kv))) kvs))"
proof (induction kvs arbitrary: ob)
  case (Cons kv kvs)
  have "str_indexOf (render_field kv) ''='' = Some (length (fst kv))"
    using Cons.prems by (simp add: render_field_def field_ok_def str_indexOf_char)
  with Cons show ?case
    by (simp add: render_field_def meta_value_int js_put_def field_ok_def map_add_def fun_eq_iff
        split: option.splits)
qed simp

section \<open>The terminal and the v2 switch\<close>

datatype term_op = TWrite "byte list" | TReset | TResize int int | TScrollback nat

datatype hist_note = HistNext | NoScrollback | HistTruncated | HistShown

text \<open>The status line. \<open>ConnectedV2\<close> holds the size as the fields give it, the note on the history
  and the number of lines the pane is scrolled back locally (when positive).\<close>

datatype reason = ByInput | ByPush | ByWatch | ByVisible

datatype stat =
    NoParams | Connected | ConnectedV2 "meta_val option" "meta_val option" hist_note "meta_val option" | Waiting | SockError
  | Reconnecting reason | SendDropped | UnsupportedImage string | ImageSize | ImagePasteOff
  | ImageSent | ImageSentUnconfirmed | SemiAutoPosted string | SemiAutoNoAnswer
  | RestartPosted | RestartAgentPosted

record term_state =
  e_v2 :: bool
  e_painted :: bool
  e_histGot :: bool
  e_cols :: int
  e_rows :: int
  e_fontSize :: int
  e_following :: bool
  e_proxy :: proxy
  e_log :: "term_op list"
  e_stat :: stat

text \<open>What the page reads from its query, measures in the browser and finds in xterm.js:
  \<open>g_measure rows px\<close> is the height of the screen element with that many rows at that font size;
  \<open>g_reflow cols rows\<close> is what a resize makes of the length of the buffer and its first visible line.\<close>

record page_env =
  g_fontOverride :: int
  g_measure :: "int \<Rightarrow> int \<Rightarrow> rat"
  g_reflow :: "int \<Rightarrow> int \<Rightarrow> int \<times> int \<Rightarrow> int \<times> int"

text \<open>Values of META fields in comparisons. A field is an integer on the wire; a text value is
  compared as not positive here (the code would convert it to a number), a field without a value
  as 1.\<close>

fun pos_int :: "meta_val option \<Rightarrow> int option" where
  "pos_int (Some (MNum n)) = (if n > 0 then Some n else None)"
| "pos_int (Some MTrue) = Some 1"
| "pos_int _ = None"

fun truthy :: "meta_val option \<Rightarrow> bool" where
  "truthy (Some (MNum n)) = (n \<noteq> 0)"
| "truthy (Some (MStr s)) = (s \<noteq> [])"
| "truthy (Some MTrue) = True"
| "truthy None = False"

definition log_op :: "term_op \<Rightarrow> term_state \<Rightarrow> term_state" where
  "log_op x e = e\<lparr>e_log := e_log e @ [x]\<rparr>"

text \<open>The screen element follows the font size and the rows of the terminal.\<close>

definition refresh_proxy :: "page_env \<Rightarrow> term_state \<Rightarrow> term_state" where
  "refresh_proxy g e =
     e\<lparr>e_proxy := (e_proxy e)\<lparr>x_screenH := g_measure g (e_rows e) (e_fontSize e), x_rows := e_rows e\<rparr>\<rparr>"

definition set_buffer :: "int \<times> int \<Rightarrow> term_state \<Rightarrow> term_state" where
  "set_buffer b e = e\<lparr>e_proxy := (e_proxy e)\<lparr>x_bufLen := fst b, x_ydisp := snd b\<rparr>\<rparr>"

definition meta_resize :: "page_env \<Rightarrow> (string \<rightharpoonup> meta_val) \<Rightarrow> term_state \<Rightarrow> term_state" where
  "meta_resize g m e =
     (case (pos_int (m ''cols''), pos_int (m ''rows'')) of
        (Some c, Some r) \<Rightarrow>
          if e_cols e \<noteq> c \<or> e_rows e \<noteq> r
          then log_op (TResize c r)
                 (set_buffer (g_reflow g c r (x_bufLen (e_proxy e), x_ydisp (e_proxy e))) (e\<lparr>e_cols := c, e_rows := r\<rparr>))
          else e
      | _ \<Rightarrow> e)"

definition meta_fit :: "page_env \<Rightarrow> (string \<rightharpoonup> meta_val) \<Rightarrow> term_state \<Rightarrow> term_state" where
  "meta_fit g m e =
     (case pos_int (m ''rows'') of
        None \<Rightarrow> e
      | Some r \<Rightarrow> e\<lparr>e_fontSize := fitFont (g_fontOverride g) (g_measure g (e_rows e))
                      (x_clientHeight (e_proxy e)) r (e_fontSize e)\<rparr>)"

definition meta_proxy :: "rat \<Rightarrow> term_state \<Rightarrow> term_state" where
  "meta_proxy now e =
     (let p = enableProxyScroll (e_proxy e);
          p = (if rowPx p \<noteq> 0 then p\<lparr>x_cellPx := rowPx p\<rparr> else p);
          p = updateSpacer p
      in e\<lparr>e_proxy := termToHost now (x_ydisp p) p\<rparr>)"

definition meta_history :: "(string \<rightharpoonup> meta_val) \<Rightarrow> term_state \<Rightarrow> term_state" where
  "meta_history m e =
     (if m ''hist'' = Some (MNum 1) \<and> \<not> e_histGot e
      then let e = e\<lparr>e_histGot := True\<rparr>
           in if e_painted e \<and> pos_int (m ''hlines'') \<noteq> None then log_op TReset e else e
      else e)"

definition meta_stat :: "(string \<rightharpoonup> meta_val) \<Rightarrow> term_state \<Rightarrow> stat" where
  "meta_stat m e =
     ConnectedV2 (m ''cols'') (m ''rows'')
       (if \<not> e_histGot e then HistNext
        else if m ''hist'' = Some (MNum 1) \<and> pos_int (m ''hlines'') = None then NoScrollback
        else if truthy (m ''trunc'') then HistTruncated
        else HistShown)
       (if pos_int (m ''scrolled'') \<noteq> None then m ''scrolled'' else None)"

definition onMeta :: "page_env \<Rightarrow> rat \<Rightarrow> string \<Rightarrow> term_state \<Rightarrow> term_state" where
  "onMeta g now payload e =
     (let m = cmParseMeta payload in
      if m ''v'' \<noteq> Some (MNum 2) then e
      else let e = (if \<not> e_v2 e then log_op (TScrollback 5000) (e\<lparr>e_v2 := True\<rparr>) else e);
               e = meta_resize g m e;
               e = meta_fit g m e;
               e = meta_proxy now (refresh_proxy g e);
               e = meta_history m e
           in e\<lparr>e_stat := meta_stat m e\<rparr>)"

section \<open>Settling and scrolling\<close>

text \<open>The buffer as the page reads it: the \<^verbatim>\<open>rows\<close> lines of the screen with trailing blanks
  cut, the cursor row, and the host's \<^verbatim>\<open>scrollHeight\<close>.\<close>

record screen =
  n_lines :: "string list"
  n_cursorY :: nat
  n_scrollHeight :: rat

definition stateNow :: "track_mode \<Rightarrow> screen \<Rightarrow> term_state \<Rightarrow> track_in" where
  "stateNow mode n e =
     \<lparr>t_mode = mode, t_following = e_following e, t_cy = n_cursorY n,
      t_pinRow = cmLastContentRow (n_lines n) (n_cursorY n),
      t_cellH = n_scrollHeight n / of_int (e_rows e),
      t_clientHeight = x_clientHeight (e_proxy e),
      t_scrollHeight = n_scrollHeight n,
      t_scrollTop = x_top (e_proxy e)\<rparr>"

definition settle :: "page_env \<Rightarrow> rat \<Rightarrow> screen \<Rightarrow> term_state \<Rightarrow> term_state" where
  "settle g now n e =
     (if e_v2 e
      then let e = refresh_proxy g e in e\<lparr>e_proxy := settle_v2 now (e_proxy e)\<rparr>
      else let r = cmTrackScroll (stateNow Settle n e);
               e = e\<lparr>e_following := snd r\<rparr>
           in if fst r \<noteq> x_top (e_proxy e)
              then e\<lparr>e_proxy := (e_proxy e)\<lparr>x_top := fst r\<rparr>\<rparr> else e)"

definition on_scroll :: "rat \<Rightarrow> screen \<Rightarrow> term_state \<Rightarrow> term_state" where
  "on_scroll now n e =
     (if e_v2 e then e\<lparr>e_proxy := hostToTerm now (e_proxy e)\<rparr>
      else e\<lparr>e_following := snd (cmTrackScroll (stateNow Userscroll n e))\<rparr>)"

section \<open>From a message to the terminal\<close>

text \<open>The emit of the shim, \<^verbatim>\<open>painted = true; term.write(b, scheduleLand)\<close>, for the arrays
  one call of its feed emits.\<close>

definition write_all :: "byte list list \<Rightarrow> term_state \<Rightarrow> term_state" where
  "write_all ws e = (if ws = [] then e else e\<lparr>e_painted := True, e_log := e_log e @ map TWrite ws\<rparr>)"

fun term_events :: "page_env \<Rightarrow> rat \<Rightarrow> meta_event list \<Rightarrow> sync_state \<times> term_state \<Rightarrow> sync_state \<times> term_state" where
  "term_events g now [] se = se"
| "term_events g now (Emit b # es) se =
     (let (ws, s') = sync_feed (fst se) b in term_events g now es (s', write_all ws (snd se)))"
| "term_events g now (OnMeta p # es) se = term_events g now es (fst se, onMeta g now p (snd se))"

type_synonym data_path = "meta_state \<times> sync_state \<times> term_state"

text \<open>\<^verbatim>\<open>sock.onmessage\<close> of the current socket.\<close>

definition on_data :: "page_env \<Rightarrow> rat \<Rightarrow> data_path \<Rightarrow> byte list \<Rightarrow> data_path" where
  "on_data g now d data =
     (let (es, m') = meta_feed (fst d) data in (m', term_events g now es (snd d)))"

text \<open>What \<^verbatim>\<open>connect\<close> does to the data path: a fresh shim, the META filter reset.\<close>

definition new_path :: "data_path \<Rightarrow> data_path" where
  "new_path d = (meta_reset (fst d), sync_init, snd (snd d))"

section \<open>Message borders do not matter\<close>

text \<open>Two terminal states show the same when they differ at most in how the log cuts the
  text outside synchronized blocks into writes.\<close>

fun op_symbols :: "term_op \<Rightarrow> (sync_symbol + term_op) list" where
  "op_symbols (TWrite b) = map Inl (sync_symbols b)"
| "op_symbols x = [Inr x]"

definition same_view :: "term_state \<Rightarrow> term_state \<Rightarrow> bool" where
  "same_view e e' \<longleftrightarrow> e\<lparr>e_log := []\<rparr> = e'\<lparr>e_log := []\<rparr> \<and>
     flatten op_symbols (e_log e) = flatten op_symbols (e_log e')"

lemma same_view_refl [simp]: "same_view e e"
  by (simp add: same_view_def)

lemma flatten_map_TWrite: "flatten op_symbols (map TWrite ws) = map Inl (flatten sync_symbols ws)"
  by (induction ws) auto

lemma same_viewE:
  assumes "same_view e e'"
  obtains l where "e = e'\<lparr>e_log := l\<rparr>" "flatten op_symbols l = flatten op_symbols (e_log e')"
proof
  have "e\<lparr>e_log := []\<rparr>\<lparr>e_log := e_log e\<rparr> = e'\<lparr>e_log := []\<rparr>\<lparr>e_log := e_log e\<rparr>"
    using assms unfolding same_view_def by simp
  then show "e = e'\<lparr>e_log := e_log e\<rparr>" by simp
  show "flatten op_symbols (e_log e) = flatten op_symbols (e_log e')"
    using assms by (simp add: same_view_def)
qed

text \<open>The log is only written, so every handler acts on it by appending.\<close>

definition log_blind :: "(term_state \<Rightarrow> term_state) \<Rightarrow> bool" where
  "log_blind f \<longleftrightarrow> (\<forall>e. \<exists>ops. \<forall>l. f (e\<lparr>e_log := l\<rparr>) = (f e)\<lparr>e_log := l @ ops\<rparr>)"

lemma log_blindI: "(\<And>e l. f (e\<lparr>e_log := l\<rparr>) = (f e)\<lparr>e_log := l @ ops e\<rparr>) \<Longrightarrow> log_blind f"
  by (auto simp: log_blind_def)

lemma log_blind_comp: "log_blind f \<Longrightarrow> log_blind h \<Longrightarrow> log_blind (\<lambda>e. h (f e))"
  unfolding log_blind_def by (metis append.assoc)

lemma log_blind_keep: "(\<And>e l. f (e\<lparr>e_log := l\<rparr>) = (f e)\<lparr>e_log := l\<rparr>) \<Longrightarrow> log_blind f"
  by (rule log_blindI [where ops = "\<lambda>_. []"]) simp

lemma log_blind_if:
  assumes "log_blind f" "log_blind h" "\<And>e l. P (e\<lparr>e_log := l\<rparr>) = P e"
  shows "log_blind (\<lambda>e. if P e then f e else h e)"
  unfolding log_blind_def
proof
  fix e
  show "\<exists>ops. \<forall>l. (if P (e\<lparr>e_log := l\<rparr>) then f (e\<lparr>e_log := l\<rparr>) else h (e\<lparr>e_log := l\<rparr>)) =
      (if P e then f e else h e)\<lparr>e_log := l @ ops\<rparr>"
    using assms by (cases "P e") (simp_all add: log_blind_def)
qed

lemma log_blind_id: "log_blind (\<lambda>e. e)"
  by (rule log_blind_keep) simp

lemma log_blind_op: "log_blind (log_op x)"
  by (rule log_blindI [where ops = "\<lambda>_. [x]"]) (simp add: log_op_def)

lemma log_blind_resize: "log_blind (meta_resize g m)"
proof (cases "pos_int (m ''cols'')"; cases "pos_int (m ''rows'')")
  fix c r assume cr: "pos_int (m ''cols'') = Some c" "pos_int (m ''rows'') = Some r"
  have "log_blind (\<lambda>e. set_buffer (g_reflow g c r (x_bufLen (e_proxy e), x_ydisp (e_proxy e))) (e\<lparr>e_cols := c, e_rows := r\<rparr>))"
    by (rule log_blind_keep) (simp add: set_buffer_def)
  from log_blind_if [OF log_blind_comp [OF this log_blind_op] log_blind_id,
      of "\<lambda>e. e_cols e \<noteq> c \<or> e_rows e \<noteq> r" "TResize c r"]
  show ?thesis by (simp add: meta_resize_def [abs_def] cr)
qed (simp_all add: meta_resize_def [abs_def] log_blind_id)

lemma log_blind_history: "log_blind (meta_history m)"
proof -
  have got: "log_blind (\<lambda>e. e\<lparr>e_histGot := True\<rparr>)"
    by (rule log_blind_keep) simp
  have "log_blind (\<lambda>e. if e_painted e \<and> pos_int (m ''hlines'') \<noteq> None then log_op TReset e else e)"
    by (intro log_blind_if log_blind_op log_blind_id) simp
  note painted = this
  have eq: "meta_history m = (\<lambda>e. if m ''hist'' = Some (MNum 1) \<and> \<not> e_histGot e
      then (\<lambda>e. if e_painted e \<and> pos_int (m ''hlines'') \<noteq> None then log_op TReset e else e)
             (e\<lparr>e_histGot := True\<rparr>) else e)"
    by (simp add: meta_history_def fun_eq_iff Let_def)
  show ?thesis
    unfolding eq by (intro log_blind_if log_blind_comp [OF got painted] log_blind_id) simp
qed

lemma log_blind_onMeta: "log_blind (onMeta g now p)"
proof -
  let ?m = "cmParseMeta p"
  have keep: "log_blind (meta_fit g ?m)" "log_blind (meta_proxy now)" "log_blind (refresh_proxy g)"
      "log_blind (\<lambda>e. e\<lparr>e_stat := meta_stat ?m e\<rparr>)" "log_blind (\<lambda>e. e\<lparr>e_v2 := True\<rparr>)"
    by (rule log_blind_keep, simp add: meta_fit_def meta_proxy_def refresh_proxy_def meta_stat_def Let_def
        split: option.splits)+
  have "log_blind (\<lambda>e. if \<not> e_v2 e then log_op (TScrollback 5000) (e\<lparr>e_v2 := True\<rparr>) else e)"
    by (intro log_blind_if log_blind_comp [OF keep(5) log_blind_op] log_blind_id) simp
  note steps = log_blind_comp [OF log_blind_comp [OF log_blind_comp [OF log_blind_comp [OF
      log_blind_comp [OF log_blind_comp [OF this log_blind_resize] keep(1)] keep(3)] keep(2)]
      log_blind_history] keep(4)]
  show ?thesis
  proof (cases "?m ''v'' = Some (MNum 2)")
    case True
    with steps [of ?m g ?m] show ?thesis by (simp add: onMeta_def [abs_def] Let_def)
  next
    case False
    then show ?thesis by (simp add: onMeta_def [abs_def] Let_def log_blind_id)
  qed
qed

lemma same_view_blind:
  assumes "log_blind f" "same_view e e'"
  shows "same_view (f e) (f e')"
proof -
  from assms(2) obtain l where l: "e = e'\<lparr>e_log := l\<rparr>" "flatten op_symbols l = flatten op_symbols (e_log e')"
    by (rule same_viewE)
  from assms(1) obtain ops where ops: "\<And>k. f (e'\<lparr>e_log := k\<rparr>) = (f e')\<lparr>e_log := k @ ops\<rparr>"
    unfolding log_blind_def by blast
  from ops [of "e_log e'"] have "e_log (f e') = e_log e' @ ops"
    by (metis term_state.select_convs(9) term_state.surjective term_state.update_convs(9))
  with ops [of l] l show ?thesis by (simp add: same_view_def)
qed

text \<open>Every array the shim emits is nonempty, so the emit callback runs exactly when
  there is something to write.\<close>

lemma sync_loop_nonempty: "w \<in> set (fst (sync_loop data pos s)) \<Longrightarrow> w \<noteq> []"
proof (induction data pos s rule: sync_loop.induct)
  case (1 data pos s)
  then show ?case
    by (auto simp: sync_loop.simps [of data pos s] subarray_def Let_def split_beta
        split: if_splits option.splits dest: indexOf_SomeD(1))
qed

lemma sync_feed_nonempty: "[] \<notin> set (fst (sync_feed s c))"
  using sync_loop_nonempty [of "[]"] unfolding sync_feed_def by (auto simp: Let_def)

lemma write_all_append: "write_all (ws @ ws') e = write_all ws' (write_all ws e)"
  by (simp add: write_all_def)

lemma sync_symbols_empty: "sync_symbols w = [] \<longleftrightarrow> w = []"
  by (auto simp: sync_symbols_def)

lemma flatten_empty: "[] \<notin> set ws \<Longrightarrow> flatten sync_symbols ws = [] \<longleftrightarrow> ws = []"
  by (cases ws) (auto simp: sync_symbols_empty)

lemma same_view_write:
  assumes "same_view e e'" "flatten sync_symbols ws = flatten sync_symbols ws'"
    "[] \<notin> set ws" "[] \<notin> set ws'"
  shows "same_view (write_all ws e) (write_all ws' e')"
proof -
  from assms(1) obtain l where l: "e = e'\<lparr>e_log := l\<rparr>"
      "flatten op_symbols l = flatten op_symbols (e_log e')" by (rule same_viewE)
  have "ws = [] \<longleftrightarrow> ws' = []" using assms(2-4) flatten_empty by metis
  then show ?thesis using l assms(2)
    by (auto simp: same_view_def write_all_def flatten_map_TWrite)
qed

lemma same_view_trans: "same_view a b \<Longrightarrow> same_view b c \<Longrightarrow> same_view a c"
  by (simp add: same_view_def)

text \<open>The same work one symbol at a time: the reference every cutting is compared with.\<close>

fun symbol_step :: "page_env \<Rightarrow> rat \<Rightarrow> (byte + string) \<Rightarrow> sync_state \<times> term_state \<Rightarrow> sync_state \<times> term_state" where
  "symbol_step g now (Inl b) se = (let (ws, s') = sync_feed (fst se) [b] in (s', write_all ws (snd se)))"
| "symbol_step g now (Inr p) se = (fst se, onMeta g now p (snd se))"

definition same_page :: "sync_state \<times> term_state \<Rightarrow> sync_state \<times> term_state \<Rightarrow> bool" where
  "same_page a b \<longleftrightarrow> fst a = fst b \<and> sync.settled (fst a) \<and> same_view (snd a) (snd b)"

lemma sync_feed_settled: "sync.settled (snd (sync_feed s c))"
  by (simp add: sync_feed_eq sync.settled_feed)

lemma same_page_emit:
  assumes "same_page a b"
  shows "same_page (snd (sync_feed (fst a) c), write_all (fst (sync_feed (fst a) c)) (snd a))
    (fold (symbol_step g now) (map Inl c) b)"
  using assms
proof (induction c arbitrary: a b)
  case Nil
  from Nil have "sync.settled (fst a)" unfolding same_page_def by blast
  with sync_stream.feed_Nil [of "fst a"]
  have "snd (sync_feed (fst a) []) = fst a" "flatten sync_symbols (fst (sync_feed (fst a) [])) = []"
    by simp_all
  with Nil flatten_empty [OF sync_feed_nonempty, of "fst a" "[]"] show ?case
    by (auto simp: same_page_def write_all_def)
next
  case (Cons x c)
  then have st: "sync.settled (fst a)" unfolding same_page_def by blast
  let ?a = "(snd (sync_feed (fst a) [x]), write_all (fst (sync_feed (fst a) [x])) (snd a))"
  have "same_page ?a (symbol_step g now (Inl x) b)"
    using Cons.prems by (auto simp: same_page_def sync_feed_settled same_view_write sync_feed_nonempty split_beta)
  from Cons.IH [OF this]
  have IH: "same_page (snd (sync_feed (fst ?a) c), write_all (fst (sync_feed (fst ?a) c)) (snd ?a))
      (fold (symbol_step g now) (map Inl (x # c)) b)" by simp
  have state: "snd (sync_feed (fst a) (x # c)) = snd (sync_feed (fst ?a) c)"
    using sync_stream.feed_append_state [OF st, of "[x]" c] by simp
  have whole: "flatten sync_symbols (fst (sync_feed (fst a) (x # c))) =
      flatten sync_symbols (fst (sync_feed (fst a) [x]) @ fst (sync_feed (snd (sync_feed (fst a) [x])) c))"
    using sync_stream.feed_append_out [OF st, of "[x]" c] by simp
  have "same_view (write_all (fst (sync_feed (fst a) (x # c))) (snd a))
      (write_all (fst (sync_feed (fst ?a) c)) (snd ?a))"
    unfolding snd_conv fst_conv write_all_append [symmetric]
    by (rule same_view_write [OF same_view_refl whole sync_feed_nonempty]) (simp add: sync_feed_nonempty)
  note view = this
  from IH have I: "snd (sync_feed (fst ?a) c) = fst (fold (symbol_step g now) (map Inl (x # c)) b)"
      "same_view (write_all (fst (sync_feed (fst ?a) c)) (snd ?a)) (snd (fold (symbol_step g now) (map Inl (x # c)) b))"
    unfolding same_page_def fst_conv snd_conv by blast+
  show ?case
    unfolding same_page_def fst_conv snd_conv
    by (intro conjI sync_feed_settled same_view_trans [OF view I(2)] trans [OF state I(1)])
qed

lemma same_page_meta: "same_page a b \<Longrightarrow> same_page (fst a, onMeta g now p (snd a)) (fst b, onMeta g now p (snd b))"
  by (auto simp: same_page_def same_view_blind [OF log_blind_onMeta])

lemma term_events_symbols:
  "same_page a b \<Longrightarrow> same_page (term_events g now es a) (fold (symbol_step g now) (flatten meta_symbols es) b)"
proof (induction es arbitrary: a b)
  case (Cons v es)
  show ?case
  proof (cases v)
    case (Emit c)
    with Cons.IH [OF same_page_emit [OF Cons.prems, of c g now]] show ?thesis by (simp add: split_beta)
  next
    case (OnMeta p)
    with Cons.IH [OF same_page_meta [OF Cons.prems, of g now p]] show ?thesis by simp
  qed
qed simp

lemma term_events_append: "term_events g now (es @ fs) se = term_events g now fs (term_events g now es se)"
  by (induction g now es se rule: term_events.induct) (auto simp: split_beta)

lemma run_on_data:
  "run (on_data g now) d cs =
     (snd (run_chunks meta_feed (fst d) cs), term_events g now (fst (run_chunks meta_feed (fst d) cs)) (snd d))"
  by (induction cs arbitrary: d) (auto simp: on_data_def split_beta term_events_append)

text \<open>C28. Where the messages of a connection are cut does not matter to the page: over two
  cuttings of the same bytes the META filter and the shim end in the same state, and the
  terminal has the same size, font, scroll state and status and got the same operations in
  the same order, each synchronized block in one write, text outside the blocks byte for byte.\<close>

theorem page_chunking_irrelevant:
  assumes "concat cs = concat ds"
  shows "fst (run (on_data g now) (new_path d) cs) = fst (run (on_data g now) (new_path d) ds) \<and>
    fst (snd (run (on_data g now) (new_path d) cs)) = fst (snd (run (on_data g now) (new_path d) ds)) \<and>
    same_view (snd (snd (run (on_data g now) (new_path d) cs))) (snd (snd (run (on_data g now) (new_path d) ds)))"
proof -
  have "meta.settled (meta_reset (fst d))"
    by (rule meta_settled) (simp add: meta_reset_def)
  note M = meta_stream.chunking_irrelevant [OF this assms]
  have start: "same_page (snd (new_path d)) (snd (new_path d))"
    by (simp add: same_page_def new_path_def sync_init_settled)
  have "same_page (snd (run (on_data g now) (new_path d) xs))
      (fold (symbol_step g now) (flatten meta_symbols (fst (run_chunks meta_feed (meta_reset (fst d)) cs))) (snd (new_path d)))"
    if "xs = cs \<or> xs = ds" for xs
    using that term_events_symbols [OF start, of g now "fst (run_chunks meta_feed (meta_reset (fst d)) xs)"] M(1)
    by (elim disjE) (simp_all add: run_on_data new_path_def)
  from this [of cs] this [of ds] M show ?thesis
    by (auto simp: run_on_data new_path_def same_page_def same_view_def)
qed

section \<open>The life of a page\<close>

text \<open>The events that reach the terminal: a message of the current socket, the settle timer,
  the host's scroll event, xterm.js scrolling by itself (\<^verbatim>\<open>term.onScroll\<close>, with the length
  of its buffer and its first line), its buffer changing without that, the user scrolling the host, the
  host changing its height (a soft keyboard), and a new connection.\<close>

datatype page_event =
    Message rat "byte list" | Settled rat screen | Scrolled rat screen
  | XtermScrolled rat int int | BufferChanged int int | UserScrolled rat
  | HostResized rat | Reconnected

definition on_term :: "(term_state \<Rightarrow> term_state) \<Rightarrow> data_path \<Rightarrow> data_path" where
  "on_term f d = (fst d, fst (snd d), f (snd (snd d)))"

definition xterm_scrolled :: "rat \<Rightarrow> int \<Rightarrow> int \<Rightarrow> term_state \<Rightarrow> term_state" where
  "xterm_scrolled now len ydisp e =
     e\<lparr>e_proxy := termToHost now ydisp ((e_proxy e)\<lparr>x_bufLen := len, x_ydisp := ydisp\<rparr>)\<rparr>"

fun page_step :: "page_env \<Rightarrow> data_path \<Rightarrow> page_event \<Rightarrow> data_path" where
  "page_step g d (Message now b) = on_data g now d b"
| "page_step g d (Settled now n) = on_term (settle g now n) d"
| "page_step g d (Scrolled now n) = on_term (on_scroll now n) d"
| "page_step g d (XtermScrolled now len y) = on_term (xterm_scrolled now len y) d"
| "page_step g d (BufferChanged len y) = on_term (set_buffer (len, y)) d"
| "page_step g d (HostResized h) = on_term (\<lambda>e. e\<lparr>e_proxy := (e_proxy e)\<lparr>x_clientHeight := h\<rparr>\<rparr>) d"
| "page_step g d (UserScrolled t) = on_term (\<lambda>e. e\<lparr>e_proxy := (e_proxy e)\<lparr>x_top := t\<rparr>\<rparr>) d"
| "page_step g d Reconnected = new_path d"

text \<open>The page before its first connection: the fixed logical grid and no history.\<close>

definition term_init :: "int \<Rightarrow> int \<Rightarrow> rat \<Rightarrow> term_state" where
  "term_init cols rows clientHeight =
     \<lparr>e_v2 = False, e_painted = False, e_histGot = False, e_cols = cols, e_rows = rows, e_fontSize = 13,
      e_following = True,
      e_proxy = \<lparr>x_spacer = None, x_cellPx = 0, x_syncing = False, x_progUntil = 0, x_top = 0,
        x_clientHeight = clientHeight, x_screenH = 0, x_rows = rows, x_bufLen = rows, x_ydisp = 0\<rparr>,
      e_log = [], e_stat = NoParams\<rparr>"

definition page_init :: "int \<Rightarrow> int \<Rightarrow> rat \<Rightarrow> data_path" where
  "page_init cols rows clientHeight = (meta_init, sync_init, term_init cols rows clientHeight)"

text \<open>What the log says about the flags.\<close>

definition log_ok :: "term_state \<Rightarrow> bool" where
  "log_ok e \<longleftrightarrow> count_list (e_log e) TReset \<le> (if e_histGot e then 1 else 0) \<and>
     count_list (e_log e) (TScrollback 5000) = (if e_v2 e then 1 else 0) \<and>
     e_painted e = (\<exists>b. TWrite b \<in> set (e_log e))"

lemma count_list_writes [simp]:
  "count_list (map TWrite ws) TReset = 0" "count_list (map TWrite ws) (TScrollback k) = 0"
  by (induction ws) auto

lemma log_ok_write_all: "log_ok e \<Longrightarrow> log_ok (write_all ws e)"
  by (cases ws) (auto simp: log_ok_def write_all_def)

text \<open>The steps of \<^verbatim>\<open>onMeta\<close> that keep the log and its flags.\<close>

definition keeps_log :: "(term_state \<Rightarrow> term_state) \<Rightarrow> bool" where
  "keeps_log f \<longleftrightarrow> (\<forall>e. e_log (f e) = e_log e \<and> e_histGot (f e) = e_histGot e \<and>
     e_v2 (f e) = e_v2 e \<and> e_painted (f e) = e_painted e)"

lemma keeps_log_ok: "keeps_log f \<Longrightarrow> log_ok (f e) = log_ok e"
  by (simp add: keeps_log_def log_ok_def)

lemma keeps_log_handlers:
  "keeps_log (meta_fit g m)" "keeps_log (meta_proxy now)" "keeps_log (refresh_proxy g)"
  "keeps_log (\<lambda>e. e\<lparr>e_stat := st e\<rparr>)" "keeps_log (settle g now n)" "keeps_log (on_scroll now n)"
  "keeps_log (xterm_scrolled now len y)" "keeps_log (\<lambda>e. e\<lparr>e_proxy := pr e\<rparr>)" "keeps_log (set_buffer b)"
  by (simp_all add: keeps_log_def meta_fit_def meta_proxy_def refresh_proxy_def settle_def
      on_scroll_def xterm_scrolled_def set_buffer_def Let_def split: option.splits)

lemma log_ok_resize: "log_ok e \<Longrightarrow> log_ok (meta_resize g m e)"
  by (auto simp: meta_resize_def set_buffer_def log_op_def log_ok_def split: option.splits)

lemma log_ok_history: "log_ok e \<Longrightarrow> log_ok (meta_history m e)"
  by (auto simp: meta_history_def log_op_def log_ok_def Let_def)

lemma log_ok_v2: "log_ok e \<Longrightarrow> log_ok (if \<not> e_v2 e then log_op (TScrollback 5000) (e\<lparr>e_v2 := True\<rparr>) else e)"
  by (auto simp: log_op_def log_ok_def)

lemma log_ok_onMeta: "log_ok e \<Longrightarrow> log_ok (onMeta g now p e)"
  unfolding onMeta_def Let_def
  by (simp only: keeps_log_ok [OF keeps_log_handlers(4)] split: if_split)
     (intro impI conjI log_ok_history, simp_all only: keeps_log_ok [OF keeps_log_handlers(1)]
       keeps_log_ok [OF keeps_log_handlers(2)] keeps_log_ok [OF keeps_log_handlers(3)],
      (intro log_ok_resize, use log_ok_v2 [of e] in simp)+)

lemma log_ok_events: "log_ok (snd se) \<Longrightarrow> log_ok (snd (term_events g now es se))"
  by (induction g now es se rule: term_events.induct)
     (auto simp: split_beta log_ok_write_all log_ok_onMeta)

lemma log_ok_step: "log_ok (snd (snd d)) \<Longrightarrow> log_ok (snd (snd (page_step g d v)))"
  by (cases v) (simp_all add: on_data_def on_term_def new_path_def split_beta log_ok_events
      keeps_log_ok [OF keeps_log_handlers(5)] keeps_log_ok [OF keeps_log_handlers(6)]
      keeps_log_ok [OF keeps_log_handlers(7)]
      keeps_log_ok [OF keeps_log_handlers(8) [of "\<lambda>e. (e_proxy e)\<lparr>x_top := t\<rparr>" for t]]
      keeps_log_ok [OF keeps_log_handlers(8) [of "\<lambda>e. (e_proxy e)\<lparr>x_clientHeight := t\<rparr>" for t]]
      keeps_log_ok [OF keeps_log_handlers(9)])

interpretation page: guarded_system "page_init cols rows h" "page_step g" "\<lambda>d. log_ok (snd (snd d))"
  for cols rows :: int and h :: rat and g :: page_env
  by unfold_locales (simp add: page_init_def term_init_def log_ok_def, rule log_ok_step)

text \<open>\<^verbatim>\<open>cmParseMeta\<close> reads back every nonempty list of integer fields, whatever their
  order; a key that occurs twice has its last value.\<close>

lemma cmParseMeta_render:
  assumes "list_all field_ok kvs" "kvs \<noteq> []"
  shows "cmParseMeta (render_meta kvs) = map_of (rev (map (\<lambda>kv. (fst kv, MNum (snd kv))) kvs))"
proof -
  have "CHR '';'' \<notin> set (render_field kv)" if "kv \<in> set kvs" for kv
    using assms(1) that digits_no_semicolon [of "snd kv"]
    by (auto simp: render_field_def field_ok_def list_all_iff)
  then have "str_split (CHR '';'') (render_meta kvs) = map render_field kvs"
    unfolding render_meta_def using assms(2) by (intro str_split_join) (auto simp: list_all_iff)
  with assms(1) show ?thesis by (simp add: cmParseMeta_def meta_fields_render)
qed

lemma cmParseMeta_render_witness:
  "cmParseMeta (render_meta [(''v'', 2), (''cols'', 120), (''hlines'', -7)]) ''cols'' = Some (MNum 120)"
  using cmParseMeta_render [of "[(''v'', 2), (''cols'', 120), (''hlines'', -7)]"]
  by (simp add: field_ok_def)

theorem page_chunking_irrelevant_witness:
  "concat [[0x1b], [0x5b, 0x3f]] = concat [[0x1b, 0x5b], [0x3f::byte]] \<and>
   same_view
     (snd (snd (run (on_data \<lparr>g_fontOverride = 0, g_measure = (\<lambda>_ _. 0), g_reflow = (\<lambda>_ _ b. b)\<rparr> 0)
       (new_path (page_init 160 500 0)) [[0x1b], [0x5b, 0x3f]])))
     (snd (snd (run (on_data \<lparr>g_fontOverride = 0, g_measure = (\<lambda>_ _. 0), g_reflow = (\<lambda>_ _ b. b)\<rparr> 0)
       (new_path (page_init 160 500 0)) [[0x1b, 0x5b], [0x3f]])))"
proof -
  have same: "concat [[0x1b], [0x5b, 0x3f]] = concat [[0x1b, 0x5b], [0x3f::byte]]" by simp
  from page_chunking_irrelevant [OF this, of "\<lparr>g_fontOverride = 0, g_measure = (\<lambda>_ _. 0), g_reflow = (\<lambda>_ _ b. b)\<rparr>" 0
      "page_init 160 500 0"] same
  show ?thesis by blast
qed

end
