(* ===== verification/SemiAuto.thy ===== *)
theory SemiAuto
  imports JsRuntime
begin

text \<open>
  The semi-auto switch of a session (\<^verbatim>\<open>web/static/term.js\<close>): the view chosen by
  \<^verbatim>\<open>cmSemiAutoView\<close>, and the handlers that change \<^verbatim>\<open>semiAuto\<close> and \<^verbatim>\<open>semiAutoPending\<close>
  (a click, the answer to its request, the timer of 15 s, the session document).
\<close>

section \<open>The view\<close>

record sa_view =
  v_badge :: bool
  v_lit :: bool
  v_disabled :: bool
  v_busyLabel :: bool
  v_next :: string

definition cmSemiAutoView :: "bool \<Rightarrow> bool \<Rightarrow> sa_view" where
  "cmSemiAutoView on pending =
     \<lparr>v_badge = on, v_lit = on, v_disabled = pending, v_busyLabel = pending,
      v_next = (if on then ''0'' else ''1'')\<rparr>"

section \<open>The switch\<close>

text \<open>\<open>sa_view\<close> is what the page shows. \<open>sa_inflight\<close> holds the requests that have no answer
  yet by the value they ask for, \<open>sa_timers\<close> the due times of the timers set, \<open>sa_left\<close> that
  the page was sent to the login.\<close>

record semi =
  sa_on :: bool
  sa_pending :: bool
  sa_shown :: sa_view
  sa_inflight :: "string list"
  sa_timers :: "int list"
  sa_left :: bool

datatype sa_message = Posted string | NoAnswer | Alert

definition renderSemiAuto :: "semi \<Rightarrow> semi" where
  "renderSemiAuto s = s\<lparr>sa_shown := cmSemiAutoView (sa_on s) (sa_pending s)\<rparr>"

definition semi_init :: semi where
  "semi_init = \<lparr>sa_on = False, sa_pending = False, sa_shown = cmSemiAutoView False False,
     sa_inflight = [], sa_timers = [], sa_left = False\<rparr>"

text \<open>The session document arrived.\<close>

definition semi_doc :: "bool \<Rightarrow> semi \<Rightarrow> semi" where
  "semi_doc on s = renderSemiAuto (s\<lparr>sa_on := on, sa_pending := False\<rparr>)"

text \<open>The click handler up to its \<^verbatim>\<open>await fetch\<close>.\<close>

definition semi_click :: "semi \<Rightarrow> semi" where
  "semi_click s =
     (if sa_pending s then s
      else let v = cmSemiAutoView (sa_on s) False;
               s = renderSemiAuto (s\<lparr>sa_pending := True\<rparr>)
           in s\<lparr>sa_inflight := sa_inflight s @ [v_next v]\<rparr>)"

text \<open>The rest of the handler, for the \<open>i\<close>-th request without an answer.\<close>

definition semi_reply :: "int \<Rightarrow> nat \<Rightarrow> unit response \<Rightarrow> semi \<Rightarrow> sa_message option \<times> semi" where
  "semi_reply now i r s =
     (if i < length (sa_inflight s)
      then let wanted = sa_inflight s ! i;
               s = s\<lparr>sa_inflight := remove_nth i (sa_inflight s)\<rparr>;
               failed = (Some Alert, renderSemiAuto (s\<lparr>sa_pending := False\<rparr>))
           in (case r of
                 NoResponse \<Rightarrow> failed
               | Response n _ \<Rightarrow>
                   if n = 401 then (None, s\<lparr>sa_left := True\<rparr>)
                   else if \<not> ok_status n then failed
                   else (Some (Posted wanted), s\<lparr>sa_timers := sa_timers s @ [now + 15000]\<rparr>))
      else (None, s))"

text \<open>The \<open>i\<close>-th timer runs.\<close>

definition semi_timer :: "int \<Rightarrow> nat \<Rightarrow> semi \<Rightarrow> sa_message option \<times> semi" where
  "semi_timer now i s =
     (if i < length (sa_timers s) \<and> sa_timers s ! i \<le> now
      then let s = s\<lparr>sa_timers := remove_nth i (sa_timers s)\<rparr>
           in if sa_pending s then (Some NoAnswer, renderSemiAuto (s\<lparr>sa_pending := False\<rparr>)) else (None, s)
      else (None, s))"

datatype sa_event = Click | Reply int nat "unit response" | TimerFires int nat | Doc bool

fun semi_step :: "semi \<Rightarrow> sa_event \<Rightarrow> semi" where
  "semi_step s Click = semi_click s"
| "semi_step s (Reply now i r) = snd (semi_reply now i r s)"
| "semi_step s (TimerFires now i) = snd (semi_timer now i s)"
| "semi_step s (Doc on) = semi_doc on s"

lemmas semi_defs = renderSemiAuto_def semi_doc_def semi_click_def semi_reply_def semi_timer_def Let_def

section \<open>Invariant\<close>

text \<open>The page shows the view of the current state, and a disabled button waits for
  something: an answer, a timer, or the login page.\<close>

definition semi_ok :: "semi \<Rightarrow> bool" where
  "semi_ok s \<longleftrightarrow> sa_shown s = cmSemiAutoView (sa_on s) (sa_pending s) \<and>
     (sa_pending s \<longrightarrow> sa_inflight s \<noteq> [] \<or> sa_timers s \<noteq> [] \<or> sa_left s)"

lemma semi_ok_init: "semi_ok semi_init"
  by (simp add: semi_ok_def semi_init_def)

lemma semi_ok_click: "semi_ok s \<Longrightarrow> semi_ok (semi_click s)"
  by (simp add: semi_ok_def semi_defs)

lemma semi_ok_doc: "semi_ok (semi_doc on s)"
  by (simp add: semi_ok_def semi_defs)

lemma semi_ok_reply: "semi_ok s \<Longrightarrow> semi_ok (snd (semi_reply now i r s))"
  by (auto simp: semi_ok_def semi_defs split: response.splits)

lemma semi_ok_timer: "semi_ok s \<Longrightarrow> semi_ok (snd (semi_timer now i s))"
  by (auto simp: semi_ok_def semi_defs)

lemma semi_ok_step: "semi_ok s \<Longrightarrow> semi_ok (semi_step s v)"
  by (cases v) (simp_all add: semi_ok_click semi_ok_doc semi_ok_reply semi_ok_timer)

interpretation semi: guarded_system semi_init semi_step semi_ok
  by unfold_locales (rule semi_ok_init, rule semi_ok_step)

section \<open>Properties\<close>

text \<open>In every reachable state the page shows the view of the state it is in, and a button
  that is disabled has a request in flight or a timer set (or the page was sent to the login):
  it cannot stay disabled with nothing left to enable it.\<close>

lemma semi_auto_never_stuck:
  "let s = run semi_step semi_init vs
   in sa_shown s = cmSemiAutoView (sa_on s) (sa_pending s) \<and>
      \<not> (v_disabled (sa_shown s) \<and> sa_inflight s = [] \<and> sa_timers s = [] \<and> \<not> sa_left s)"
  using semi.inv_run [of vs] by (auto simp: semi_ok_def Let_def cmSemiAutoView_def)

text \<open>A click asks for the opposite of what the page shows, disables the button, and is
  ignored while the button is disabled; a document that arrives before the answer enables it
  again with the state the producer reports.\<close>

lemma semi_click_asks_for_opposite:
  "let s = run semi_step semi_init vs; t = semi_click s
   in sa_inflight t =
        (if v_disabled (sa_shown s) then sa_inflight s
         else sa_inflight s @ [if v_lit (sa_shown s) then ''0'' else ''1'']) \<and>
      v_disabled (sa_shown t) \<and>
      sa_shown (semi_doc on t) = cmSemiAutoView on False"
proof -
  have "semi_ok (run semi_step semi_init vs)" by (rule semi.inv_run)
  then show ?thesis
    by (simp add: semi_ok_def semi_defs cmSemiAutoView_def)
qed

text \<open>The timers are not tied to the click that set them. A first request is posted at time 0
  and answered by the document; a second one is posted 14 s later; one second after that the
  first timer gives the second request up, with its own timer still 14 s away.\<close>

lemma semi_stale_timer:
  "let s = run semi_step semi_init [Click, Reply 0 0 (Response 200 ()), Doc True, Click, Reply 14000 0 (Response 200 ())]
   in sa_pending s \<and> semi_timer 15000 0 s = (Some NoAnswer, snd (semi_timer 15000 0 s)) \<and>
      \<not> sa_pending (snd (semi_timer 15000 0 s)) \<and> sa_timers (snd (semi_timer 15000 0 s)) = [29000]"
  by (simp add: semi_init_def semi_defs ok_status_def remove_nth_def cmSemiAutoView_def)

end
