(* ===== verification/Connection.thy ===== *)
theory Connection
  imports Terminal SemiAuto
begin

text \<open>
  The data line of the terminal page (\<^verbatim>\<open>web/static/term.js\<close>): the reconnect and watch
  gates, the WebSockets with their handlers, the queue of input typed while there is no
  connection, the session document, the watch tick and the retry timer. A WebSocket is kept
  by its \<^verbatim>\<open>readyState\<close> and what was sent on it; the events that the browser and the user
  cause are the steps of \<open>conn_step\<close>.
\<close>

section \<open>The gates\<close>

record gate_in =
  q_wsState :: int
  q_now :: int
  q_lastAttemptAt :: int
  q_attempts :: nat

definition backoff :: "nat \<Rightarrow> int" where
  "backoff attempts = min 30000 (1000 * 2 ^ attempts)"

definition cmReconnectGate :: "gate_in \<Rightarrow> bool \<times> nat" where
  "cmReconnectGate s =
     (if q_wsState s = 0 \<or> q_wsState s = 1 then (False, q_attempts s)
      else if q_now s - q_lastAttemptAt s < backoff (q_attempts s) then (False, q_attempts s)
      else (True, q_attempts s + 1))"

definition cmWatchGate :: "bool \<Rightarrow> bool \<Rightarrow> int \<Rightarrow> bool" where
  "cmWatchGate visible active ws =
     (if \<not> visible then False
      else if \<not> active then False
      else if ws = 0 \<or> ws = 1 then False
      else True)"

section \<open>State\<close>

datatype ready_state = CONNECTING | OPEN | CLOSING | CLOSED

fun readyState :: "ready_state \<Rightarrow> int" where
  "readyState CONNECTING = 0"
| "readyState OPEN = 1"
| "readyState CLOSING = 2"
| "readyState CLOSED = 3"

text \<open>\<open>k_sent\<close> is everything handed to \<^verbatim>\<open>send\<close>; \<open>k_input\<close> and \<open>k_opened\<close> are ghosts: the
  part of it that is input, and whether the socket was open once.\<close>

record socket =
  k_ready :: ready_state
  k_sent :: "byte list list"
  k_input :: "byte list list"
  k_opened :: bool

text \<open>\<open>c_ws\<close> is the index of the current socket, \<open>c_timers\<close> the due times of the retry timers.
  Ghosts: \<open>c_accepted\<close>, the input \<^verbatim>\<open>sendBytes\<close> took, and \<open>c_dials\<close>, the time of every
  connection with the count of attempts the gate saw.\<close>

record conn =
  c_socks :: "socket list"
  c_ws :: "nat option"
  c_attempts :: nat
  c_last :: int
  c_q :: "byte list list"
  c_qBytes :: nat
  c_active :: bool
  c_imageOK :: "bool option"
  c_semi :: semi
  c_path :: data_path
  c_timers :: "int list"
  c_now :: int
  c_accepted :: "byte list list"
  c_dials :: "(int \<times> nat) list"

definition QMAX :: nat where
  "QMAX = 9 * 2 ^ 20"

definition wsState :: "conn \<Rightarrow> int" where
  "wsState c = (case c_ws c of None \<Rightarrow> -1 | Some i \<Rightarrow> readyState (k_ready (c_socks c ! i)))"

definition set_stat :: "stat \<Rightarrow> conn \<Rightarrow> conn" where
  "set_stat st c = c\<lparr>c_path := on_term (\<lambda>e. e\<lparr>e_stat := st\<rparr>) (c_path c)\<rparr>"

definition histGot :: "conn \<Rightarrow> bool" where
  "histGot c = e_histGot (snd (snd (c_path c)))"

definition upd_sock :: "nat \<Rightarrow> (socket \<Rightarrow> socket) \<Rightarrow> conn \<Rightarrow> conn" where
  "upd_sock i f c = c\<lparr>c_socks := (c_socks c)[i := f (c_socks c ! i)]\<rparr>"

definition sock_send :: "nat \<Rightarrow> byte list \<Rightarrow> conn \<Rightarrow> conn" where
  "sock_send i b = upd_sock i (\<lambda>k. k\<lparr>k_sent := k_sent k @ [b]\<rparr>)"

text \<open>\<^verbatim>\<open>ws.send(b)\<close> for input.\<close>

definition send_input :: "byte list \<Rightarrow> conn \<Rightarrow> conn" where
  "send_input b c =
     (case c_ws c of
        None \<Rightarrow> c
      | Some i \<Rightarrow> upd_sock i (\<lambda>k. k\<lparr>k_sent := k_sent k @ [b], k_input := k_input k @ [b]\<rparr>) c)"

section \<open>Operations\<close>

function flushQ :: "conn \<Rightarrow> conn" where
  "flushQ c =
     (if c_q c \<noteq> [] \<and> wsState c = 1
      then let b = hd (c_q c)
           in flushQ (send_input b (c\<lparr>c_q := tl (c_q c), c_qBytes := c_qBytes c - length b\<rparr>))
      else c)"
  by pat_completeness auto
termination
  by (relation "measure (\<lambda>c. length (c_q c))")
     (auto simp: send_input_def upd_sock_def split: option.splits)

declare flushQ.simps [simp del]

definition new_socket :: socket where
  "new_socket = \<lparr>k_ready = CONNECTING, k_sent = [], k_input = [], k_opened = False\<rparr>"

definition connect :: "conn \<Rightarrow> conn" where
  "connect c = c\<lparr>c_socks := c_socks c @ [new_socket], c_ws := Some (length (c_socks c)),
     c_path := new_path (c_path c)\<rparr>"

definition requestConnect :: "reason \<Rightarrow> conn \<Rightarrow> conn" where
  "requestConnect reason c =
     (let r = cmReconnectGate \<lparr>q_wsState = wsState c, q_now = c_now c,
                q_lastAttemptAt = c_last c, q_attempts = c_attempts c\<rparr>
      in if \<not> fst r then c
         else connect (set_stat (Reconnecting reason)
                (c\<lparr>c_attempts := snd r, c_last := c_now c,
                   c_dials := c_dials c @ [(c_now c, c_attempts c)]\<rparr>)))"

definition sendBytes :: "byte list \<Rightarrow> conn \<Rightarrow> bool \<times> conn" where
  "sendBytes b c =
     (if wsState c = 1
      then (True, send_input b (c\<lparr>c_accepted := c_accepted c @ [b]\<rparr>))
      else if c_qBytes c + length b > QMAX then (False, set_stat SendDropped c)
      else (True, requestConnect ByInput
              (c\<lparr>c_q := c_q c @ [b], c_qBytes := c_qBytes c + length b,
                 c_accepted := c_accepted c @ [b]\<rparr>)))"

section \<open>Socket handlers\<close>

text \<open>The browser's part of an event changes \<^verbatim>\<open>readyState\<close>, then the handler runs; each handler
  first checks \<^verbatim>\<open>ws !== sock\<close>. An event that the browser cannot cause in the state the socket
  is in is no step.\<close>

definition has_ready :: "nat \<Rightarrow> ready_state set \<Rightarrow> conn \<Rightarrow> bool" where
  "has_ready i R c \<longleftrightarrow> i < length (c_socks c) \<and> k_ready (c_socks c ! i) \<in> R"

definition set_ready :: "nat \<Rightarrow> ready_state \<Rightarrow> conn \<Rightarrow> conn" where
  "set_ready i r = upd_sock i (\<lambda>k. k\<lparr>k_ready := r, k_opened := k_opened k \<or> r = OPEN\<rparr>)"

definition onopen :: "int \<Rightarrow> int \<Rightarrow> nat \<Rightarrow> conn \<Rightarrow> conn" where
  "onopen rows cols i c =
     (if c_ws c \<noteq> Some i then c
      else let c = c\<lparr>c_attempts := 0\<rparr>;
               c = sock_send i HELLO_V2 c;
               c = (if histGot c then sock_send i HELLO_V2_NOHIST c else c);
               c = sock_send i (resizeFrame rows cols) c;
               c = flushQ c
           in set_stat Connected c)"

definition onmessage :: "page_env \<Rightarrow> nat \<Rightarrow> rat \<Rightarrow> byte list \<Rightarrow> conn \<Rightarrow> conn" where
  "onmessage g i now data c =
     (if c_ws c \<noteq> Some i then c else c\<lparr>c_path := on_data g now (c_path c) data\<rparr>)"

definition onclose :: "nat \<Rightarrow> conn \<Rightarrow> conn" where
  "onclose i c =
     (if c_ws c \<noteq> Some i then c
      else let c = set_stat Waiting c
           in if c_q c \<noteq> [] then c\<lparr>c_timers := c_timers c @ [c_now c + 1100]\<rparr> else c)"

definition onerror :: "nat \<Rightarrow> conn \<Rightarrow> conn" where
  "onerror i c = (if c_ws c \<noteq> Some i then c else set_stat SockError c)"

section \<open>Other triggers\<close>

record session_doc =
  y_is_active :: bool
  y_image_paste :: bool
  y_semi_auto :: bool

text \<open>\<^verbatim>\<open>onSnapshot\<close>; a snapshot without data is \<open>None\<close>. A field is kept as whether it is
  exactly \<^verbatim>\<open>true\<close>.\<close>

definition onSnapshot :: "session_doc option \<Rightarrow> conn \<Rightarrow> conn" where
  "onSnapshot d c =
     requestConnect ByPush
       (case d of
          None \<Rightarrow> c
        | Some y \<Rightarrow> c\<lparr>c_active := y_is_active y, c_imageOK := Some (y_image_paste y),
                       c_semi := semi_doc (y_semi_auto y) (c_semi c)\<rparr>)"

definition watch_tick :: "bool \<Rightarrow> conn \<Rightarrow> conn" where
  "watch_tick visible c =
     (if cmWatchGate visible (c_active c) (wsState c) then requestConnect ByWatch c else c)"

definition on_visibility :: "bool \<Rightarrow> conn \<Rightarrow> conn" where
  "on_visibility visible c = (if visible then requestConnect ByVisible c else c)"

text \<open>The \<open>i\<close>-th retry timer runs once it is due.\<close>

definition retry_timer :: "nat \<Rightarrow> conn \<Rightarrow> conn" where
  "retry_timer i c =
     (if i < length (c_timers c) \<and> c_timers c ! i \<le> c_now c
      then requestConnect ByInput (c\<lparr>c_timers := remove_nth i (c_timers c)\<rparr>)
      else c)"

datatype conn_event =
    Elapse nat | SockOpen nat | SockMessage nat rat "byte list" | SockClosing nat
  | SockClose nat bool | Input "byte list" | Snapshot "session_doc option"
  | WatchTick bool | Visibility bool | RetryTimer nat | Page page_event
  | SemiClick | SemiReply nat "unit response" | SemiTimer nat

text \<open>What the handlers of the semi-auto switch write to the status line.\<close>

definition semi_result :: "sa_message option \<times> semi \<Rightarrow> conn \<Rightarrow> conn" where
  "semi_result r c =
     (let c = c\<lparr>c_semi := snd r\<rparr>
      in case fst r of
           Some (Posted v) \<Rightarrow> set_stat (SemiAutoPosted v) c
         | Some NoAnswer \<Rightarrow> set_stat SemiAutoNoAnswer c
         | _ \<Rightarrow> c)"

text \<open>\<open>SockClose i failed\<close>: the browser sets \<^verbatim>\<open>CLOSED\<close>, fires \<^verbatim>\<open>error\<close> when the connection failed,
  then \<^verbatim>\<open>close\<close>. The page's own events are those that no socket causes.\<close>

fun conn_step :: "page_env \<Rightarrow> int \<Rightarrow> int \<Rightarrow> conn \<Rightarrow> conn_event \<Rightarrow> conn" where
  "conn_step g rows cols c (Elapse n) = c\<lparr>c_now := c_now c + int n\<rparr>"
| "conn_step g rows cols c (SockOpen i) =
     (if has_ready i {CONNECTING} c then onopen rows cols i (set_ready i OPEN c) else c)"
| "conn_step g rows cols c (SockMessage i now data) =
     (if has_ready i {OPEN} c then onmessage g i now data c else c)"
| "conn_step g rows cols c (SockClosing i) =
     (if has_ready i {OPEN} c then set_ready i CLOSING c else c)"
| "conn_step g rows cols c (SockClose i failed) =
     (if has_ready i {CONNECTING, OPEN, CLOSING} c
      then let c = set_ready i CLOSED c
           in onclose i (if failed then onerror i c else c)
      else c)"
| "conn_step g rows cols c (Input b) = snd (sendBytes b c)"
| "conn_step g rows cols c (Snapshot d) = onSnapshot d c"
| "conn_step g rows cols c (WatchTick v) = watch_tick v c"
| "conn_step g rows cols c (Visibility v) = on_visibility v c"
| "conn_step g rows cols c (RetryTimer i) = retry_timer i c"
| "conn_step g rows cols c (Page v) =
     (case v of Reconnected \<Rightarrow> c | Message _ _ \<Rightarrow> c
      | _ \<Rightarrow> c\<lparr>c_path := page_step g (c_path c) v\<rparr>)"
| "conn_step g rows cols c SemiClick = c\<lparr>c_semi := semi_click (c_semi c)\<rparr>"
| "conn_step g rows cols c (SemiReply i r) = semi_result (semi_reply (c_now c) i r (c_semi c)) c"
| "conn_step g rows cols c (SemiTimer i) = semi_result (semi_timer (c_now c) i (c_semi c)) c"

text \<open>The page as \<^verbatim>\<open>run\<close> leaves it: the first connection is dialled without the gate.\<close>

definition conn_init :: "data_path \<Rightarrow> int \<Rightarrow> conn" where
  "conn_init d now =
     connect \<lparr>c_socks = [], c_ws = None, c_attempts = 0, c_last = now, c_q = [], c_qBytes = 0,
       c_active = False, c_imageOK = None, c_semi = semi_init, c_path = d, c_timers = [],
       c_now = now, c_accepted = [], c_dials = [(now, 0)]\<rparr>"

declare onmessage_def [step_defs] onclose_def [step_defs] onerror_def [step_defs] onSnapshot_def [step_defs]
  watch_tick_def [step_defs] cmWatchGate_def [step_defs] on_visibility_def [step_defs]
  retry_timer_def [step_defs] semi_result_def [step_defs] Let_def [step_defs]

section \<open>Invariant\<close>

definition handshake :: "int \<Rightarrow> int \<Rightarrow> bool \<Rightarrow> byte list list" where
  "handshake rows cols got = HELLO_V2 # (if got then [HELLO_V2_NOHIST] else []) @ [resizeFrame rows cols]"

text \<open>A socket that was open once was sent one handshake and then only input, any other one
  nothing.\<close>

definition sock_ok :: "int \<Rightarrow> int \<Rightarrow> socket \<Rightarrow> bool" where
  "sock_ok rows cols k \<longleftrightarrow>
     (if k_opened k then k_sent k \<in> {handshake rows cols False @ k_input k, handshake rows cols True @ k_input k}
      else k_sent k = [] \<and> k_input k = []) \<and>
     (k_ready k = OPEN \<longrightarrow> k_opened k) \<and> (k_ready k = CONNECTING \<longrightarrow> \<not> k_opened k)"

definition dial_gap :: "int \<times> nat \<Rightarrow> int \<times> nat \<Rightarrow> bool" where
  "dial_gap d d' \<longleftrightarrow> fst d + backoff (snd d') \<le> fst d' \<and> (snd d' = 0 \<or> snd d' = snd d + 1)"

definition dials_ok :: "conn \<Rightarrow> bool" where
  "dials_ok c \<longleftrightarrow> successively dial_gap (c_dials c) \<and> c_dials c \<noteq> [] \<and> c_last c \<le> c_now c \<and>
     fst (last (c_dials c)) = c_last c \<and> (c_attempts c = 0 \<or> c_attempts c = snd (last (c_dials c)) + 1)"

text \<open>The current socket is the newest one, every older one is closing or closed.\<close>

definition socks_ok :: "int \<Rightarrow> int \<Rightarrow> socket list \<Rightarrow> socket \<Rightarrow> conn \<Rightarrow> bool" where
  "socks_ok rows cols old k c \<longleftrightarrow> c_socks c = old @ [k] \<and> c_ws c = Some (length old) \<and>
     list_all (\<lambda>h. k_ready h \<in> {CLOSING, CLOSED} \<and> sock_ok rows cols h) old \<and> sock_ok rows cols k \<and>
     (k_ready k = OPEN \<longrightarrow> c_q c = []) \<and>
     c_accepted c = concat (map k_input old) @ k_input k @ c_q c"

definition queue_ok :: "conn \<Rightarrow> bool" where
  "queue_ok c \<longleftrightarrow> c_qBytes c = sum_list (map length (c_q c)) \<and> c_qBytes c \<le> QMAX"

definition conn_ok :: "int \<Rightarrow> int \<Rightarrow> conn \<Rightarrow> bool" where
  "conn_ok rows cols c \<longleftrightarrow> (\<exists>old k. socks_ok rows cols old k c) \<and> queue_ok c \<and> dials_ok c"

lemma conn_okE:
  assumes "conn_ok rows cols c"
  obtains old k where "socks_ok rows cols old k c" "queue_ok c" "dials_ok c"
  using assms by (auto simp: conn_ok_def)

lemma conn_okI: "socks_ok rows cols old k c \<Longrightarrow> queue_ok c \<Longrightarrow> dials_ok c \<Longrightarrow> conn_ok rows cols c"
  by (auto simp: conn_ok_def)

text \<open>The fields the invariant does not read.\<close>

lemma wsState_frame [simp]:
  "wsState (c\<lparr>c_path := x\<rparr>) = wsState c" "wsState (c\<lparr>c_semi := sm\<rparr>) = wsState c"
  "wsState (c\<lparr>c_timers := ts\<rparr>) = wsState c" "wsState (c\<lparr>c_now := n\<rparr>) = wsState c"
  "wsState (c\<lparr>c_q := q\<rparr>) = wsState c" "wsState (c\<lparr>c_qBytes := b\<rparr>) = wsState c"
  "wsState (c\<lparr>c_accepted := a\<rparr>) = wsState c" "wsState (c\<lparr>c_active := v\<rparr>) = wsState c"
  "wsState (c\<lparr>c_imageOK := w\<rparr>) = wsState c" "wsState (c\<lparr>c_attempts := k\<rparr>) = wsState c"
  by (simp_all add: wsState_def cong: option.case_cong)

lemma conn_ok_frame [simp]:
  "conn_ok rows cols (c\<lparr>c_path := x\<rparr>) = conn_ok rows cols c"
  "conn_ok rows cols (c\<lparr>c_semi := sm\<rparr>) = conn_ok rows cols c"
  "conn_ok rows cols (c\<lparr>c_timers := ts\<rparr>) = conn_ok rows cols c"
  "conn_ok rows cols (c\<lparr>c_active := v\<rparr>) = conn_ok rows cols c"
  "conn_ok rows cols (c\<lparr>c_imageOK := w\<rparr>) = conn_ok rows cols c"
  by (simp_all add: conn_ok_def socks_ok_def queue_ok_def dials_ok_def)

lemma conn_ok_stat [simp]: "conn_ok rows cols (set_stat st c) = conn_ok rows cols c"
  by (simp add: set_stat_def)

lemma wsState_current: "socks_ok rows cols old k c \<Longrightarrow> wsState c = readyState (k_ready k)"
  by (simp add: socks_ok_def wsState_def)

lemma readyState_iff [simp]:
  "readyState r = 0 \<longleftrightarrow> r = CONNECTING" "readyState r = 1 \<longleftrightarrow> r = OPEN"
  by (cases r; simp)+

lemma new_socket_ok: "sock_ok rows cols new_socket"
  by (simp add: new_socket_def sock_ok_def)

lemma requestConnect_ok:
  assumes "conn_ok rows cols c"
  shows "conn_ok rows cols (requestConnect why c)"
proof -
  from assms obtain old k where c: "socks_ok rows cols old k c" "queue_ok c" "dials_ok c" by (rule conn_okE)
  show ?thesis
  proof (cases "fst (cmReconnectGate \<lparr>q_wsState = wsState c, q_now = c_now c,
                q_lastAttemptAt = c_last c, q_attempts = c_attempts c\<rparr>)")
    case True
    then have dead: "k_ready k \<in> {CLOSING, CLOSED}"
      using wsState_current [OF c(1)] by (cases "k_ready k") (auto simp: cmReconnectGate_def)
    from True have gap: "c_last c + backoff (c_attempts c) \<le> c_now c"
      by (simp add: cmReconnectGate_def split: if_splits)
    from True have snd: "snd (cmReconnectGate \<lparr>q_wsState = wsState c, q_now = c_now c,
                q_lastAttemptAt = c_last c, q_attempts = c_attempts c\<rparr>) = c_attempts c + 1"
      by (simp add: cmReconnectGate_def split: if_splits)
    note step = requestConnect_def Let_def True snd connect_def set_stat_def
    have "socks_ok rows cols (old @ [k]) new_socket (requestConnect why c)"
      using c(1) dead by (simp add: step socks_ok_def new_socket_ok) (simp add: new_socket_def)
    moreover have "queue_ok (requestConnect why c)"
      using c(2) by (simp add: step queue_ok_def)
    moreover have "dials_ok (requestConnect why c)"
      using c(3) gap by (auto simp: step dials_ok_def successively_append_iff dial_gap_def)
    ultimately show ?thesis by (rule conn_okI)
  qed (simp add: requestConnect_def Let_def assms)
qed

text \<open>What flushing does once the current socket is open: all that was queued is sent, in order.\<close>

lemma flushQ_open:
  "c_socks c = old @ [k] \<Longrightarrow> c_ws c = Some (length old) \<Longrightarrow> k_ready k = OPEN \<Longrightarrow>
   flushQ c = c\<lparr>c_socks := old @ [k\<lparr>k_sent := k_sent k @ c_q c, k_input := k_input k @ c_q c\<rparr>],
     c_q := [], c_qBytes := c_qBytes c - sum_list (map length (c_q c))\<rparr>"
proof (induction "c_q c" arbitrary: c k)
  case Nil
  have "c = c\<lparr>c_socks := c_socks c, c_q := c_q c, c_qBytes := c_qBytes c\<rparr>" by simp
  with Nil show ?case by (simp add: flushQ.simps [of c])
next
  case (Cons b q)
  note q = Cons.hyps(2) [symmetric]
  let ?k = "k\<lparr>k_sent := k_sent k @ [b], k_input := k_input k @ [b]\<rparr>"
  let ?c = "c\<lparr>c_q := q, c_qBytes := c_qBytes c - length b, c_socks := old @ [?k]\<rparr>"
  have "flushQ c = flushQ ?c"
    using Cons.prems q by (simp add: flushQ.simps [of c] wsState_def Let_def send_input_def upd_sock_def)
  also have "\<dots> = ?c\<lparr>c_socks := old @ [?k\<lparr>k_sent := k_sent ?k @ q, k_input := k_input ?k @ q\<rparr>],
     c_q := [], c_qBytes := c_qBytes ?c - sum_list (map length q)\<rparr>"
    using Cons.hyps(1) [of ?c ?k] Cons.prems by simp
  finally show ?case using q by simp
qed

lemma sendBytes_ok:
  assumes "conn_ok rows cols c"
  shows "conn_ok rows cols (snd (sendBytes b c))"
proof -
  from assms obtain old k where c: "socks_ok rows cols old k c" "queue_ok c" "dials_ok c" by (rule conn_okE)
  show ?thesis
  proof (cases "wsState c = 1")
    case True
    let ?k = "k\<lparr>k_sent := k_sent k @ [b], k_input := k_input k @ [b]\<rparr>"
    let ?c = "c\<lparr>c_accepted := c_accepted c @ [b], c_socks := old @ [?k]\<rparr>"
    from True c(1) have k: "k_ready k = OPEN" by (simp add: wsState_current)
    then have "sock_ok rows cols ?k" using c(1) by (auto simp: socks_ok_def sock_ok_def)
    then have "socks_ok rows cols old ?k ?c" using c(1) k by (simp add: socks_ok_def)
    moreover have "queue_ok ?c" "dials_ok ?c" using c(2,3) by (simp_all add: queue_ok_def dials_ok_def)
    ultimately have "conn_ok rows cols ?c" by (rule conn_okI)
    then show ?thesis
      using True c(1) by (simp add: sendBytes_def send_input_def upd_sock_def socks_ok_def)
  next
    case False
    show ?thesis
    proof (cases "c_qBytes c + length b > QMAX")
      case True
      with False assms show ?thesis by (simp add: sendBytes_def)
    next
      case room: False
      let ?c = "c\<lparr>c_q := c_q c @ [b], c_qBytes := c_qBytes c + length b, c_accepted := c_accepted c @ [b]\<rparr>"
      have "socks_ok rows cols old k ?c"
        using c(1) False wsState_current [OF c(1)] by (simp add: socks_ok_def)
      moreover have "queue_ok ?c" "dials_ok ?c"
        using c(2,3) room by (simp_all add: queue_ok_def dials_ok_def)
      ultimately have "conn_ok rows cols ?c" by (rule conn_okI)
      with False room show ?thesis by (simp add: sendBytes_def requestConnect_ok)
    qed
  qed
qed

text \<open>Only the newest socket can open.\<close>

lemma opening_current:
  assumes "socks_ok rows cols old k c" "has_ready i {CONNECTING} c"
  shows "i = length old" "k_ready k = CONNECTING"
proof -
  have "k_ready (old ! j) \<in> {CLOSING, CLOSED}" if "j < length old" for j
    using assms(1) that by (simp add: socks_ok_def list_all_length)
  from this [of i] assms show "i = length old"
    by (cases "i < length old") (auto simp: socks_ok_def has_ready_def nth_append)
  with assms show "k_ready k = CONNECTING" by (simp add: socks_ok_def has_ready_def)
qed

lemma open_effect:
  assumes "socks_ok rows cols old k c" "queue_ok c" "has_ready i {CONNECTING} c"
  shows "conn_step g rows cols c (SockOpen i) = set_stat Connected (c\<lparr>c_attempts := 0,
    c_socks := old @ [\<lparr>k_ready = OPEN, k_sent = handshake rows cols (histGot c) @ c_q c, k_input = c_q c,
      k_opened = True\<rparr>], c_q := [], c_qBytes := 0\<rparr>)"
proof -
  note i = opening_current [OF assms(1,3)]
  have c: "c_socks c = old @ [k]" "c_ws c = Some (length old)" using assms(1) by (simp_all add: socks_ok_def)
  have k: "k = \<lparr>k_ready = CONNECTING, k_sent = [], k_input = [], k_opened = False\<rparr>"
    using assms(1) i by (cases k) (auto simp: socks_ok_def sock_ok_def)
  have got: "histGot (c\<lparr>c_socks := x, c_attempts := 0\<rparr>) = histGot c" for x by (simp add: histGot_def)
  show ?thesis
    using assms(2,3) c i(1) k
    by (simp add: onopen_def set_ready_def upd_sock_def sock_send_def Let_def histGot_def
        flushQ_open [where old = old] handshake_def queue_ok_def)
qed

lemma open_ok:
  assumes "conn_ok rows cols c"
  shows "conn_ok rows cols (conn_step g rows cols c (SockOpen i))"
proof (cases "has_ready i {CONNECTING} c")
  case True
  from assms obtain old k where c: "socks_ok rows cols old k c" "queue_ok c" "dials_ok c" by (rule conn_okE)
  note i = opening_current [OF c(1) True]
  let ?k = "\<lparr>k_ready = OPEN, k_sent = handshake rows cols (histGot c) @ c_q c, k_input = c_q c, k_opened = True\<rparr>"
  let ?c = "c\<lparr>c_attempts := 0, c_socks := old @ [?k], c_q := [], c_qBytes := 0\<rparr>"
  have "k_input k = []" using c(1) i by (simp add: socks_ok_def sock_ok_def)
  then have "socks_ok rows cols old ?k ?c"
    using c(1) by (cases "histGot c") (simp_all add: socks_ok_def sock_ok_def)
  moreover have "queue_ok ?c" "dials_ok ?c" using c(2,3) by (simp_all add: queue_ok_def dials_ok_def)
  ultimately have "conn_ok rows cols ?c" by (rule conn_okI)
  then show ?thesis by (simp add: open_effect [OF c(1,2) True] del: conn_step.simps)
qed (simp add: assms)

text \<open>A socket that starts closing or is closed.\<close>

lemma set_ready_ok:
  assumes "conn_ok rows cols c" "i < length (c_socks c)" "r \<in> {CLOSING, CLOSED}"
    "k_ready (c_socks c ! i) \<in> {CONNECTING, OPEN, CLOSING}"
  shows "conn_ok rows cols (set_ready i r c)"
proof -
  from assms(1) obtain old k where c: "socks_ok rows cols old k c" "queue_ok c" "dials_ok c" by (rule conn_okE)
  have rest: "queue_ok (set_ready i r c)" "dials_ok (set_ready i r c)"
    using c(2,3) by (simp_all add: queue_ok_def dials_ok_def set_ready_def upd_sock_def)
  have ok: "sock_ok rows cols (h\<lparr>k_ready := r, k_opened := k_opened h \<or> r = OPEN\<rparr>)"
    if "sock_ok rows cols h" for h
    using that assms(3) by (auto simp: sock_ok_def)
  show ?thesis
  proof (cases "i < length old")
    case True
    let ?h = "(old ! i)\<lparr>k_ready := r, k_opened := k_opened (old ! i) \<or> r = OPEN\<rparr>"
    have "old ! i \<in> set old" using True by simp
    with c(1) ok have "sock_ok rows cols ?h" by (auto simp: socks_ok_def list_all_iff)
    moreover have "map k_input (old[i := ?h]) = map k_input old"
      using True by (simp add: map_update list_update_same_conv)
    ultimately have "socks_ok rows cols (old[i := ?h]) k (set_ready i r c)"
      using c(1) True assms(3)
      by (auto simp: socks_ok_def set_ready_def upd_sock_def list_all_iff nth_append list_update_append
          dest!: set_update_subset_insert [THEN subsetD])
    then show ?thesis using rest by (rule conn_okI)
  next
    case False
    then have i: "i = length old" using assms(2) c(1) by (simp add: socks_ok_def)
    have "socks_ok rows cols old (k\<lparr>k_ready := r, k_opened := k_opened k \<or> r = OPEN\<rparr>) (set_ready i r c)"
      using c(1) i ok assms(3) by (auto simp: socks_ok_def set_ready_def upd_sock_def)
    then show ?thesis using rest by (rule conn_okI)
  qed
qed

lemma handlers_ok [simp]:
  "conn_ok rows cols (onmessage g i now d c) = conn_ok rows cols c"
  "conn_ok rows cols (onclose i c) = conn_ok rows cols c"
  "conn_ok rows cols (onerror i c) = conn_ok rows cols c"
  "conn_ok rows cols (semi_result r c) = conn_ok rows cols c"
  by (simp_all add: step_defs
      split: option.splits sa_message.splits)

lemma conn_step_ok: "conn_ok rows cols c \<Longrightarrow> conn_ok rows cols (conn_step g rows cols c v)"
proof (cases v)
  case (Elapse n)
  assume "conn_ok rows cols c"
  with Elapse show ?thesis
    by (auto simp: conn_ok_def socks_ok_def queue_ok_def dials_ok_def)
next
  case (SockOpen i)
  assume "conn_ok rows cols c"
  with SockOpen show ?thesis using open_ok by simp
next
  case (SockClosing i)
  assume "conn_ok rows cols c"
  with SockClosing show ?thesis by (auto simp: has_ready_def intro!: set_ready_ok)
next
  case (SockClose i f)
  assume "conn_ok rows cols c"
  with SockClose show ?thesis by (auto simp: has_ready_def Let_def intro!: set_ready_ok)
qed (simp_all add: sendBytes_ok step_defs requestConnect_ok
    split: option.splits page_event.splits sa_message.splits)

lemma conn_init_ok: "conn_ok rows cols (conn_init d now)"
  by (rule conn_okI [where old = "[]" and k = new_socket])
     (simp_all add: conn_init_def connect_def socks_ok_def new_socket_ok queue_ok_def dials_ok_def,
      simp_all add: new_socket_def QMAX_def)

interpretation conn: guarded_system "conn_init d now" "conn_step g rows cols" "conn_ok rows cols"
  for d :: data_path and now :: int and g :: page_env and rows cols :: int
  by unfold_locales (rule conn_init_ok, rule conn_step_ok)

section \<open>Properties of the data line\<close>

abbreviation page_run :: "page_env \<Rightarrow> int \<Rightarrow> int \<Rightarrow> data_path \<Rightarrow> int \<Rightarrow> conn_event list \<Rightarrow> conn" where
  "page_run g rows cols d now vs \<equiv> run (conn_step g rows cols) (conn_init d now) vs"

lemma page_run_ok:
  obtains old k where "socks_ok rows cols old k (page_run g rows cols d now vs)"
    "queue_ok (page_run g rows cols d now vs)" "dials_ok (page_run g rows cols d now vs)"
  using conn.inv_run by (rule conn_okE)

text \<open>No input is lost, doubled or reordered on the way to the sockets: what \<^verbatim>\<open>sendBytes\<close>
  accepted is what was sent as input on the sockets, oldest socket first, followed by what
  still waits in the queue.\<close>

lemma input_fifo:
  "let c = page_run g rows cols d now vs
   in concat (map k_input (c_socks c)) @ c_q c = c_accepted c"
  by (rule page_run_ok [of rows cols g d now vs]) (simp add: socks_ok_def Let_def)

text \<open>The queue's byte count is exact and never above \<^verbatim>\<open>QMAX\<close>, and nothing is queued
  while the current socket is open.\<close>

lemma queue_bounded:
  "let c = page_run g rows cols d now vs
   in c_qBytes c = sum_list (map length (c_q c)) \<and> c_qBytes c \<le> QMAX \<and>
      \<not> (wsState c = 1 \<and> c_q c \<noteq> [])"
proof (rule page_run_ok [of rows cols g d now vs])
  fix old k
  assume c: "socks_ok rows cols old k (page_run g rows cols d now vs)" "queue_ok (page_run g rows cols d now vs)"
  from wsState_current [OF c(1)] c show ?thesis by (auto simp: queue_ok_def Let_def socks_ok_def)
qed

text \<open>Every socket that was ever open was sent exactly one handshake (the v2 greeting, at
  most one request for no history, one size request), before any input; a socket that was
  never open was sent nothing.\<close>

lemma handshake_once_per_socket:
  "list_all (\<lambda>k. if k_opened k then \<exists>got. k_sent k = handshake rows cols got @ k_input k else k_sent k = [])
     (c_socks (page_run g rows cols d now vs))"
proof (rule page_run_ok [of rows cols g d now vs])
  fix old k
  assume "socks_ok rows cols old k (page_run g rows cols d now vs)"
  moreover have "if k_opened h then \<exists>got. k_sent h = handshake rows cols got @ k_input h else k_sent h = []"
    if "sock_ok rows cols h" for h
    using that by (auto simp: sock_ok_def split: if_splits)
  ultimately show ?thesis by (auto simp: socks_ok_def list_all_iff)
qed

text \<open>C29. There is never more than one socket that is connecting or open.\<close>

theorem one_live_socket:
  "length (filter (\<lambda>k. k_ready k = CONNECTING \<or> k_ready k = OPEN) (c_socks (page_run g rows cols d now vs))) \<le> 1"
proof (rule page_run_ok [of rows cols g d now vs])
  fix old k
  assume s: "socks_ok rows cols old k (page_run g rows cols d now vs)"
  then have "filter (\<lambda>k. k_ready k = CONNECTING \<or> k_ready k = OPEN) old = []"
    by (auto simp: socks_ok_def list_all_iff filter_empty_conv)
  with s show ?thesis by (simp add: socks_ok_def)
qed

text \<open>Whatever asks for connections, two that follow each other are at least the backoff
  apart: one second, doubled for every attempt since a socket opened, 30 seconds at most.\<close>

lemma dials_respect_backoff:
  "successively (\<lambda>d d'. fst d + min 30000 (1000 * 2 ^ snd d') \<le> fst d' \<and> snd d' \<in> {0, snd d + 1})
     (c_dials (page_run g rows cols d now vs))"
  by (rule page_run_ok [of rows cols g d now vs])
     (auto simp: dials_ok_def dial_gap_def backoff_def elim!: successively_mono)

text \<open>When a connecting socket opens, the handshake and then the whole queue are sent on it
  in order, and the queue is empty and the backoff reset. History is refused exactly when the
  page has it.\<close>

lemma open_sends_handshake_and_queue:
  assumes "has_ready i {CONNECTING} (page_run g rows cols d now vs)"
  shows "let c = page_run g rows cols d now vs; c' = conn_step g rows cols c (SockOpen i)
    in c_ws c = Some i \<and> k_ready (c_socks c' ! i) = OPEN \<and>
       k_sent (c_socks c' ! i) =
         [HELLO_V2] @ (if histGot c then [HELLO_V2_NOHIST] else []) @ [resizeFrame rows cols] @ c_q c \<and>
       c_q c' = [] \<and> c_qBytes c' = 0 \<and> c_attempts c' = 0"
proof (rule page_run_ok [of rows cols g d now vs])
  fix old k
  assume c: "socks_ok rows cols old k (page_run g rows cols d now vs)" "queue_ok (page_run g rows cols d now vs)"
  note i = opening_current(1) [OF c(1) assms]
  from c(1) show ?thesis
    by (simp add: i open_effect [OF c assms [unfolded i]] Let_def set_stat_def handshake_def socks_ok_def
        del: conn_step.simps)
qed

text \<open>An event of a socket that is not the current one changes nothing but that socket's
  own state: no message of it reaches the terminal, its end neither touches the status line
  nor starts a retry.\<close>

lemma stale_socket_ignored:
  assumes "c_ws c \<noteq> Some i"
  shows "conn_step g rows cols c (SockMessage i t data) = c \<and>
    conn_step g rows cols c (SockClose i failed) =
      (if has_ready i {CONNECTING, OPEN, CLOSING} c then set_ready i CLOSED c else c) \<and>
    conn_step g rows cols c (SockOpen i) = (if has_ready i {CONNECTING} c then set_ready i OPEN c else c)"
  using assms
  by (simp add: onmessage_def onclose_def onerror_def onopen_def set_ready_def upd_sock_def Let_def)

text \<open>A watch tick connects exactly when the page is visible, the session active, the
  current socket neither connecting nor open and the backoff over, and otherwise does nothing.\<close>

lemma watch_tick_connects_iff:
  "watch_tick visible c =
     (if visible \<and> c_active c \<and> wsState c \<noteq> 0 \<and> wsState c \<noteq> 1 \<and>
         c_now c - c_last c \<ge> min 30000 (1000 * 2 ^ c_attempts c)
      then connect (set_stat (Reconnecting ByWatch)
             (c\<lparr>c_attempts := c_attempts c + 1, c_last := c_now c,
                c_dials := c_dials c @ [(c_now c, c_attempts c)]\<rparr>))
      else c)"
  by (auto simp: watch_tick_def cmWatchGate_def requestConnect_def cmReconnectGate_def Let_def backoff_def)

text \<open>The events of a page in the background that nobody types on.\<close>

fun unattended :: "conn_event \<Rightarrow> bool" where
  "unattended (Input b) = False"
| "unattended (Snapshot d) = False"
| "unattended (WatchTick v) = (\<not> v)"
| "unattended (Visibility v) = (\<not> v)"
| "unattended v = True"

definition idle :: "conn \<Rightarrow> bool" where
  "idle c \<longleftrightarrow> c_q c = [] \<and> c_timers c = []"

lemma upd_sock_frame [simp]:
  "c_q (upd_sock i f c) = c_q c" "c_timers (upd_sock i f c) = c_timers c" "c_dials (upd_sock i f c) = c_dials c"
  "c_q (set_ready i r c) = c_q c" "c_timers (set_ready i r c) = c_timers c" "c_dials (set_ready i r c) = c_dials c"
  "c_q (sock_send i b c) = c_q c" "c_timers (sock_send i b c) = c_timers c" "c_dials (sock_send i b c) = c_dials c"
  "c_q (set_stat st c) = c_q c" "c_timers (set_stat st c) = c_timers c" "c_dials (set_stat st c) = c_dials c"
  by (simp_all add: upd_sock_def set_ready_def sock_send_def set_stat_def)

lemma unattended_step:
  "idle c \<Longrightarrow> unattended v \<Longrightarrow>
   idle (conn_step g rows cols c v) \<and> c_dials (conn_step g rows cols c v) = c_dials c"
  by (cases v)
     (auto simp: idle_def onopen_def flushQ.simps step_defs
       split: page_event.splits option.splits sa_message.splits)

text \<open>A page nobody looks at costs nothing: with no input waiting and no retry timer set, no
  number of ticks in the background, socket events, messages or terminal events makes it
  connect.\<close>

lemma unattended_page_never_connects:
  assumes "idle c" "list_all unattended vs"
  shows "c_dials (run (conn_step g rows cols) c vs) = c_dials c"
  using assms
proof (induction vs arbitrary: c)
  case (Cons v vs)
  with unattended_step [of c v g rows cols] show ?case by simp
qed simp

section \<open>The retry of queued input\<close>

text \<open>With every socket closed and no timer set, only a user, a document or a visible tick can
  connect again.\<close>

definition dead :: "conn \<Rightarrow> bool" where
  "dead c \<longleftrightarrow> c_timers c = [] \<and> list_all (\<lambda>k. k_ready k = CLOSED) (c_socks c)"





lemmas conn_exec = conn_init_def connect_def new_socket_def sendBytes_def requestConnect_def
  cmReconnectGate_def backoff_def wsState_def set_stat_def has_ready_def set_ready_def upd_sock_def
  onclose_def onerror_def retry_timer_def remove_nth_def on_term_def QMAX_def Let_def



text \<open>Whatever happened before, a visible page of an active session whose current socket is
  closed connects with the next watch tick that is 30 seconds or more later.\<close>

lemma watched_page_reconnects:
  assumes "c_active (page_run g rows cols d now vs)"
    "wsState (page_run g rows cols d now vs) = 3" "n \<ge> 30000"
  shows "wsState (page_run g rows cols d now (vs @ [Elapse n, WatchTick True])) = 0"
proof (rule page_run_ok [of rows cols g d now vs])
  let ?c = "page_run g rows cols d now vs"
  assume "dials_ok ?c"
  then have "c_last ?c \<le> c_now ?c" by (simp add: dials_ok_def)
  moreover have "backoff (c_attempts ?c) \<le> 30000" by (simp add: backoff_def)
  ultimately have "\<not> c_now ?c + int n - c_last ?c < backoff (c_attempts ?c)" using assms(3) by linarith
  with assms show ?thesis
    by (simp add: run_append watch_tick_def cmWatchGate_def requestConnect_def cmReconnectGate_def Let_def)
       (simp add: connect_def wsState_def set_stat_def new_socket_def)
qed

text \<open>A snapshot without data (the session's document was deleted) leaves the session active, so the
  watch goes on connecting to a session that has ended.\<close>

lemma deleted_session_stays_active:
  "c_active (conn_step g rows cols c (Snapshot None)) = c_active c"
  by (simp add: onSnapshot_def requestConnect_def connect_def set_stat_def Let_def)

section \<open>The terminal behind the line\<close>

text \<open>The log invariant of \<open>Terminal\<close> holds whatever the sockets do.\<close>

definition conn_log_ok :: "conn \<Rightarrow> bool" where
  "conn_log_ok c \<longleftrightarrow> log_ok (snd (snd (c_path c)))"

lemma path_frame [simp]:
  "c_path (upd_sock i f c) = c_path c" "c_path (set_ready i r c) = c_path c"
  "c_path (sock_send i b c) = c_path c" "c_path (send_input b c) = c_path c"
  by (simp_all add: upd_sock_def set_ready_def sock_send_def send_input_def split: option.splits)

lemma path_flushQ [simp]: "c_path (flushQ c) = c_path c"
proof (induction c rule: flushQ.induct)
  case (1 c)
  then show ?case by (simp add: flushQ.simps [of c] Let_def)
qed

lemma conn_log_stat [simp]: "conn_log_ok (set_stat st c) = conn_log_ok c"
  by (simp add: conn_log_ok_def set_stat_def on_term_def log_ok_def)

lemma conn_log_path: "c_path c = c_path c' \<Longrightarrow> conn_log_ok c = conn_log_ok c'"
  by (simp add: conn_log_ok_def)

lemma conn_log_fields [simp]:
  "conn_log_ok (c\<lparr>c_attempts := a\<rparr>) = conn_log_ok c" "conn_log_ok (c\<lparr>c_timers := t\<rparr>) = conn_log_ok c"
  "conn_log_ok (c\<lparr>c_semi := m\<rparr>) = conn_log_ok c" "conn_log_ok (c\<lparr>c_now := n\<rparr>) = conn_log_ok c"
  "conn_log_ok (set_ready i r c) = conn_log_ok c" "conn_log_ok (sock_send i b c) = conn_log_ok c"
  "conn_log_ok (send_input b c) = conn_log_ok c" "conn_log_ok (flushQ c) = conn_log_ok c"
  by (simp_all add: conn_log_ok_def)

lemma conn_log_requestConnect [simp]: "conn_log_ok (requestConnect why c) = conn_log_ok c"
  by (simp add: requestConnect_def connect_def conn_log_ok_def new_path_def set_stat_def on_term_def
      log_ok_def Let_def)

lemma conn_log_sendBytes: "conn_log_ok (snd (sendBytes b c)) = conn_log_ok c"
proof -
  have "conn_log_ok (c\<lparr>c_accepted := x\<rparr>) = conn_log_ok c"
    "conn_log_ok (c\<lparr>c_q := q, c_qBytes := n, c_accepted := x\<rparr>) = conn_log_ok c" for q n x
    by (simp_all add: conn_log_ok_def)
  then show ?thesis by (simp add: sendBytes_def)
qed

lemma conn_log_on_data:
  "conn_log_ok c \<Longrightarrow> conn_log_ok (c\<lparr>c_path := on_data g now (c_path c) b\<rparr>)"
  using log_ok_step [of "c_path c" g "Message now b"] by (simp add: conn_log_ok_def)

lemma conn_log_page_step:
  "conn_log_ok c \<Longrightarrow> conn_log_ok (c\<lparr>c_path := page_step g (c_path c) v\<rparr>)"
  using log_ok_step [of "c_path c" g v] by (simp add: conn_log_ok_def)

lemma conn_log_doc:
  "conn_log_ok (c\<lparr>c_active := v, c_imageOK := w, c_semi := m\<rparr>) = conn_log_ok c"
  "conn_log_ok (c\<lparr>c_active := v, c_imageOK := w\<rparr>) = conn_log_ok c"
  by (simp_all add: conn_log_ok_def)

lemma conn_log_step: "conn_log_ok c \<Longrightarrow> conn_log_ok (conn_step g rows cols c v)"
proof (cases v)
  case (Page w)
  assume "conn_log_ok c"
  with Page conn_log_page_step [of c g w] show ?thesis by (cases w) simp_all
qed (simp_all add: step_defs onopen_def conn_log_sendBytes conn_log_doc conn_log_on_data del: page_step.simps
    split: option.splits sa_message.splits)

interpretation conn_page: guarded_system "conn_init (page_init cols rows h) now" "conn_step g rows cols" conn_log_ok
  for cols rows :: int and h :: rat and now :: int and g :: page_env
proof unfold_locales
  show "conn_log_ok (conn_init (page_init cols rows h) now)"
    by (simp add: conn_log_ok_def conn_init_def connect_def new_path_def page_init_def term_init_def log_ok_def)
qed (rule conn_log_step)

text \<open>Whatever the sockets, the producer, the user and the timers do, over all connections of the
  page: the terminal is reset at most once and never before a history arrived, its scrollback is
  enabled exactly when the page enters wire v2 and only once, and the page counts as painted
  exactly when something was written.\<close>

lemma terminal_reset_at_most_once:
  "let e = snd (snd (c_path (page_run g rows cols (page_init cols rows h) now vs)))
   in count_list (e_log e) TReset \<le> (if e_histGot e then 1 else 0) \<and>
      count_list (e_log e) (TScrollback 5000) = (if e_v2 e then 1 else 0) \<and>
      e_painted e = (\<exists>b. TWrite b \<in> set (e_log e))"
  using conn_page.inv_run [where es = vs] by (simp only: conn_log_ok_def log_ok_def Let_def)

section \<open>Witnesses\<close>

abbreviation demo_env :: page_env where
  "demo_env \<equiv> \<lparr>g_fontOverride = 0, g_measure = (\<lambda>_ _. 0), g_reflow = (\<lambda>_ _ b. b)\<rparr>"

lemma open_sends_handshake_and_queue_witness:
  "has_ready 0 {CONNECTING} (page_run demo_env 500 160 (page_init 160 500 0) 0 [Input [0x61]]) \<and>
   c_q (conn_step demo_env 500 160 (page_run demo_env 500 160 (page_init 160 500 0) 0 [Input [0x61]]) (SockOpen 0)) = []"
proof -
  have h: "has_ready 0 {CONNECTING} (page_run demo_env 500 160 (page_init 160 500 0) 0 [Input [0x61]])"
    by (simp add: conn_exec)
  from open_sends_handshake_and_queue [OF this] h show ?thesis by (simp only: Let_def simp_thms)
qed

lemma stale_socket_ignored_witness:
  "c_ws (conn_init (page_init 160 500 0) 0) \<noteq> Some 7 \<and>
   conn_step demo_env 500 160 (conn_init (page_init 160 500 0) 0) (SockMessage 7 0 [1]) =
     conn_init (page_init 160 500 0) 0"
proof -
  have "c_ws (conn_init (page_init 160 500 0) 0) \<noteq> Some 7" by (simp add: conn_init_def connect_def)
  with stale_socket_ignored [OF this] show ?thesis by (simp only: simp_thms)
qed

lemma unattended_page_never_connects_witness:
  "idle (conn_init (page_init 160 500 0) 0) \<and>
   c_dials (run (conn_step demo_env 500 160) (conn_init (page_init 160 500 0) 0)
     [SockClose 0 False, Elapse 60000, WatchTick False]) = [(0, 0)]"
proof -
  have i: "idle (conn_init (page_init 160 500 0) 0)" by (simp add: idle_def conn_init_def connect_def)
  have "list_all unattended [SockClose 0 False, Elapse 60000, WatchTick False]" by simp
  from unattended_page_never_connects [OF i this] i show ?thesis
    by (simp only: simp_thms) (simp add: conn_init_def connect_def)
qed

lemma watched_page_reconnects_witness:
  "wsState (page_run demo_env 500 160 (page_init 160 500 0) 0
     ([Snapshot (Some \<lparr>y_is_active = True, y_image_paste = False, y_semi_auto = False\<rparr>), SockClose 0 False]
      @ [Elapse 30000, WatchTick True])) = 0"
  by (rule watched_page_reconnects) (simp_all add: conn_exec onSnapshot_def)

end
