(* ===== verification/Query.thy ===== *)
theory Query
  imports JsRuntime
begin

text \<open>
  Percent-encoding and query strings, the part of the URL and form machinery of the browser
  that the scripts rely on: \<^verbatim>\<open>encodeURIComponent\<close>, \<^verbatim>\<open>new URLSearchParams(string).get\<close>
  and \<^verbatim>\<open>new URLSearchParams(object).toString()\<close>, on UTF-8 bytes.
\<close>

section \<open>Percent-encoding\<close>

definition hex_digit :: "nat \<Rightarrow> char" where
  "hex_digit n = ''0123456789ABCDEF'' ! n"

definition pct :: "char \<Rightarrow> string" where
  "pct c = [CHR ''%'', hex_digit (of_char c div 16), hex_digit (of_char c mod 16)]"

definition alnum :: string where
  "alnum = ''ABCDEFGHIJKLMNOPQRSTUVWXYZabcdefghijklmnopqrstuvwxyz0123456789''"

definition uri_kept :: string where
  "uri_kept = alnum @ [CHR ''-'', CHR ''_'', CHR ''.'', CHR ''!'', CHR ''~'', CHR ''*'', CHR 0x27, CHR ''('', CHR '')'']"

definition encodeURIComponent :: "string \<Rightarrow> string" where
  "encodeURIComponent s = concat (map (\<lambda>c. if c \<in> set uri_kept then [c] else pct c) s)"

text \<open>One value of \<^verbatim>\<open>application/x-www-form-urlencoded\<close>.\<close>

definition form_kept :: string where
  "form_kept = alnum @ ''*-._''"

definition form_encode :: "string \<Rightarrow> string" where
  "form_encode s =
     concat (map (\<lambda>c. if c = CHR '' '' then ''+'' else if c \<in> set form_kept then [c] else pct c) s)"

definition hex_value :: "char \<Rightarrow> nat option" where
  "hex_value c =
     (let n = of_char c in
      if 48 \<le> n \<and> n \<le> 57 then Some (n - 48)
      else if 65 \<le> n \<and> n \<le> 70 then Some (n - 55)
      else if 97 \<le> n \<and> n \<le> 102 then Some (n - 87)
      else None)"

fun percent_decode :: "string \<Rightarrow> string" where
  "percent_decode (c # a # b # s) =
     (if c = CHR ''%''
      then (case (hex_value a, hex_value b) of
              (Some x, Some y) \<Rightarrow> char_of (16 * x + y) # percent_decode s
            | _ \<Rightarrow> c # percent_decode (a # b # s))
      else c # percent_decode (a # b # s))"
| "percent_decode s = s"

definition form_decode :: "string \<Rightarrow> string" where
  "form_decode s = percent_decode (map (\<lambda>c. if c = CHR ''+'' then CHR '' '' else c) s)"

section \<open>Queries\<close>

text \<open>The parser: pieces between \<^verbatim>\<open>&\<close>, empty ones skipped, each cut at its first \<^verbatim>\<open>=\<close>.\<close>

definition query_pair :: "string \<Rightarrow> string \<times> string" where
  "query_pair p =
     (case str_indexOf p ''='' of
        None \<Rightarrow> (form_decode p, [])
      | Some i \<Rightarrow> (form_decode (take i p), form_decode (drop (Suc i) p)))"

definition query_parse :: "string \<Rightarrow> (string \<times> string) list" where
  "query_parse q = map query_pair (filter (\<lambda>p. p \<noteq> []) (str_split (CHR ''&'') q))"

text \<open>\<^verbatim>\<open>get\<close>: the first value, \<open>None\<close> for \<^verbatim>\<open>null\<close>.\<close>

definition query_get :: "string \<Rightarrow> string \<Rightarrow> string option" where
  "query_get q k = map_of (query_parse q) k"

text \<open>\<^verbatim>\<open>toString\<close> of the parameters of an object.\<close>

definition form_body :: "(string \<times> string) list \<Rightarrow> string" where
  "form_body kvs = str_join (CHR ''&'') (map (\<lambda>kv. form_encode (fst kv) @ CHR ''='' # form_encode (snd kv)) kvs)"

section \<open>Round trips\<close>

lemma of_char_less_256: "(of_char c :: nat) < 256"
  using nat_of_char_less_256 [of c] by simp

lemma hex_digits: "list_all (\<lambda>n. hex_value (hex_digit n) = Some n) [0..<16]"
  by code_simp

lemma hex_value_digit: "n < 16 \<Longrightarrow> hex_value (hex_digit n) = Some n"
  using hex_digits by (simp add: list_all_iff)

lemma hex_digit_cases: "n < 16 \<Longrightarrow> hex_digit n \<in> set ''0123456789ABCDEF''"
  unfolding hex_digit_def by (rule nth_mem) simp

lemma percent_decode_pct: "percent_decode (pct c @ s) = c # percent_decode s"
proof -
  have "of_char c div 16 < (16::nat)" using of_char_less_256 [of c] by linarith
  then show ?thesis
    by (simp add: pct_def hex_value_digit mult.commute [of 16])
qed

lemma percent_decode_other: "c \<noteq> CHR ''%'' \<Longrightarrow> percent_decode (c # s) = c # percent_decode s"
  by (cases "(c # s)" rule: percent_decode.cases) auto

text \<open>What stands in an encoded string.\<close>

definition enc_chars :: string where
  "enc_chars = uri_kept @ ''%+''"

lemma pct_chars: "set (pct c) \<subseteq> set (CHR ''%'' # alnum) "
proof -
  have "of_char c div 16 < (16::nat)" "of_char c mod 16 < (16::nat)"
    using of_char_less_256 [of c] by linarith+
  from this [THEN hex_digit_cases] show ?thesis by (auto simp: pct_def alnum_def)
qed

lemma form_kept_uri: "set form_kept \<subseteq> set uri_kept"
  by (simp add: form_kept_def uri_kept_def alnum_def)

lemma encoded_chars:
  "set (encodeURIComponent s) \<subseteq> set enc_chars" "set (form_encode s) \<subseteq> set enc_chars"
  using pct_chars form_kept_uri
  by (fastforce simp: encodeURIComponent_def form_encode_def enc_chars_def uri_kept_def split: if_splits)+

lemma enc_chars_plain: "CHR ''&'' \<notin> set enc_chars" "CHR ''='' \<notin> set enc_chars" "CHR ''?'' \<notin> set enc_chars"
  "CHR ''#'' \<notin> set enc_chars"
  by (simp_all add: enc_chars_def uri_kept_def alnum_def)

lemma encoded_plain:
  "c \<in> set ''&=?#'' \<Longrightarrow> c \<notin> set (encodeURIComponent s) \<and> c \<notin> set (form_encode s)"
  using encoded_chars [of s] enc_chars_plain by auto

lemma plus_kept: "CHR ''+'' \<notin> set uri_kept" "CHR ''%'' \<notin> set uri_kept" "CHR '' '' \<notin> set uri_kept"
  by (simp_all add: uri_kept_def alnum_def)

lemma no_plus_pct: "map (\<lambda>c. if c = CHR ''+'' then CHR '' '' else c) (pct c) = pct c"
proof -
  have "CHR ''+'' \<notin> set (pct c)" using pct_chars [of c] by (auto simp: alnum_def)
  then show ?thesis by (auto intro: map_idI)
qed

lemma form_decode_append_pct: "form_decode (pct c @ s) = c # form_decode s"
  by (simp add: form_decode_def no_plus_pct percent_decode_pct)

lemma form_decode_Cons: "c \<noteq> CHR ''%'' \<Longrightarrow> c \<noteq> CHR ''+'' \<Longrightarrow> form_decode (c # s) = c # form_decode s"
  by (simp add: form_decode_def percent_decode_other)

lemma form_decode_encodeURIComponent: "form_decode (encodeURIComponent s) = s"
proof (induction s)
  case (Cons c s)
  have "encodeURIComponent (c # s) = (if c \<in> set uri_kept then [c] else pct c) @ encodeURIComponent s"
    by (simp add: encodeURIComponent_def)
  moreover have "c \<noteq> CHR ''%''" "c \<noteq> CHR ''+''" if "c \<in> set uri_kept"
    using that plus_kept by auto
  ultimately show ?case
    using Cons by (cases "c \<in> set uri_kept") (auto simp: form_decode_append_pct form_decode_Cons)
qed (simp add: encodeURIComponent_def form_decode_def)

lemma form_decode_encode: "form_decode (form_encode s) = s"
proof (induction s)
  case (Cons c s)
  have step: "form_encode (c # s) =
      (if c = CHR '' '' then ''+'' else if c \<in> set form_kept then [c] else pct c) @ form_encode s"
    by (simp add: form_encode_def)
  have "form_decode (CHR ''+'' # form_encode s) = CHR '' '' # form_decode (form_encode s)"
    by (simp add: form_decode_def percent_decode_other)
  moreover have "c \<noteq> CHR ''%''" "c \<noteq> CHR ''+''" if "c \<in> set form_kept"
    using that form_kept_uri plus_kept by auto
  ultimately show ?case
    using Cons by (auto simp: step form_decode_append_pct form_decode_Cons)
qed (simp add: form_encode_def form_decode_def)

lemma query_pair_encoded:
  "query_pair (encodeURIComponent k @ CHR ''='' # encodeURIComponent v) = (k, v)"
  "query_pair (form_encode k @ CHR ''='' # form_encode v) = (k, v)"
  by (simp_all add: query_pair_def str_indexOf_char encoded_plain form_decode_encodeURIComponent form_decode_encode)

text \<open>A query of encoded pairs; the keys of the scripts are plain words.\<close>

definition uri_query :: "(string \<times> string) list \<Rightarrow> string" where
  "uri_query kvs =
     str_join (CHR ''&'') (map (\<lambda>kv. encodeURIComponent (fst kv) @ CHR ''='' # encodeURIComponent (snd kv)) kvs)"

lemma query_parse_join:
  assumes "ps \<noteq> []" "\<And>p. p \<in> set ps \<Longrightarrow> p \<noteq> [] \<and> CHR ''&'' \<notin> set p"
  shows "query_parse (str_join (CHR ''&'') ps) = map query_pair ps"
proof -
  have "str_split (CHR ''&'') (str_join (CHR ''&'') ps) = ps"
    using assms by (intro str_split_join) auto
  moreover have "filter (\<lambda>p. p \<noteq> []) ps = ps" using assms(2) by (auto simp: filter_id_conv)
  ultimately show ?thesis by (simp add: query_parse_def)
qed

lemma query_parse_uri: "kvs \<noteq> [] \<Longrightarrow> query_parse (uri_query kvs) = kvs"
  unfolding uri_query_def
  by (subst query_parse_join) (auto simp: query_pair_encoded encoded_plain intro!: map_idI)

lemma query_parse_form: "kvs \<noteq> [] \<Longrightarrow> query_parse (form_body kvs) = kvs"
  unfolding form_body_def
  by (subst query_parse_join) (auto simp: query_pair_encoded encoded_plain intro!: map_idI)

end
