(* ===== verification/Console.thy ===== *)
theory Console
  imports Query Frames
begin

text \<open>
  The consoles of the account and the links between them (\<^verbatim>\<open>web/static/term.js\<close>): the page's
  parameters read from its query, the list of consoles from the API, the URL of a console,
  and the buttons that move to the next and the previous one. The API is a parameter: what a
  GET of a URL returns.
\<close>

section \<open>The page's parameters\<close>

record page_params =
  p_pc :: "string option"
  p_sid :: "string option"
  p_dir :: string
  p_agName :: string
  p_agDisp :: string
  p_qcols :: "string option"
  p_qrows :: "string option"
  p_cols :: int
  p_rows :: int

text \<open>\<^verbatim>\<open>location.search\<close> without its question mark.\<close>

definition location_search :: "string \<Rightarrow> string" where
  "location_search url =
     (let u = takeWhile (\<lambda>c. c \<noteq> CHR ''#'') url in
      case str_indexOf u ''?'' of None \<Rightarrow> [] | Some i \<Rightarrow> drop (Suc i) u)"

text \<open>\<open>generic\<close> is the general name shown for an agent that is not known.\<close>

definition open_page :: "string \<Rightarrow> string \<Rightarrow> page_params" where
  "open_page generic url =
     (let q = location_search url; agName = or_opt (query_get q ''agent'') []
      in \<lparr>p_pc = query_get q ''pc'', p_sid = query_get q ''sid'', p_dir = or_opt (query_get q ''dir'') [],
          p_agName = agName, p_agDisp = or_str agName generic,
          p_qcols = query_get q ''cols'', p_qrows = query_get q ''rows'',
          p_cols = clampNum (query_get q ''cols'') 160, p_rows = clampNum (query_get q ''rows'') 500\<rparr>)"

section \<open>The list of consoles\<close>

datatype 'a fetched = Failed | Json 'a

text \<open>\<^verbatim>\<open>jget\<close> of the terminal page: any status but success throws.\<close>

definition term_jget :: "'a response \<Rightarrow> 'a fetched" where
  "term_jget r =
     (case r of NoResponse \<Rightarrow> Failed | Response n j \<Rightarrow> if \<not> ok_status n then Failed else Json j)"

text \<open>A session of the API; an absent field is \<open>None\<close>.\<close>

record api_session =
  j_key :: string
  j_short_dir :: "string option"
  j_agent :: "string option"

record console =
  n_pc :: string
  n_sid :: string
  n_dir :: string
  n_agent :: string

definition sessions_url :: "string \<Rightarrow> string" where
  "sessions_url pc = ''/api/sessions?pc='' @ encodeURIComponent pc"

definition session_dir :: "api_session \<Rightarrow> string" where
  "session_dir x = or_opt (j_short_dir x) (or_str (j_key x) ''session'')"

definition console_of :: "string \<Rightarrow> api_session \<Rightarrow> console" where
  "console_of pc x =
     \<lparr>n_pc = pc, n_sid = j_key x, n_dir = session_dir x, n_agent = or_opt (j_agent x) []\<rparr>"

fun collect_consoles :: "(string \<Rightarrow> api_session list option response) \<Rightarrow> string list \<Rightarrow> console list fetched" where
  "collect_consoles get [] = Json []"
| "collect_consoles get (d # ds) =
     (case term_jget (get (sessions_url d)) of
        Failed \<Rightarrow> Failed
      | Json ss \<Rightarrow>
          (case collect_consoles get ds of
             Failed \<Rightarrow> Failed
           | Json rest \<Rightarrow> Json (map (console_of d) (case ss of None \<Rightarrow> [] | Some xs \<Rightarrow> xs) @ rest)))"

definition buildConsoleList ::
    "string list response \<Rightarrow> (string \<Rightarrow> api_session list option response) \<Rightarrow> console list fetched" where
  "buildConsoleList devs get = (case term_jget devs of Failed \<Rightarrow> Failed | Json ds \<Rightarrow> collect_consoles get ds)"

section \<open>The URL of a console\<close>

definition url_part :: "string \<Rightarrow> string \<Rightarrow> string" where
  "url_part k v = CHR ''&'' # k @ CHR ''='' # encodeURIComponent v"

definition termURL :: "page_params \<Rightarrow> console \<Rightarrow> string" where
  "termURL p c =
     ''/term?pc='' @ encodeURIComponent (n_pc c) @ url_part ''sid'' (n_sid c) @ url_part ''dir'' (n_dir c) @
     (if n_agent c \<noteq> [] then url_part ''agent'' (n_agent c) else []) @
     (if or_opt (p_qcols p) [] \<noteq> [] then url_part ''cols'' (or_opt (p_qcols p) []) else []) @
     (if or_opt (p_qrows p) [] \<noteq> [] then url_part ''rows'' (or_opt (p_qrows p) []) else [])"

section \<open>The switch buttons\<close>

record switch =
  w_list :: "console list"
  w_idx :: int
  w_disabled :: bool
  w_pos :: "(int \<times> int) option"

fun findIndex :: "('a \<Rightarrow> bool) \<Rightarrow> 'a list \<Rightarrow> int" where
  "findIndex f [] = -1"
| "findIndex f (x # xs) = (if f x then 0 else (let i = findIndex f xs in if i < 0 then -1 else i + 1))"

definition switch_init :: switch where
  "switch_init = \<lparr>w_list = [], w_idx = -1, w_disabled = True, w_pos = None\<rparr>"

text \<open>The answer of \<^verbatim>\<open>buildConsoleList\<close>; a failure leaves the buttons disabled.\<close>

definition switch_loaded :: "page_params \<Rightarrow> console list fetched \<Rightarrow> switch \<Rightarrow> switch" where
  "switch_loaded p l s =
     (case l of
        Failed \<Rightarrow> s
      | Json l \<Rightarrow>
          let idx = findIndex (\<lambda>c. Some (n_pc c) = p_pc p \<and> Some (n_sid c) = p_sid p) l;
              s = s\<lparr>w_list := l, w_idx := idx\<rparr>
          in if length l > 1
             then let s = s\<lparr>w_disabled := False\<rparr>
                  in if idx \<ge> 0 then s\<lparr>w_pos := Some (idx + 1, int (length l))\<rparr> else s
             else s)"

text \<open>\<^verbatim>\<open>go\<close>: where the page goes, if anywhere. \<^verbatim>\<open>%\<close> truncates, but the sum is not negative for
  the steps of the buttons.\<close>

definition go :: "page_params \<Rightarrow> int \<Rightarrow> switch \<Rightarrow> string option" where
  "go p delta s =
     (if w_idx s < 0 \<or> length (w_list s) < 2 then None
      else let n = (w_idx s + delta + int (length (w_list s))) mod int (length (w_list s))
           in Some (termURL p (w_list s ! nat n)))"

text \<open>A press of a button on a page at \<open>url\<close>, once its list is loaded.\<close>

definition press :: "string \<Rightarrow> console list fetched \<Rightarrow> int \<Rightarrow> string \<Rightarrow> string" where
  "press generic l delta url =
     (let p = open_page generic url
      in case go p delta (switch_loaded p l switch_init) of None \<Rightarrow> url | Some u \<Rightarrow> u)"

text \<open>A console that is not in the list: the buttons are enabled and do nothing.\<close>

lemma switch_dead_buttons:
  assumes "findIndex (\<lambda>c. Some (n_pc c) = p_pc p \<and> Some (n_sid c) = p_sid p) l = -1" "length l > 1"
  shows "\<not> w_disabled (switch_loaded p (Json l) s) \<and> go p delta (switch_loaded p (Json l) s) = None"
  using assms by (simp add: switch_loaded_def go_def Let_def)

section \<open>Following a link\<close>

definition term_pairs :: "page_params \<Rightarrow> console \<Rightarrow> (string \<times> string) list" where
  "term_pairs p c =
     [(''pc'', n_pc c), (''sid'', n_sid c), (''dir'', n_dir c)] @
     (if n_agent c \<noteq> [] then [(''agent'', n_agent c)] else []) @
     (if or_opt (p_qcols p) [] \<noteq> [] then [(''cols'', or_opt (p_qcols p) [])] else []) @
     (if or_opt (p_qrows p) [] \<noteq> [] then [(''rows'', or_opt (p_qrows p) [])] else [])"

lemma encode_word: "set k \<subseteq> set uri_kept \<Longrightarrow> encodeURIComponent k = k"
  by (induction k) (auto simp: encodeURIComponent_def)

lemma encode_keys:
  "encodeURIComponent ''pc'' = ''pc''" "encodeURIComponent ''sid'' = ''sid''" "encodeURIComponent ''dir'' = ''dir''"
  "encodeURIComponent ''agent'' = ''agent''" "encodeURIComponent ''cols'' = ''cols''"
  "encodeURIComponent ''rows'' = ''rows''"
  by (rule encode_word; simp add: uri_kept_def alnum_def)+

lemma termURL_query: "termURL p c = ''/term?'' @ uri_query (term_pairs p c)"
  by (simp add: termURL_def term_pairs_def uri_query_def url_part_def encode_keys)

lemma str_join_chars: "x \<in> set (str_join sep ps) \<Longrightarrow> x = sep \<or> (\<exists>p \<in> set ps. x \<in> set p)"
  by (induction sep ps rule: str_join.induct) auto

lemma uri_query_chars: "CHR ''#'' \<notin> set (uri_query kvs)"
  using encoded_plain [of "CHR ''#''"] by (auto simp: uri_query_def dest!: str_join_chars)

lemma search_termURL: "location_search (termURL p c) = uri_query (term_pairs p c)"
proof -
  have "takeWhile (\<lambda>x. x \<noteq> CHR ''#'') (termURL p c) = termURL p c"
    using uri_query_chars [of "term_pairs p c"] unfolding termURL_query
    by (simp add: takeWhile_eq_all_conv) blast
  moreover have "str_indexOf (termURL p c) ''?'' = Some 5"
    using str_indexOf_char [of "CHR ''?''" "''/term''" "uri_query (term_pairs p c)"]
    by (simp add: termURL_query)
  ultimately show ?thesis by (simp add: location_search_def termURL_query)
qed

lemma or_opt_Nil: "or_opt x [] = (case x of None \<Rightarrow> [] | Some v \<Rightarrow> v)"
  by (cases x) (auto simp: or_str_def)

lemma clampNum_empty: "clampNum (Some []) d = clampNum None d"
  by (simp add: clampNum_def js_parseInt_def js_spaces_def is_digit_def)

lemma termURL_opens_console':
  "p_pc (open_page generic (termURL p c)) = Some (n_pc c)"
  "p_sid (open_page generic (termURL p c)) = Some (n_sid c)"
  "p_dir (open_page generic (termURL p c)) = n_dir c"
  "p_agName (open_page generic (termURL p c)) = n_agent c"
  "p_cols (open_page generic (termURL p c)) = clampNum (p_qcols p) 160"
  "p_rows (open_page generic (termURL p c)) = clampNum (p_qrows p) 500"
proof -
  have q: "query_parse (location_search (termURL p c)) = term_pairs p c"
    by (simp add: search_termURL query_parse_uri term_pairs_def)
  note page = open_page_def query_get_def q term_pairs_def Let_def or_opt_Nil or_str_def
  show "p_pc (open_page generic (termURL p c)) = Some (n_pc c)"
    "p_sid (open_page generic (termURL p c)) = Some (n_sid c)"
    "p_dir (open_page generic (termURL p c)) = n_dir c"
    "p_agName (open_page generic (termURL p c)) = n_agent c"
    by (auto simp: page split: option.splits)
  show "p_cols (open_page generic (termURL p c)) = clampNum (p_qcols p) 160"
    "p_rows (open_page generic (termURL p c)) = clampNum (p_qrows p) 500"
    using clampNum_empty by (auto simp: page split: option.splits)
qed

text \<open>C38. Following the link of a console opens that very console: whatever bytes its names hold,
  the new page reads the same PC, session, directory and agent from its query, and its grid is
  the one of the page the link was on.\<close>

theorem termURL_opens_console:
  "let p' = open_page generic (termURL p c)
   in p_pc p' = Some (n_pc c) \<and> p_sid p' = Some (n_sid c) \<and> p_dir p' = n_dir c \<and> p_agName p' = n_agent c \<and>
      p_cols p' = clampNum (p_qcols p) 160 \<and> p_rows p' = clampNum (p_qrows p) 500"
  by (simp add: Let_def termURL_opens_console')

section \<open>Going round\<close>

definition console_key :: "console \<Rightarrow> string \<times> string" where
  "console_key c = (n_pc c, n_sid c)"

lemma findIndex_nth:
  "i < length xs \<Longrightarrow> f (xs ! i) \<Longrightarrow> (\<And>j. j < i \<Longrightarrow> \<not> f (xs ! j)) \<Longrightarrow> findIndex f xs = int i"
proof (induction xs arbitrary: i)
  case (Cons x xs)
  show ?case
  proof (cases i)
    case 0
    with Cons.prems show ?thesis by simp
  next
    case (Suc m)
    have "\<not> f x" using Cons.prems(3) [of 0] Suc by simp
    moreover have "findIndex f xs = int m"
      using Cons.prems Suc by (intro Cons.IH) force+
    ultimately show ?thesis using Suc by simp
  qed
qed simp

lemma findIndex_console:
  assumes "distinct (map console_key l)" "i < length l"
    "p_pc p = Some (n_pc (l ! i))" "p_sid p = Some (n_sid (l ! i))"
  shows "findIndex (\<lambda>c. Some (n_pc c) = p_pc p \<and> Some (n_sid c) = p_sid p) l = int i"
proof (rule findIndex_nth [OF assms(2)])
  show "Some (n_pc (l ! i)) = p_pc p \<and> Some (n_sid (l ! i)) = p_sid p" using assms by simp
next
  fix j assume j: "j < i"
  then have "console_key (l ! j) \<noteq> console_key (l ! i)"
    using assms(1,2) nth_eq_iff_index_eq [OF assms(1), of j i] by auto
  with assms show "\<not> (Some (n_pc (l ! j)) = p_pc p \<and> Some (n_sid (l ! j)) = p_sid p)"
    by (auto simp: console_key_def)
qed

text \<open>The page of the \<open>i\<close>-th console, reached from a page with the parameters \<open>p\<close>.\<close>

lemma press_moves:
  assumes "distinct (map console_key l)" "i < length l" "2 \<le> length l"
  shows "\<exists>q. press generic (Json l) delta (termURL p (l ! i)) =
      termURL q (l ! nat ((int i + delta) mod int (length l)))"
proof -
  let ?p = "open_page generic (termURL p (l ! i))"
  have "findIndex (\<lambda>c. Some (n_pc c) = p_pc ?p \<and> Some (n_sid c) = p_sid ?p) l = int i"
    using termURL_opens_console' [of generic p "l ! i"] assms by (intro findIndex_console) auto
  with assms show ?thesis
    by (auto simp: press_def go_def switch_loaded_def switch_init_def Let_def)
qed

lemma presses_move:
  assumes "distinct (map console_key l)" "2 \<le> length l" "i < length l"
  shows "\<exists>q. (press generic (Json l) delta ^^ k) (termURL p (l ! i)) =
      termURL q (l ! nat ((int i + int k * delta) mod int (length l)))"
proof (induction k)
  case 0
  from assms show ?case by auto
next
  case (Suc k)
  then obtain q where q: "(press generic (Json l) delta ^^ k) (termURL p (l ! i)) =
      termURL q (l ! nat ((int i + int k * delta) mod int (length l)))" by blast
  let ?j = "(int i + int k * delta) mod int (length l)"
  have len: "0 < int (length l)" using assms(2) by linarith
  note j = pos_mod_sign [OF len, of "int i + int k * delta"] pos_mod_bound [OF len, of "int i + int k * delta"]
  then have "nat ?j < length l" by linarith
  from press_moves [OF assms(1) this assms(2), of generic delta q] j
  obtain q' where "press generic (Json l) delta (termURL q (l ! nat ?j)) =
      termURL q' (l ! nat ((?j + delta) mod int (length l)))" by auto
  moreover have "(?j + delta) mod int (length l) = (int i + int (Suc k) * delta) mod int (length l)"
    unfolding mod_add_left_eq by (simp add: algebra_simps)
  ultimately show ?case using q by auto
qed

text \<open>The buttons go round the list: on an account whose consoles have different keys, \<open>k\<close>
  presses of a button, each on the page the one before opened, lead to the console \<open>k\<close> places
  further (or back), modulo the number of consoles; the first press of the other button
  undoes the last one.\<close>

lemma switch_goes_round:
  assumes "distinct (map console_key l)" "2 \<le> length l" "i < length l"
  shows "p_sid (open_page generic ((press generic (Json l) 1 ^^ k) (termURL p (l ! i)))) =
      Some (n_sid (l ! ((i + k) mod length l))) \<and>
    p_sid (open_page generic (press generic (Json l) (-1) (press generic (Json l) 1 (termURL p (l ! i))))) =
      Some (n_sid (l ! i))"
proof
  have "nat ((int i + int k * 1) mod int (length l)) = (i + k) mod length l"
    by (simp add: nat_mod_as_int)
  with presses_move [OF assms, of k generic 1 p]
  show "p_sid (open_page generic ((press generic (Json l) 1 ^^ k) (termURL p (l ! i)))) =
      Some (n_sid (l ! ((i + k) mod length l)))"
    using termURL_opens_console' by auto
next
  let ?j = "(int i + 1) mod int (length l)"
  obtain q where q: "press generic (Json l) 1 (termURL p (l ! i)) = termURL q (l ! nat ?j)"
    using press_moves [OF assms(1,3,2), of generic 1 p] by auto
  have len: "0 < int (length l)" using assms(2) by linarith
  have j: "0 \<le> ?j" "nat ?j < length l"
    using pos_mod_sign [OF len, of "int i + 1"] pos_mod_bound [OF len, of "int i + 1"] by linarith+
  have "(?j + - 1) mod int (length l) = int i"
    using assms by (simp add: mod_diff_left_eq)
  with press_moves [OF assms(1) j(2) assms(2), of generic "-1" q] j(1)
  obtain q' where "press generic (Json l) (-1) (termURL q (l ! nat ?j)) = termURL q' (l ! i)"
    by auto
  then show "p_sid (open_page generic (press generic (Json l) (-1) (press generic (Json l) 1 (termURL p (l ! i))))) =
      Some (n_sid (l ! i))"
    using termURL_opens_console' by (simp add: q)
qed

lemma switch_goes_round_witness:
  "let l = [\<lparr>n_pc = ''a'', n_sid = ''1'', n_dir = ''d'', n_agent = []\<rparr>,
            \<lparr>n_pc = ''a&b'', n_sid = ''2'', n_dir = ''e'', n_agent = ''codex''\<rparr>]
   in p_sid (open_page ''agent'' ((press ''agent'' (Json l) 1 ^^ 3) (termURL (open_page [] []) (l ! 0)))) = Some ''2''"
proof -
  let ?l = "[\<lparr>n_pc = ''a'', n_sid = ''1'', n_dir = ''d'', n_agent = []\<rparr>,
            \<lparr>n_pc = ''a&b'', n_sid = ''2'', n_dir = ''e'', n_agent = ''codex''\<rparr>]"
  have "distinct (map console_key ?l)" "2 \<le> length ?l" "0 < length ?l" by (simp_all add: console_key_def)
  from switch_goes_round [OF this, of "''agent''" 3 "open_page [] []"] show ?thesis
    by (simp add: Let_def numeral_3_eq_3 mod_Suc)
qed

end
