(* ===== verification/Commands.thy ===== *)
theory Commands
  imports Connection Console
begin

text \<open>
  What the buttons of the terminal page send (\<^verbatim>\<open>web/static/term.js\<close>): the keypad and the
  interrupt button through \<^verbatim>\<open>sendBytes\<close>, Ctrl+V left to the browser, the image path
  (\<^verbatim>\<open>sendImageBlob\<close>), and the remote commands of the restart buttons with the requests
  they post.
\<close>

section \<open>Keys\<close>

record key_event =
  h_keydown :: bool
  h_ctrl :: bool
  h_shift :: bool
  h_alt :: bool
  h_meta :: bool
  h_code :: string
  h_key :: string

text \<open>The custom key handler: \<open>False\<close> leaves the event to the browser.\<close>

definition customKeyEventHandler :: "key_event \<Rightarrow> bool" where
  "customKeyEventHandler ev =
     (if h_keydown ev \<and> h_ctrl ev \<and> \<not> h_shift ev \<and> \<not> h_alt ev \<and> \<not> h_meta ev \<and>
         (h_code ev = ''KeyV'' \<or> h_key ev = ''v'' \<or> h_key ev = ''V'')
      then False else True)"

text \<open>\<^verbatim>\<open>term.onData\<close>: a string is held as its UTF-8 bytes already.\<close>

definition onData :: "string \<Rightarrow> conn \<Rightarrow> conn" where
  "onData d c = snd (sendBytes (map byte_of_char d) c)"

definition intr_click :: "conn \<Rightarrow> conn" where
  "intr_click c = snd (sendBytes [0x1b] c)"

definition pad_click :: "string \<Rightarrow> conn \<Rightarrow> conn" where
  "pad_click k c = (case PAD_KEYS k of None \<Rightarrow> c | Some s \<Rightarrow> snd (sendBytes s c))"

section \<open>Images\<close>

text \<open>A picked or pasted blob: its MIME type, its bytes, and whether \<^verbatim>\<open>arrayBuffer\<close> can read them.\<close>

record blob =
  b_type :: string
  b_bytes :: "byte list"
  b_readable :: bool

definition ext_truthy :: "ext_code \<Rightarrow> bool" where
  "ext_truthy e = (case e of Code n \<Rightarrow> n \<noteq> 0 | Inherited \<Rightarrow> True)"

text \<open>The result is what the function returns, \<open>None\<close> when it throws. \<open>c\<close> is the page at the time
  the bytes have been read.\<close>

definition sendImageBlob :: "blob option \<Rightarrow> conn \<Rightarrow> bool option \<times> conn" where
  "sendImageBlob blob c =
     (case blob of
        None \<Rightarrow> (Some False, c)
      | Some b \<Rightarrow>
          let code = cmImageExt (b_type b) in
          if \<not> ext_truthy code then (Some False, set_stat (UnsupportedImage (b_type b)) c)
          else if \<not> b_readable b then (None, c)
          else let buf = b_bytes b in
            if length buf = 0 \<or> length buf > 8 * 2 ^ 20 then (Some False, set_stat ImageSize c)
            else let fr = cmImageFrame buf code in
              if c_imageOK c = Some False then (Some False, set_stat ImagePasteOff c)
              else let r = sendBytes fr c in
                if \<not> fst r then (Some False, snd r)
                else (Some True, set_stat (if c_imageOK c = Some True then ImageSent else ImageSentUnconfirmed) (snd r)))"

text \<open>A pasted item: whether it is a file, its type, and its blob.\<close>

record paste_item =
  i_file :: bool
  i_type :: string
  i_blob :: "blob option"

fun on_paste :: "paste_item list \<Rightarrow> conn \<Rightarrow> conn" where
  "on_paste [] c = c"
| "on_paste (it # its) c =
     (if i_file it \<and> str_indexOf (i_type it) ''image/'' = Some 0
      then snd (sendImageBlob (i_blob it) c) else on_paste its c)"

text \<open>The image button: the first image type of the first clipboard item that has one. \<open>None\<close> is a
  clipboard that cannot be read, an item whose \<^verbatim>\<open>getType\<close> is refused, or an image that cannot be
  read; then, and when no item is an image, the picker is opened (the second result).\<close>

fun img_read :: "(string \<times> blob option) list list \<Rightarrow> conn \<Rightarrow> conn option" where
  "img_read [] c = None"
| "img_read (it # its) c =
     (case filter (\<lambda>tb. str_indexOf (fst tb) ''image/'' = Some 0) it of
        tb # _ \<Rightarrow> 
          (case snd tb of
             None \<Rightarrow> None
           | Some b \<Rightarrow> (case sendImageBlob (Some b) c of (None, c') \<Rightarrow> None | (Some ok, c') \<Rightarrow> Some c'))
      | [] \<Rightarrow> img_read its c)"

definition img_click :: "(string \<times> blob option) list list option \<Rightarrow> conn \<Rightarrow> conn \<times> bool" where
  "img_click clipboard c =
     (case clipboard of
        None \<Rightarrow> (c, True)
      | Some its \<Rightarrow> (case img_read its c of Some c' \<Rightarrow> (c', False) | None \<Rightarrow> (c, True)))"

definition img_picked :: "blob list \<Rightarrow> conn \<Rightarrow> conn" where
  "img_picked files c = (case files of [] \<Rightarrow> c | f # _ \<Rightarrow> snd (sendImageBlob (Some f) c))"

section \<open>Remote commands\<close>

text \<open>A posted command, as the body of its request.\<close>

definition restart_body :: "string \<Rightarrow> string \<Rightarrow> string" where
  "restart_body pc sid = form_body [(''pc'', pc), (''cmd'', ''restart-proxy''), (''sid'', sid)]"

definition restart_agent_body :: "string \<Rightarrow> string \<Rightarrow> string \<Rightarrow> string" where
  "restart_agent_body pc sid agName =
     form_body [(''pc'', pc), (''cmd'', ''restart-agent-session''), (''sid'', sid), (''agent'', agName)]"

definition semi_auto_body :: "string \<Rightarrow> string \<Rightarrow> string \<Rightarrow> string" where
  "semi_auto_body pc sid on = form_body [(''pc'', pc), (''cmd'', ''semi-auto''), (''sid'', sid), (''on'', on)]"

text \<open>A restart button: disabled while a request is out, requests posted, what the page did
  last, and (a ghost) how many requests were answered. The user's answer to the confirmation comes with the click.\<close>

datatype command_result = Idle | PostedCommand | Failure | ToLogin

record command_button =
  r_disabled :: bool
  r_posted :: "string list"
  r_result :: command_result
  r_answered :: nat

datatype command_event = Press bool | Answer "unit response"

text \<open>\<open>body\<close> is the body the button posts. A disabled button gets no click event.\<close>

fun command_step :: "string \<Rightarrow> command_button \<Rightarrow> command_event \<Rightarrow> command_button" where
  "command_step body b (Press confirmed) =
     (if r_disabled b \<or> \<not> confirmed then b
      else b\<lparr>r_disabled := True, r_posted := r_posted b @ [body]\<rparr>)"
| "command_step body b (Answer r) =
     (if \<not> r_disabled b then b
      else b\<lparr>r_disabled := False, r_answered := r_answered b + 1,
        r_result := (case r of
            NoResponse \<Rightarrow> Failure
          | Response n _ \<Rightarrow> if n = 401 then ToLogin else if \<not> ok_status n then Failure else PostedCommand)\<rparr>)"

text \<open>The two buttons. What they ask for confirmation with names the directory (or the session) and
  the agent; the second one carries the agent's name behind an arrow.\<close>

datatype confirm_text = ConfirmRestart string | ConfirmAgent string string

definition restart_confirm :: "page_params \<Rightarrow> confirm_text" where
  "restart_confirm p = ConfirmRestart (or_str (p_dir p) (or_opt (p_sid p) []))"

definition agent_confirm :: "page_params \<Rightarrow> confirm_text" where
  "agent_confirm p = ConfirmAgent (or_str (p_dir p) (or_opt (p_sid p) [])) (p_agDisp p)"

definition agent_label :: "page_params \<Rightarrow> string" where
  "agent_label p = [CHR 0xE2, CHR 0x9F, CHR 0xB3] @ p_agName p"

text \<open>A press shows the confirmation; the user's \<open>answer\<close> to it decides.\<close>

datatype restart_event = Clicked "confirm_text \<Rightarrow> bool" | Replied "unit response"

fun restart_click :: "page_params \<Rightarrow> command_button \<Rightarrow> restart_event \<Rightarrow> command_button" where
  "restart_click p b (Clicked answer) =
     command_step (restart_body (or_opt (p_pc p) []) (or_opt (p_sid p) [])) b (Press (answer (restart_confirm p)))"
| "restart_click p b (Replied r) =
     command_step (restart_body (or_opt (p_pc p) []) (or_opt (p_sid p) [])) b (Answer r)"

fun agent_click :: "page_params \<Rightarrow> command_button \<Rightarrow> restart_event \<Rightarrow> command_button" where
  "agent_click p b (Clicked answer) =
     command_step (restart_agent_body (or_opt (p_pc p) []) (or_opt (p_sid p) []) (p_agName p)) b
       (Press (answer (agent_confirm p)))"
| "agent_click p b (Replied r) =
     command_step (restart_agent_body (or_opt (p_pc p) []) (or_opt (p_sid p) []) (p_agName p)) b (Answer r)"

definition command_init :: command_button where
  "command_init = \<lparr>r_disabled = False, r_posted = [], r_result = Idle, r_answered = 0\<rparr>"

section \<open>Properties\<close>

lemma cmImageFrame_length: "length (cmImageFrame buf code) = 7 + length buf"
  by (simp add: cmImageFrame_def Let_def)

lemma sendBytes_result:
  "fst (sendBytes b c) = (wsState c = 1 \<or> c_qBytes c + length b \<le> QMAX)"
  by (auto simp: sendBytes_def)

lemma set_stat_frame [simp]:
  "c_accepted (set_stat st c) = c_accepted c" "c_imageOK (set_stat st c) = c_imageOK c"
  by (simp_all add: set_stat_def)

lemma requestConnect_accepted [simp]: "c_accepted (requestConnect why c) = c_accepted c"
  by (simp add: requestConnect_def connect_def Let_def)

lemma send_input_accepted [simp]: "c_accepted (send_input b c) = c_accepted c"
  by (simp add: send_input_def upd_sock_def split: option.splits)

lemma sendBytes_accepted:
  "c_accepted (snd (sendBytes b c)) = (if fst (sendBytes b c) then c_accepted c @ [b] else c_accepted c)"
  by (simp add: sendBytes_def)

text \<open>When a blob goes out.\<close>

definition image_goes_out :: "blob \<Rightarrow> conn \<Rightarrow> bool" where
  "image_goes_out b c \<longleftrightarrow> ext_truthy (cmImageExt (b_type b)) \<and> b_readable b \<and> 0 < length (b_bytes b) \<and>
     length (b_bytes b) \<le> 8388608 \<and> c_imageOK c \<noteq> Some False \<and>
     (wsState c = 1 \<or> c_qBytes c + 7 + length (b_bytes b) \<le> 9437184)"

text \<open>An image is reported as sent exactly when its type is known, its bytes can be read, it is
  neither empty nor over 8 MiB, the PC has not said that it refuses images, and there is a connection
  or room in the queue; then its frame is the next input accepted, and in every other case
  nothing is, the function throwing just for a known type whose bytes cannot be read.\<close>

lemma image_sent_iff:
  "fst (sendImageBlob (Some b) c) =
     (if ext_truthy (cmImageExt (b_type b)) \<and> \<not> b_readable b then None else Some (image_goes_out b c)) \<and>
   c_accepted (snd (sendImageBlob (Some b) c)) = c_accepted c @
     (if image_goes_out b c then [cmImageFrame (b_bytes b) (cmImageExt (b_type b))] else [])"
proof (cases "ext_truthy (cmImageExt (b_type b)) \<and> b_readable b \<and> 0 < length (b_bytes b) \<and>
     length (b_bytes b) \<le> 8388608 \<and> c_imageOK c \<noteq> Some False")
  case True
  then have "sendImageBlob (Some b) c =
      (let r = sendBytes (cmImageFrame (b_bytes b) (cmImageExt (b_type b))) c
       in if \<not> fst r then (Some False, snd r)
          else (Some True, set_stat (if c_imageOK c = Some True then ImageSent else ImageSentUnconfirmed) (snd r)))"
    by (simp add: sendImageBlob_def Let_def)
  with True show ?thesis
    by (simp add: Let_def sendBytes_accepted sendBytes_result cmImageFrame_length image_goes_out_def QMAX_def
        add.assoc)
next
  case False
  then show ?thesis by (auto simp: sendImageBlob_def image_goes_out_def Let_def)
qed

lemma command_bodies:
  "query_parse (restart_body pc sid) = [(''pc'', pc), (''cmd'', ''restart-proxy''), (''sid'', sid)]"
  "query_parse (restart_agent_body pc sid ag) =
     [(''pc'', pc), (''cmd'', ''restart-agent-session''), (''sid'', sid), (''agent'', ag)]"
  "query_parse (semi_auto_body pc sid on) =
     [(''pc'', pc), (''cmd'', ''semi-auto''), (''sid'', sid), (''on'', on)]"
  by (simp_all add: restart_body_def restart_agent_body_def semi_auto_body_def query_parse_form)

definition command_ok :: "string \<Rightarrow> command_button \<Rightarrow> bool" where
  "command_ok body b \<longleftrightarrow> length (r_posted b) = r_answered b + (if r_disabled b then 1 else 0) \<and>
     list_all (\<lambda>x. x = body) (r_posted b)"

interpretation command: guarded_system command_init "command_step body" "command_ok body" for body :: string
proof unfold_locales
  show "command_ok body (command_step body b v)" if "command_ok body b" for b v
    using that by (cases v) (auto simp: command_ok_def)
qed (simp add: command_ok_def command_init_def)

interpretation restart: guarded_system command_init "restart_click p"
    "command_ok (restart_body (or_opt (p_pc p) []) (or_opt (p_sid p) []))" for p :: page_params
  by unfold_locales (rule command.inv_start, metis command.inv_step restart_click.simps restart_event.exhaust)

interpretation agent: guarded_system command_init "agent_click p"
    "command_ok (restart_agent_body (or_opt (p_pc p) []) (or_opt (p_sid p) []) (p_agName p))" for p :: page_params
  by unfold_locales (rule command.inv_start, metis command.inv_step agent_click.simps restart_event.exhaust)

text \<open>Over any presses and answers a restart button has at most one request out, disabled exactly
  while it has; and every request it posts is read back by the form parser as the
  command, the PC, the session and the agent of the page, whatever bytes these hold.\<close>

lemma restart_posts_one_at_a_time:
  "let pc = or_opt (p_pc p) []; sid = or_opt (p_sid p) [];
       b = run (restart_click p) command_init vs; b' = run (agent_click p) command_init vs
   in length (r_posted b) = r_answered b + (if r_disabled b then 1 else 0) \<and>
      length (r_posted b') = r_answered b' + (if r_disabled b' then 1 else 0) \<and>
      list_all (\<lambda>x. query_parse x = [(''pc'', pc), (''cmd'', ''restart-proxy''), (''sid'', sid)]) (r_posted b) \<and>
      list_all (\<lambda>x. query_parse x =
        [(''pc'', pc), (''cmd'', ''restart-agent-session''), (''sid'', sid), (''agent'', p_agName p)]) (r_posted b')"
  using restart.inv_run [of p vs] agent.inv_run [of p vs]
  by (auto simp: command_ok_def Let_def list_all_iff command_bodies)

end
