(* ===== verification/Wire.thy ===== *)
theory Wire
  imports Commands
begin

text \<open>
  What the producer reads on a socket of the terminal page (\<^verbatim>\<open>web/static/term.js\<close>): the frames
  and the text of all messages run together into one stream of bytes, which the documented
  layout takes apart again (\<open>decode_stream\<close>): the greeting, the size request, and then
  what the user typed, pressed and pasted.
\<close>

section \<open>Taking the stream apart\<close>

datatype wire_item = Frame client_frame | Text byte

lemma decode_frame_shorter: "decode_frame d = Some (f, r) \<Longrightarrow> length r < length d"
  by (auto simp: decode_frame_def split: if_splits)

text \<open>A byte \<^verbatim>\<open>0xff\<close> starts a frame, any other one is text.\<close>

function decode_stream :: "byte list \<Rightarrow> wire_item list option" where
  "decode_stream [] = Some []"
| "decode_stream (b # d) =
     (if b = 0xff
      then (case decode_frame (b # d) of
              None \<Rightarrow> None
            | Some (f, r) \<Rightarrow> map_option (Cons (Frame f)) (decode_stream r))
      else map_option (Cons (Text b)) (decode_stream d))"
  by pat_completeness auto
termination
  by (relation "measure length") (auto dest: decode_frame_shorter)

declare decode_stream.simps(2) [simp del]

lemma decode_text: "0xff \<notin> set t \<Longrightarrow> decode_stream (t @ d) = map_option (append (map Text t)) (decode_stream d)"
proof (induction t)
  case (Cons b t)
  then show ?case by (simp add: decode_stream.simps(2) option.map_comp comp_def)
qed (cases "decode_stream d"; simp)

lemma decode_first:
  assumes "decode_frame d = Some (f, r)" "d \<noteq> []" "hd d = 0xff"
  shows "decode_stream d = map_option (Cons (Frame f)) (decode_stream r)"
  using assms by (cases d) (simp_all add: decode_stream.simps(2))

lemma decode_scroll: "decode_frame ([0xff, 0xfe, a, b] @ d) = Some (Scroll (be [a, b]), d)"
  by (simp add: decode_frame_def del: be.simps)

section \<open>What the user does\<close>

datatype user_input = Typed string | PadKey string | Picture blob

text \<open>UTF-8 has no byte \<^verbatim>\<open>0xff\<close>; a picture is one \<^verbatim>\<open>sendImageBlob\<close> would send.\<close>

fun input_ok :: "user_input \<Rightarrow> bool" where
  "input_ok (Typed s) = (CHR 0xFF \<notin> set s)"
| "input_ok (PadKey k) = (PAD_KEYS k \<noteq> None)"
| "input_ok (Picture b) = (cmImageExt (b_type b) \<in> {Code 1, Code 2, Code 3} \<and> b_readable b \<and> length (b_bytes b) \<le> 8388608)"

fun input_bytes :: "user_input \<Rightarrow> byte list" where
  "input_bytes (Typed s) = map byte_of_char s"
| "input_bytes (PadKey k) = (case PAD_KEYS k of None \<Rightarrow> [] | Some s \<Rightarrow> s)"
| "input_bytes (Picture b) = cmImageFrame (b_bytes b) (cmImageExt (b_type b))"

fun input_items :: "user_input \<Rightarrow> wire_item list" where
  "input_items (Typed s) = map Text (map byte_of_char s)"
| "input_items (PadKey k) =
     (if k = ''bottom'' then [Frame (Scroll 0x7ffe)] else map Text (case PAD_KEYS k of None \<Rightarrow> [] | Some s \<Rightarrow> s))"
| "input_items (Picture b) =
     [Frame (Image (case cmImageExt (b_type b) of Code n \<Rightarrow> n | Inherited \<Rightarrow> 0) (b_bytes b))]"

text \<open>The handlers behind these inputs: each hands exactly these bytes to the line, or nothing.\<close>

fun user_step :: "user_input \<Rightarrow> conn \<Rightarrow> conn" where
  "user_step (Typed s) c = onData s c"
| "user_step (PadKey k) c = pad_click k c"
| "user_step (Picture b) c = snd (sendImageBlob (Some b) c)"

lemma user_step_accepts:
  "c_accepted (user_step u c) \<in> {c_accepted c, c_accepted c @ [input_bytes u]}"
proof (cases u)
  case (Picture b)
  then show ?thesis by (simp add: sendImageBlob_def sendBytes_accepted Let_def)
qed (auto simp: onData_def pad_click_def sendBytes_accepted split: option.split)

lemma typed_no_ff: "CHR 0xFF \<notin> set s \<Longrightarrow> 0xff \<notin> set (map byte_of_char s)"
proof
  assume s: "CHR 0xFF \<notin> set s" and "0xff \<in> set (map byte_of_char s)"
  then obtain c where c: "c \<in> set s" "byte_of_char c = 0xff" by auto
  have "byte_of_char (CHR 0xFF) = 0xff" by (simp add: byte_of_char_def)
  with c have "c = CHR 0xFF" using byte_of_char_eq_iff by metis
  with c s show False by simp
qed

lemma pad_no_ff: "PAD_KEYS k = Some s \<Longrightarrow> k \<noteq> ''bottom'' \<Longrightarrow> 0xff \<notin> set s"
  by (auto simp: PAD_KEYS_def split: if_splits)

lemma decode_input:
  assumes "input_ok u"
  shows "decode_stream (input_bytes u @ d) = map_option (append (input_items u)) (decode_stream d)"
proof (cases u)
  case (Typed s)
  with assms typed_no_ff [of s] show ?thesis by (simp add: decode_text)
next
  case (PadKey k)
  show ?thesis
  proof (cases "k = ''bottom''")
    case True
    have "input_bytes (PadKey ''bottom'') = [0xff, 0xfe, 0x7f, 0xfe]" by (simp add: PAD_KEYS_def)
    moreover have "be [0x7f, 0xfe] = 0x7ffe" by simp
    ultimately show ?thesis
      using decode_first [OF decode_scroll [of "0x7f" "0xfe" d]] True PadKey by (cases "decode_stream d"; simp)
  next
    case False
    with assms PadKey pad_no_ff [of k] show ?thesis by (auto simp: decode_text)
  qed
next
  case (Picture b)
  let ?c = "cmImageExt (b_type b)"
  from assms Picture obtain n where n: "?c = Code n" and len: "length (b_bytes b) < 2 ^ 32" by auto
  have "hd (cmImageFrame (b_bytes b) ?c @ d) = 0xff" "cmImageFrame (b_bytes b) ?c @ d \<noteq> []"
    by (simp_all add: cmImageFrame_def Let_def)
  with decode_first [OF decode_image_frame [OF len n, of d]] show ?thesis
    using Picture n by (cases "decode_stream d"; simp)
qed

lemma decode_inputs:
  "list_all input_ok us \<Longrightarrow>
   decode_stream (concat (map input_bytes us)) = Some (concat (map input_items us))"
proof (induction us)
  case (Cons u us)
  then show ?case by (simp add: decode_input)
qed simp

text \<open>The greeting as the producer reads it.\<close>

definition greeting_items :: "int \<Rightarrow> int \<Rightarrow> bool \<Rightarrow> wire_item list" where
  "greeting_items rows cols got =
     Frame (Scroll 0x7fff) # (if got then [Frame (Scroll 0x7ffc)] else []) @ [Frame (Resize (nat rows) (nat cols))]"

lemma decode_handshake:
  assumes "0 \<le> rows" "rows < 65536" "0 \<le> cols" "cols < 65536"
  shows "decode_stream (concat (handshake rows cols got) @ d) =
    map_option (append (greeting_items rows cols got)) (decode_stream d)"
proof -
  have hello: "decode_stream (HELLO_V2 @ d) = map_option (Cons (Frame (Scroll 0x7fff))) (decode_stream d)" for d
    using decode_first [OF decode_scroll [of "0x7f" "0xff" d]] by (simp add: HELLO_V2_def)
  have nohist: "decode_stream (HELLO_V2_NOHIST @ d) = map_option (Cons (Frame (Scroll 0x7ffc))) (decode_stream d)" for d
    using decode_first [OF decode_scroll [of "0x7f" "0xfc" d]] by (simp add: HELLO_V2_NOHIST_def)
  have "hd (resizeFrame rows cols @ d) = 0xff" "resizeFrame rows cols @ d \<noteq> []"
    by (simp_all add: resizeFrame_def)
  from decode_first [OF resizeFrame_decode [OF assms, of d] this(2,1)]
  show ?thesis
    by (cases "decode_stream d"; simp add: handshake_def hello nohist greeting_items_def)
qed

lemma map_split:
  "map f us = concat xss @ q \<Longrightarrow> \<exists>uss w. us = concat uss @ w \<and> map (map f) uss = xss \<and> map f w = q"
proof (induction xss arbitrary: us)
  case Nil
  then show ?case by (intro exI [of _ "[]"] exI [of _ us]) simp
next
  case (Cons xs xss)
  then have "map f us = xs @ (concat xss @ q)" by simp
  then obtain vs ws where us: "us = vs @ ws" "xs = map f vs" "concat xss @ q = map f ws"
    by (rule map_eq_append_conv [THEN iffD1, elim_format]) blast
  from Cons.IH [OF us(3) [symmetric]] obtain uss w where "ws = concat uss @ w" "map (map f) uss = xss" "map f w = q" by blast
  with us show ?case by (intro exI [of _ "vs # uss"] exI [of _ w]) simp
qed

section \<open>All sockets\<close>

lemma sockets_decode:
  assumes "list_all input_ok us"
    and "c_accepted (page_run g (clampNum qrows 500) (clampNum qcols 160) d now vs) = map input_bytes us"
  shows "let rows = clampNum qrows 500; cols = clampNum qcols 160; c = page_run g rows cols d now vs in
    \<exists>uss waiting. us = concat uss @ waiting \<and> map input_bytes waiting = c_q c \<and>
      list_all2 (\<lambda>k ks. \<exists>got. decode_stream (concat (k_sent k)) =
          Some ((if k_opened k then greeting_items rows cols got else []) @ concat (map input_items ks)))
        (c_socks c) uss"
proof -
  let ?rows = "clampNum qrows 500" and ?cols = "clampNum qcols 160"
  let ?c = "page_run g ?rows ?cols d now vs"
  have grid: "0 \<le> ?rows" "?rows < 65536" "0 \<le> ?cols" "?cols < 65536"
    using clampNum_range [of 500 qrows] clampNum_range [of 160 qcols] by auto
  obtain old k where c: "socks_ok ?rows ?cols old k ?c" by (rule page_run_ok)
  then have socks: "list_all (sock_ok ?rows ?cols) (c_socks ?c)"
    by (auto simp: socks_ok_def list_all_iff)
  have "map input_bytes us = concat (map k_input (c_socks ?c)) @ c_q ?c"
    using c assms(2) by (simp add: socks_ok_def)
  from map_split [OF this] obtain uss w where split: "us = concat uss @ w"
    "map (map input_bytes) uss = map k_input (c_socks ?c)" "map input_bytes w = c_q ?c" by blast
  have len: "length (c_socks ?c) = length uss" using split(2) by (metis length_map)
  have "\<exists>got. decode_stream (concat (k_sent (c_socks ?c ! i))) =
      Some ((if k_opened (c_socks ?c ! i) then greeting_items ?rows ?cols got else []) @ concat (map input_items (uss ! i)))"
    if i: "i < length uss" for i
  proof -
    let ?k = "c_socks ?c ! i"
    have input: "k_input ?k = map input_bytes (uss ! i)"
      using arg_cong [OF split(2), of "\<lambda>xs. xs ! i"] i len by simp
    have "list_all input_ok (uss ! i)"
      using assms(1) split(1) i by (auto simp: list_all_iff dest: nth_mem)
    note items = decode_inputs [OF this]
    have "sock_ok ?rows ?cols ?k" using socks i len by (simp add: list_all_length)
    then consider got where "k_opened ?k" "k_sent ?k = handshake ?rows ?cols got @ k_input ?k"
      | "\<not> k_opened ?k" "k_sent ?k = []" "k_input ?k = []"
      by (auto simp: sock_ok_def split: if_splits)
    then show ?thesis
    proof cases
      case (1 got)
      then have "decode_stream (concat (k_sent ?k)) =
          Some (greeting_items ?rows ?cols got @ concat (map input_items (uss ! i)))"
        using decode_handshake [OF grid] items input by simp
      with 1 show ?thesis by auto
    next
      case 2
      with input show ?thesis by simp
    qed
  qed
  with len have "list_all2 (\<lambda>k ks. \<exists>got. decode_stream (concat (k_sent k)) =
      Some ((if k_opened k then greeting_items ?rows ?cols got else []) @ concat (map input_items ks))) (c_socks ?c) uss"
    by (simp add: list_all2_conv_all_nth)
  with split(1,3) show ?thesis unfolding Let_def by blast
qed

section \<open>Properties\<close>

text \<open>C5. The producer reads what the user did. Whatever happens to the sockets, when the page has
  accepted these inputs, in this order, they are spread over its sockets in order with the rest
  waiting in the queue, and the bytes of every socket taken apart as one stream are the
  greeting (with at most one refusal of the history), one size request that is the page's grid,
  and exactly the inputs of that socket: each text byte for byte, each key, each picture with its type.\<close>

theorem sockets_decode_to_input:
  assumes "list_all input_ok us"
    and "c_accepted (page_run g (clampNum qrows 500) (clampNum qcols 160) d now vs) = map input_bytes us"
  shows "let rows = clampNum qrows 500; cols = clampNum qcols 160; c = page_run g rows cols d now vs in
    \<exists>uss waiting. us = concat uss @ waiting \<and> map input_bytes waiting = c_q c \<and>
      list_all2 (\<lambda>k ks. \<exists>got. decode_stream (concat (k_sent k)) =
          Some ((if k_opened k then greeting_items rows cols got else []) @ concat (map input_items ks)))
        (c_socks c) uss"
  by (rule sockets_decode [OF assms])

section \<open>Witnesses\<close>

definition demo_inputs :: "user_input list" where
  "demo_inputs = [Typed ''ls'', PadKey ''bottom'', Picture \<lparr>b_type = ''image/png'', b_bytes = [1, 2], b_readable = True\<rparr>]"

definition demo_line :: "conn_event list" where
  "demo_line = [Input [0x6c, 0x73], Input [0xff, 0xfe, 0x7f, 0xfe], Input [0xff, 0xfd, 0, 0, 0, 2, 1, 1, 2], SockOpen 0]"

lemma flushQ_accepted: "c_accepted (flushQ c) = c_accepted c"
proof (induction c rule: flushQ.induct)
  case (1 c)
  then show ?case by (simp add: flushQ.simps [of c] Let_def)
qed

lemma open_accepted: "c_accepted (conn_step g rows cols c (SockOpen i)) = c_accepted c"
  by (simp add: onopen_def sock_send_def set_ready_def upd_sock_def flushQ_accepted Let_def)

lemma demo_queued:
  "c_accepted (page_run demo_env rows cols (page_init 160 500 0) 0
     [Input [0x6c, 0x73], Input [0xff, 0xfe, 0x7f, 0xfe], Input [0xff, 0xfd, 0, 0, 0, 2, 1, 1, 2]]) =
     [[0x6c, 0x73], [0xff, 0xfe, 0x7f, 0xfe], [0xff, 0xfd, 0, 0, 0, 2, 1, 1, 2]]"
  by (simp add: conn_exec)

lemma demo_accepted:
  "list_all input_ok demo_inputs"
  "c_accepted (page_run demo_env (clampNum None 500) (clampNum None 160) (page_init 160 500 0) 0 demo_line) =
     map input_bytes demo_inputs"
proof -
  have "map input_bytes demo_inputs = [[0x6c, 0x73], [0xff, 0xfe, 0x7f, 0xfe], [0xff, 0xfd, 0, 0, 0, 2, 1, 1, 2]]"
    by code_simp
  then show "c_accepted (page_run demo_env (clampNum None 500) (clampNum None 160) (page_init 160 500 0) 0 demo_line) =
      map input_bytes demo_inputs"
    using demo_queued by (simp add: demo_line_def open_accepted del: conn_step.simps)
qed (simp add: demo_inputs_def PAD_KEYS_def cmImageExt_def)

theorem sockets_decode_to_input_witness:
  "list_all input_ok demo_inputs \<and>
   (\<exists>uss waiting. demo_inputs = concat uss @ waiting \<and>
     map input_bytes waiting =
       c_q (page_run demo_env (clampNum None 500) (clampNum None 160) (page_init 160 500 0) 0 demo_line))"
  using sockets_decode_to_input [OF demo_accepted] demo_accepted(1) unfolding Let_def by blast

end
