(* ===== verification/Mailbox.thy ===== *)
theory Mailbox
  imports Connection
begin

text \<open>
  What the data line promises, without sockets, gates and timers: a mailbox that takes input while
  it has room, keeps the order, and hands over all that waits whenever a connection opens. The
  mailbox is a step relation; the line of \<open>Connection\<close> is shown to implement it.
\<close>

section \<open>The mailbox\<close>

record mailbox =
  b_sent :: "byte list list"
  b_waiting :: "byte list list"
  b_linked :: bool

inductive mail_step :: "mailbox \<Rightarrow> mailbox \<Rightarrow> bool" where
  send: "b_linked m \<Longrightarrow> mail_step m (m\<lparr>b_sent := b_sent m @ [x]\<rparr>)"
| wait: "\<not> b_linked m \<Longrightarrow> sum_list (map length (b_waiting m)) + length x \<le> QMAX \<Longrightarrow>
    mail_step m (m\<lparr>b_waiting := b_waiting m @ [x]\<rparr>)"
| link: "\<not> b_linked m \<Longrightarrow> mail_step m (m\<lparr>b_sent := b_sent m @ b_waiting m, b_waiting := [], b_linked := True\<rparr>)"
| unlink: "b_linked m \<Longrightarrow> mail_step m (m\<lparr>b_linked := False\<rparr>)"

definition mail_init :: mailbox where
  "mail_init = \<lparr>b_sent = [], b_waiting = [], b_linked = False\<rparr>"

inductive_cases mail_stepE: "mail_step m m'"

text \<open>A mailbox with a connection has nothing waiting, one without never more than the limit.\<close>

definition mail_ok :: "mailbox \<Rightarrow> bool" where
  "mail_ok m \<longleftrightarrow> (b_linked m \<longrightarrow> b_waiting m = []) \<and> sum_list (map length (b_waiting m)) \<le> QMAX"

lemma mail_ok_step: "mail_step m m' \<Longrightarrow> mail_ok m \<Longrightarrow> mail_ok m'"
  by (induction rule: mail_step.induct) (simp_all add: mail_ok_def)

lemma mail_ok_reach: "mail_step\<^sup>*\<^sup>* m m' \<Longrightarrow> mail_ok m \<Longrightarrow> mail_ok m'"
  by (induction rule: rtranclp_induct) (auto dest: mail_ok_step)

text \<open>Nothing taken is ever lost or overtaken, and nothing sent is taken back.\<close>

lemma mail_keeps_step:
  "mail_step m m' \<Longrightarrow> mail_ok m \<Longrightarrow>
   prefix (b_sent m @ b_waiting m) (b_sent m' @ b_waiting m') \<and> prefix (b_sent m) (b_sent m')"
  by (induction rule: mail_step.induct) (auto simp: mail_ok_def)

lemma mail_keeps:
  "mail_step\<^sup>*\<^sup>* m m' \<Longrightarrow> mail_ok m \<Longrightarrow>
   prefix (b_sent m @ b_waiting m) (b_sent m' @ b_waiting m') \<and> prefix (b_sent m) (b_sent m')"
proof (induction rule: rtranclp_induct)
  case (step y z)
  with mail_keeps_step [OF step(2)] mail_ok_reach [OF step(1)] show ?case
    by (meson prefix_order.trans)
qed simp

section \<open>The line as a mailbox\<close>

definition mail_of :: "conn \<Rightarrow> mailbox" where
  "mail_of c = \<lparr>b_sent = concat (map k_input (c_socks c)), b_waiting = c_q c, b_linked = (wsState c = 1)\<rparr>"

abbreviation mail_steps :: "conn \<Rightarrow> conn \<Rightarrow> bool" where
  "mail_steps c c' \<equiv> mail_of c' = mail_of c \<or> mail_step (mail_of c) (mail_of c')"

lemma mail_of_frame [simp]:
  "mail_of (c\<lparr>c_path := x\<rparr>) = mail_of c" "mail_of (c\<lparr>c_semi := sm\<rparr>) = mail_of c"
  "mail_of (c\<lparr>c_timers := ts\<rparr>) = mail_of c" "mail_of (c\<lparr>c_now := n\<rparr>) = mail_of c"
  "mail_of (c\<lparr>c_active := v\<rparr>) = mail_of c" "mail_of (c\<lparr>c_imageOK := w\<rparr>) = mail_of c"
  "mail_of (c\<lparr>c_accepted := a\<rparr>) = mail_of c" "mail_of (set_stat st c) = mail_of c"
  by (simp_all add: mail_of_def set_stat_def)

lemma mail_handlers [simp]:
  "mail_of (onmessage g i now d c) = mail_of c" "mail_of (onclose i c) = mail_of c"
  "mail_of (onerror i c) = mail_of c" "mail_of (semi_result r c) = mail_of c"
  by (simp_all add: step_defs split: option.split sa_message.split)

text \<open>A dial leaves the mailbox alone: there was no connection, and there is none yet.\<close>

lemma mail_dial:
  assumes "socks_ok rows cols old k c" shows "mail_of (requestConnect why c) = mail_of c"
proof -
  have "wsState c \<noteq> 1" if "fst (cmReconnectGate \<lparr>q_wsState = wsState c, q_now = c_now c,
      q_lastAttemptAt = c_last c, q_attempts = c_attempts c\<rparr>)"
    using that by (auto simp: cmReconnectGate_def split: if_splits)
  then show ?thesis
    by (auto simp: requestConnect_def connect_def mail_of_def set_stat_def new_socket_def wsState_def Let_def)
qed

lemma mail_input:
  assumes "socks_ok rows cols old k c" "queue_ok c" shows "mail_steps c (snd (sendBytes b c))"
proof (cases "wsState c = 1")
  case True
  then have "mail_of (snd (sendBytes b c)) = (mail_of c)\<lparr>b_sent := b_sent (mail_of c) @ [b]\<rparr>"
    using assms(1) by (simp add: sendBytes_def send_input_def upd_sock_def mail_of_def socks_ok_def wsState_def)
  with True send [of "mail_of c" b] show ?thesis by (simp add: mail_of_def)
next
  case False
  show ?thesis
  proof (cases "c_qBytes c + length b > QMAX")
    case room: False
    let ?c = "c\<lparr>c_q := c_q c @ [b], c_qBytes := c_qBytes c + length b, c_accepted := c_accepted c @ [b]\<rparr>"
    have ok: "socks_ok rows cols old k ?c"
      using assms(1) False wsState_current [OF assms(1)] by (simp add: socks_ok_def)
    have "mail_of ?c = (mail_of c)\<lparr>b_waiting := b_waiting (mail_of c) @ [b]\<rparr>"
      by (simp add: mail_of_def)
    moreover have "snd (sendBytes b c) = requestConnect ByInput ?c"
      using False room by (simp add: sendBytes_def)
    ultimately have "mail_of (snd (sendBytes b c)) = (mail_of c)\<lparr>b_waiting := b_waiting (mail_of c) @ [b]\<rparr>"
      using mail_dial [OF ok, of ByInput] by simp
    with False room assms(2) wait [of "mail_of c" b] show ?thesis
      by (simp add: mail_of_def queue_ok_def)
  qed (use False in \<open>simp add: sendBytes_def\<close>)
qed

lemma mail_open:
  assumes "socks_ok rows cols old k c" "queue_ok c"
  shows "mail_steps c (conn_step g rows cols c (SockOpen i))"
proof (cases "has_ready i {CONNECTING} c")
  case True
  note i = opening_current [OF assms(1) True]
  have k: "k_input k = []" "c_socks c = old @ [k]" "c_ws c = Some (length old)"
    using assms(1) i by (simp_all add: socks_ok_def sock_ok_def)
  have "\<not> b_linked (mail_of c)" using i wsState_current [OF assms(1)] by (simp add: mail_of_def)
  moreover have "mail_of (conn_step g rows cols c (SockOpen i)) =
      (mail_of c)\<lparr>b_sent := b_sent (mail_of c) @ b_waiting (mail_of c), b_waiting := [], b_linked := True\<rparr>"
    unfolding open_effect [OF assms True] mail_of_frame using k by (simp add: mail_of_def wsState_def)
  ultimately show ?thesis using link [of "mail_of c"] by metis
qed simp

text \<open>A socket that closes ends the connection when it is the current open one.\<close>

lemma mail_closing:
  assumes "i < length (c_socks c)" "r \<in> {CLOSING, CLOSED}"
  shows "mail_steps c (set_ready i r c)"
proof -
  have "map k_input ((c_socks c)[i := h]) = map k_input (c_socks c)" if "k_input h = k_input (c_socks c ! i)" for h
    using that assms(1) by (simp add: map_update list_update_same_conv)
  then have input: "concat (map k_input (c_socks (set_ready i r c))) = concat (map k_input (c_socks c))"
    by (simp add: set_ready_def upd_sock_def)
  have linked: "wsState (set_ready i r c) = (if c_ws c = Some i then readyState r else wsState c)"
    using assms(1) by (simp add: set_ready_def upd_sock_def wsState_def nth_list_update split: option.split)
  have "readyState r \<noteq> 1" using assms(2) by auto
  then have "mail_of (set_ready i r c) = mail_of c \<or> mail_of (set_ready i r c) = (mail_of c)\<lparr>b_linked := False\<rparr>"
    using input linked by (simp add: mail_of_def)
  then show ?thesis
    using unlink [of "mail_of c"] by (cases "b_linked (mail_of c)") (auto simp: mail_of_def)
qed

lemma mail_doc:
  assumes "socks_ok rows cols old k c" shows "mail_of (onSnapshot d c) = mail_of c"
proof -
  let ?c = "\<lambda>y. c\<lparr>c_active := y_is_active y, c_imageOK := Some (y_image_paste y),
      c_semi := semi_doc (y_semi_auto y) (c_semi c)\<rparr>"
  have "socks_ok rows cols old k (?c y)" for y using assms by (simp add: socks_ok_def)
  note mail_dial [OF this, of ByPush] mail_dial [OF assms, of ByPush]
  then show ?thesis by (cases d) (simp_all add: onSnapshot_def mail_of_def)
qed

lemma conn_step_mail:
  assumes "conn_ok rows cols c" shows "mail_steps c (conn_step g rows cols c v)"
proof -
  from assms obtain old k where c: "socks_ok rows cols old k c" "queue_ok c" by (rule conn_okE)
  show ?thesis
  proof (cases v)
    case (SockOpen i)
    with mail_open [OF c] show ?thesis by blast
  next
    case (SockClosing i)
    with mail_closing [of i c CLOSING] show ?thesis by (auto simp: has_ready_def)
  next
    case (SockClose i failed)
    with mail_closing [of i c CLOSED] show ?thesis by (auto simp: has_ready_def Let_def)
  next
    case (Input b)
    with mail_input [OF c, of b] show ?thesis by simp
  next
    case (Snapshot d)
    with mail_doc [OF c(1)] show ?thesis by simp
  next
    case (RetryTimer i)
    have "socks_ok rows cols old k (c\<lparr>c_timers := ts\<rparr>)" for ts using c(1) by (simp add: socks_ok_def)
    from mail_dial [OF this, of ByInput] RetryTimer show ?thesis by (simp add: retry_timer_def)
  qed (simp_all add: watch_tick_def on_visibility_def mail_dial [OF c(1)] split: page_event.split)
qed

lemma line_reaches:
  "mail_step\<^sup>*\<^sup>* (mail_of (run (conn_step g rows cols) (conn_init d now) vs))
     (mail_of (run (conn_step g rows cols) (conn_init d now) (vs @ ws)))"
proof (induction ws rule: rev_induct)
  case (snoc w ws)
  let ?c = "run (conn_step g rows cols) (conn_init d now) (vs @ ws)"
  have "conn_ok rows cols ?c" by (rule conn.inv_run)
  from conn_step_mail [OF this, of g w] snoc show ?case
    by (auto simp: run_append intro: rtranclp.rtrancl_into_rtrancl)
qed simp

section \<open>Properties\<close>

text \<open>C19. The data line implements the mailbox: from the start to any point, and from there to any later
  one, the sockets, the gates and the timers do to the input what steps of the mailbox do.\<close>

theorem line_implements_mailbox:
  "mail_step\<^sup>*\<^sup>* mail_init (mail_of (run (conn_step g rows cols) (conn_init d now) vs)) \<and>
   mail_step\<^sup>*\<^sup>* (mail_of (run (conn_step g rows cols) (conn_init d now) vs))
     (mail_of (run (conn_step g rows cols) (conn_init d now) (vs @ ws)))"
proof -
  have "mail_of (run (conn_step g rows cols) (conn_init d now) []) = mail_init"
    by (simp add: mail_of_def mail_init_def conn_init_def connect_def new_socket_def wsState_def)
  then show ?thesis
    using line_reaches [of g rows cols d now "[]" vs] line_reaches [of g rows cols d now vs ws] by simp
qed

text \<open>So nothing accepted is lost or overtaken later, whatever happens.\<close>

lemma accepted_stays:
  "prefix (c_accepted (run (conn_step g rows cols) (conn_init d now) vs))
     (c_accepted (run (conn_step g rows cols) (conn_init d now) (vs @ ws)))"
proof -
  have "b_sent (mail_of (run (conn_step g rows cols) (conn_init d now) us)) @
      b_waiting (mail_of (run (conn_step g rows cols) (conn_init d now) us)) =
      c_accepted (run (conn_step g rows cols) (conn_init d now) us)" for us
    by (rule page_run_ok [of rows cols g d now us]) (simp add: socks_ok_def mail_of_def)
  moreover have "mail_ok mail_init" by (simp add: mail_ok_def mail_init_def)
  moreover have "mail_of (run (conn_step g rows cols) (conn_init d now) []) = mail_init"
    by (simp add: mail_of_def mail_init_def conn_init_def connect_def new_socket_def wsState_def)
  ultimately show ?thesis
    using mail_keeps [OF line_reaches [of g rows cols d now vs ws]]
      mail_ok_reach [OF line_reaches [of g rows cols d now "[]" vs]] by simp
qed

section \<open>Nothing waits for ever\<close>

text \<open>What brings a connection about from any state: nothing while there is one; the answer of the
  server while one is dialled; else the user coming back to the page after half a minute.\<close>

definition rescue :: "conn \<Rightarrow> conn_event list" where
  "rescue c =
     (if wsState c = 1 then []
      else if wsState c = 0 then [SockOpen (length (c_socks c) - 1)]
      else [Elapse 30000, Visibility True, SockOpen (length (c_socks c))])"

lemma conn_run_ok: "conn_ok rows cols c \<Longrightarrow> conn_ok rows cols (run (conn_step g rows cols) c vs)"
  by (induction vs arbitrary: c) (simp_all add: conn_step_ok del: conn_step.simps)

lemma opens:
  assumes "conn_ok rows cols c" "wsState c = 0"
  shows "wsState (conn_step g rows cols c (SockOpen (length (c_socks c) - 1))) = 1"
    "c_accepted (conn_step g rows cols c (SockOpen (length (c_socks c) - 1))) = c_accepted c"
proof -
  from assms(1) obtain old k where c: "socks_ok rows cols old k c" "queue_ok c" by (rule conn_okE)
  have "has_ready (length (c_socks c) - 1) {CONNECTING} c"
    using c(1) assms(2) wsState_current [OF c(1)] by (simp add: socks_ok_def has_ready_def)
  note effect = open_effect [OF c this, of g]
  have "c_ws c = Some (length old)" using c(1) by (simp add: socks_ok_def)
  then show "wsState (conn_step g rows cols c (SockOpen (length (c_socks c) - 1))) = 1"
    "c_accepted (conn_step g rows cols c (SockOpen (length (c_socks c) - 1))) = c_accepted c"
    unfolding effect by (simp_all add: wsState_def set_stat_def)
qed

lemma comes_back:
  assumes "conn_ok rows cols c" "wsState c \<noteq> 0" "wsState c \<noteq> 1"
  shows "wsState (run (conn_step g rows cols) c [Elapse 30000, Visibility True]) = 0"
    "length (c_socks (run (conn_step g rows cols) c [Elapse 30000, Visibility True])) = Suc (length (c_socks c))"
    "c_accepted (run (conn_step g rows cols) c [Elapse 30000, Visibility True]) = c_accepted c"
proof -
  have "c_last c \<le> c_now c" using assms(1) by (auto simp: dials_ok_def elim!: conn_okE)
  moreover have "backoff (c_attempts c) \<le> 30000" by (simp add: backoff_def)
  ultimately have "\<not> c_now c + 30000 - c_last c < backoff (c_attempts c)" by linarith
  with assms(2,3) show "wsState (run (conn_step g rows cols) c [Elapse 30000, Visibility True]) = 0"
    "length (c_socks (run (conn_step g rows cols) c [Elapse 30000, Visibility True])) = Suc (length (c_socks c))"
    "c_accepted (run (conn_step g rows cols) c [Elapse 30000, Visibility True]) = c_accepted c"
    by (simp_all add: on_visibility_def requestConnect_def cmReconnectGate_def Let_def)
       (simp_all add: connect_def wsState_def set_stat_def new_socket_def)
qed

lemma rescue_connects:
  assumes "conn_ok rows cols c"
  shows "wsState (run (conn_step g rows cols) c (rescue c)) = 1 \<and>
    c_accepted (run (conn_step g rows cols) c (rescue c)) = c_accepted c"
proof -
  consider "wsState c = 1" | "wsState c = 0" | (closed) "wsState c \<noteq> 0" "wsState c \<noteq> 1" by blast
  then show ?thesis
  proof cases
    case closed
    let ?d = "run (conn_step g rows cols) c [Elapse 30000, Visibility True]"
    note d = comes_back [OF assms closed, of g]
    have "conn_ok rows cols ?d" by (intro conn_run_ok assms)
    note o = opens [OF this d(1), of g]
    have "run (conn_step g rows cols) c (rescue c) = conn_step g rows cols ?d (SockOpen (length (c_socks ?d) - 1))"
      unfolding d(2) using closed by (simp add: rescue_def del: conn_step.simps)
    with d o show ?thesis by (simp only: simp_thms)
  next
    case 2
    with opens [OF assms this, of g] show ?thesis by (simp add: rescue_def del: conn_step.simps)
  qed (simp add: rescue_def)
qed

text \<open>C9. No input is ever stuck for good: whatever happened before, once the server answers the dial
  that is under way, or the user comes back to the page after half a minute and the server answers,
  there is a connection, the queue is empty, and everything that was accepted has been sent.\<close>

theorem input_gets_through:
  "let c = page_run g rows cols d now vs; c' = run (conn_step g rows cols) c (rescue c)
   in wsState c' = 1 \<and> c_q c' = [] \<and> concat (map k_input (c_socks c')) = c_accepted c"
proof -
  let ?c = "page_run g rows cols d now vs"
  let ?c' = "run (conn_step g rows cols) ?c (rescue ?c)"
  have ok: "conn_ok rows cols ?c" by (rule conn.inv_run)
  then have "conn_ok rows cols ?c'" by (rule conn_run_ok)
  then obtain old k where k: "socks_ok rows cols old k ?c'" by (rule conn_okE)
  moreover from rescue_connects [OF ok, of g] wsState_current [OF k] have "k_ready k = OPEN" by simp
  ultimately show ?thesis
    using rescue_connects [OF ok, of g] by (auto simp: socks_ok_def Let_def)
qed

end
