(* ===== verification/Versions.thy ===== *)
theory Versions
  imports JsRuntime
begin

text \<open>
  Release numbers in the list of devices (\<^verbatim>\<open>web/static/devices.js\<close>): \<^verbatim>\<open>relNum\<close> extracts the
  number from a version string, \<^verbatim>\<open>cmpRel\<close> compares two of them, \<^verbatim>\<open>updateAvailable\<close> and
  \<^verbatim>\<open>statusDot\<close> decide what is shown. The specification is the lexicographic order of
  releases, an instance of \<open>linorder\<close>. Components of a number are compared as mathematical
  integers (exact for the doubles of the code below \<open>2 ^ 53\<close>).
\<close>

section \<open>The code\<close>

text \<open>A greedy run of digits: \<^verbatim>\<open>\d+\<close>. What follows it in the pattern is no digit, so the
  regular expression never gives a digit back.\<close>

definition digits_then :: "string \<Rightarrow> (string \<times> string) option" where
  "digits_then s =
     (let ds = takeWhile is_digit s in if ds = [] then None else Some (ds, dropWhile is_digit s))"

fun dot :: "string \<Rightarrow> string option" where
  "dot (c # s) = (if c = CHR ''.'' then Some s else None)"
| "dot [] = None"

text \<open>\<^verbatim>\<open>/^v?(\d+\.\d+\.\d+)/\<close>, the captured group or the empty string.\<close>

definition match_release :: "string \<Rightarrow> string option" where
  "match_release s =
     Option.bind (digits_then s) (\<lambda>(a, s).
     Option.bind (dot s) (\<lambda>s.
     Option.bind (digits_then s) (\<lambda>(b, s).
     Option.bind (dot s) (\<lambda>s.
     Option.bind (digits_then s) (\<lambda>(c, s).
     Some (a @ CHR ''.'' # b @ CHR ''.'' # c))))))"

definition relNum :: "string option \<Rightarrow> string" where
  "relNum v =
     (let s = or_opt v [];
          s = (if s \<noteq> [] \<and> hd s = CHR ''v'' then tl s else s)
      in case match_release s of None \<Rightarrow> [] | Some r \<Rightarrow> r)"

fun cmp_parts :: "nat \<Rightarrow> nat list \<Rightarrow> nat list \<Rightarrow> int" where
  "cmp_parts 0 pa pb = 0"
| "cmp_parts (Suc n) (a # pa) (b # pb) = (if a \<noteq> b then (if a < b then -1 else 1) else cmp_parts n pa pb)"
| "cmp_parts (Suc n) pa pb = 0"

definition cmpRel :: "string \<Rightarrow> string \<Rightarrow> int" where
  "cmpRel a b =
     cmp_parts 3 (map (digits_value 0) (str_split (CHR ''.'') a)) (map (digits_value 0) (str_split (CHR ''.'') b))"

definition updateAvailable :: "string \<Rightarrow> string option \<Rightarrow> bool" where
  "updateAvailable target v =
     (let a = relNum v; b = relNum (Some target) in a \<noteq> [] \<and> b \<noteq> [] \<and> cmpRel a b < 0)"

text \<open>The dot of a row: red with both versions in its title, green with the version, or none.\<close>

datatype status_dot = RedDot "string option" string | GreenDot "string option"

definition statusDot :: "string \<Rightarrow> bool \<Rightarrow> string option \<Rightarrow> status_dot option" where
  "statusDot target active v =
     (if updateAvailable target v then Some (RedDot v target)
      else if active then Some (GreenDot (if or_opt v [] \<noteq> [] then v else None))
      else None)"

section \<open>Releases\<close>

datatype release = Release (major: nat) (minor: nat) (patch: nat)

instantiation release :: linorder
begin

definition less_eq_release :: "release \<Rightarrow> release \<Rightarrow> bool" where
  "less_eq_release r t \<longleftrightarrow>
     major r < major t \<or> major r = major t \<and>
       (minor r < minor t \<or> minor r = minor t \<and> patch r \<le> patch t)"

definition less_release :: "release \<Rightarrow> release \<Rightarrow> bool" where
  "less_release r t \<longleftrightarrow>
     major r < major t \<or> major r = major t \<and>
       (minor r < minor t \<or> minor r = minor t \<and> patch r < patch t)"

instance
  by intro_classes (auto simp: less_eq_release_def less_release_def intro: release.expand)

end

definition render :: "release \<Rightarrow> string" where
  "render r = nat_to_string (major r) @ CHR ''.'' # nat_to_string (minor r) @ CHR ''.'' # nat_to_string (patch r)"

definition no_digit_first :: "string \<Rightarrow> bool" where
  "no_digit_first s \<longleftrightarrow> s = [] \<or> \<not> is_digit (hd s)"

lemma digits_then_nat: "no_digit_first s \<Longrightarrow> digits_then (nat_to_string n @ s) = Some (nat_to_string n, s)"
proof -
  assume s: "no_digit_first s"
  have "list_all is_digit (nat_to_string n)" "nat_to_string n \<noteq> []"
    using nat_to_string_digits by auto
  moreover have "takeWhile is_digit s = []" "dropWhile is_digit s = s"
    using s by (cases s; simp add: no_digit_first_def)+
  ultimately show ?thesis
    by (simp add: digits_then_def takeWhile_append dropWhile_append list_all_iff)
qed

lemma dot_not_digit: "\<not> is_digit (CHR ''.'')"
  by (simp add: is_digit_def)

lemma match_release_render:
  "no_digit_first s \<Longrightarrow> match_release (render r @ s) = Some (render r)"
  by (simp add: match_release_def render_def digits_then_nat no_digit_first_def dot_not_digit)

lemma render_first: "render r \<noteq> [] \<and> hd (render r) \<noteq> CHR ''v''"
proof -
  obtain c s where "nat_to_string (major r) = c # s" "is_digit c"
    using nat_to_string_digits [of "major r"] by (cases "nat_to_string (major r)") auto
  then show ?thesis by (auto simp: render_def is_digit_def)
qed

lemma relNum_render: "no_digit_first s \<Longrightarrow> pre \<in> {[], ''v''} \<Longrightarrow> relNum (Some (pre @ render r @ s)) = render r"
  using render_first [of r] match_release_render [of s r]
  by (auto simp: relNum_def or_str_def Let_def)

lemma split_render:
  "str_split (CHR ''.'') (render r) =
     [nat_to_string (major r), nat_to_string (minor r), nat_to_string (patch r)]"
proof -
  have "CHR ''.'' \<notin> set (nat_to_string n)" for n
    using nat_to_string_digits [of n] dot_not_digit by (auto simp: list_all_iff)
  then show ?thesis by (simp add: render_def str_split_append str_split_no_sep)
qed

lemma cmpRel_render: "cmpRel (render r) (render t) = (if r < t then -1 else if t < r then 1 else 0)"
  by (auto simp: cmpRel_def split_render digits_value_nat_to_string less_release_def numeral_3_eq_3)

section \<open>Properties\<close>

text \<open>On the version strings that tags and \<^verbatim>\<open>git describe\<close> produce (a release number, a
  \<^verbatim>\<open>v\<close> or none before it, anything but a digit after it), a device is marked for an update
  exactly when its release is older than the target's in the order of releases.\<close>

lemma updateAvailable_iff_older:
  assumes "pre \<in> {[], ''v''}" "pre' \<in> {[], ''v''}" "no_digit_first suf" "no_digit_first suf'"
  shows "updateAvailable (pre' @ render t @ suf') (Some (pre @ render r @ suf)) \<longleftrightarrow> r < t"
  using assms render_first
  by (simp add: updateAvailable_def relNum_render cmpRel_render Let_def)

lemma updateAvailable_iff_older_witness:
  "updateAvailable (''v'' @ render (Release 1 10 0) @ []) (Some ([] @ render (Release 1 9 12) @ ''-5-gabc123'')) =
     (Release 1 9 12 < Release 1 10 0)"
  by (rule updateAvailable_iff_older) (simp_all add: no_digit_first_def is_digit_def)

text \<open>A version or target in which no release number is found is never marked: the dot is
  green for an active row and absent for an idle one.\<close>

lemma unknown_version_neutral:
  assumes "relNum v = [] \<or> relNum (Some target) = []"
  shows "statusDot target active v =
    (if active then Some (GreenDot (if or_opt v [] \<noteq> [] then v else None)) else None)"
  using assms by (auto simp: statusDot_def updateAvailable_def Let_def)

lemma unknown_version_neutral_witness:
  "statusDot ''v1.2.3'' True (Some ''dev'') = Some (GreenDot (Some ''dev''))"
  by (subst unknown_version_neutral)
     (simp_all add: relNum_def match_release_def digits_then_def is_digit_def or_str_def)

end
