(* ===== verification/DevicesPage.thy ===== *)
theory DevicesPage
  imports Console Versions
begin

text \<open>
  The list of devices (\<^verbatim>\<open>web/static/devices.js\<close>): the answers of the API with the redirect to
  the login, the page \<^verbatim>\<open>main\<close> builds from them, the buttons of a card (remote commands,
  history, removal) and the enrolment of a new PC. Answers are parameters; a card is held as
  the values its elements show.
\<close>

section \<open>Requests\<close>

text \<open>Why a request failed. \<open>Unauth\<close> goes with the redirect to \<^verbatim>\<open>/login\<close>.\<close>

datatype req_error = Unauth | HttpStatus nat | Network

definition jget :: "'a response \<Rightarrow> req_error + 'a" where
  "jget r =
     (case r of
        NoResponse \<Rightarrow> Inl Network
      | Response n j \<Rightarrow> if n = 401 then Inl Unauth else if \<not> ok_status n then Inl (HttpStatus n) else Inr j)"

definition postCmd_body :: "string \<Rightarrow> string \<Rightarrow> string option \<Rightarrow> string option \<Rightarrow> string" where
  "postCmd_body pc cmd sid agent =
     form_body [(''pc'', pc), (''cmd'', cmd), (''sid'', or_opt sid []), (''agent'', or_opt agent [])]"

definition postCmd :: "'a response \<Rightarrow> req_error + 'a" where
  "postCmd r =
     (case r of
        NoResponse \<Rightarrow> Inl Network
      | Response n j \<Rightarrow> if n = 401 then Inl Unauth else if \<not> ok_status n then Inl (HttpStatus n) else Inr j)"

section \<open>The page\<close>

text \<open>A session of the API as this page reads it, around the part \<open>api_session\<close> the terminal
  page reads as well.\<close>

record device_session = api_session +
  j_cm_version :: "string option"
  j_is_active :: bool
  j_semi_auto :: bool

record device =
  d_id :: string
  d_cm_version :: "string option"
  d_sessions :: int
  d_active :: int

definition agentLabel :: "'a api_session_scheme \<Rightarrow> string" where
  "agentLabel x = or_opt (j_agent x) []"

definition row_dir :: "'a api_session_scheme \<Rightarrow> string" where
  "row_dir x = or_opt (j_short_dir x) (or_str (j_key x) ''session'')"

text \<open>The link of a row.\<close>

definition session_link :: "string \<Rightarrow> 'a api_session_scheme \<Rightarrow> string" where
  "session_link pc x =
     ''/term?pc='' @ encodeURIComponent pc @ ''&sid='' @ encodeURIComponent (j_key x) @
     ''&dir='' @ encodeURIComponent (row_dir x) @
     (if agentLabel x \<noteq> [] then ''&agent='' @ encodeURIComponent (agentLabel x) else [])"

record row =
  o_dir :: string
  o_dot :: "status_dot option"
  o_semi :: bool
  o_diagShown :: bool
  o_link :: string

record card =
  a_id :: string
  a_dot :: "status_dot option"
  a_sessions :: int
  a_active :: int
  a_rows :: "row list"

definition row_of :: "string \<Rightarrow> string \<Rightarrow> device_session \<Rightarrow> row" where
  "row_of target pc x =
     \<lparr>o_dir = row_dir x, o_dot = statusDot target (j_is_active x) (j_cm_version x), o_semi = j_semi_auto x,
      o_diagShown = False, o_link = session_link pc x\<rparr>"

definition card_of :: "string \<Rightarrow> device \<Rightarrow> device_session list option \<Rightarrow> card" where
  "card_of target d ss =
     \<lparr>a_id = d_id d, a_dot = statusDot target True (d_cm_version d), a_sessions = d_sessions d,
      a_active = d_active d, a_rows = map (row_of target (d_id d)) (case ss of None \<Rightarrow> [] | Some xs \<Rightarrow> xs)\<rparr>"

text \<open>The loop over the devices: a card is added once its sessions have come; a failure ends it.\<close>

fun load_cards :: "string \<Rightarrow> (string \<Rightarrow> device_session list option response) \<Rightarrow> device list \<Rightarrow> card list \<times> req_error option" where
  "load_cards target get [] = ([], None)"
| "load_cards target get (d # ds) =
     (case jget (get (sessions_url (d_id d))) of
        Inl e \<Rightarrow> ([], Some e)
      | Inr ss \<Rightarrow> (let (cs, e) = load_cards target get ds in (card_of target d ss # cs, e)))"

datatype devices_stat = Blank | NoDevices | CountShown nat | PageError req_error

record devices_page =
  s_stat :: devices_stat
  s_cards :: "card list"

text \<open>An error other than \<open>Unauth\<close> is shown; the cards built before it stay.\<close>

definition page_failed :: "req_error \<Rightarrow> devices_page \<Rightarrow> devices_page" where
  "page_failed e p = (if e \<noteq> Unauth then p\<lparr>s_stat := PageError e\<rparr> else p)"

definition devices_main :: "string option response \<Rightarrow> device list response \<Rightarrow>
    (string \<Rightarrow> device_session list option response) \<Rightarrow> devices_page" where
  "devices_main version devs get =
     (let target = (case jget version of Inl _ \<Rightarrow> [] | Inr t \<Rightarrow> or_opt t []);
          p = \<lparr>s_stat = Blank, s_cards = []\<rparr>
      in case jget devs of
           Inl e \<Rightarrow> page_failed e p
         | Inr ds \<Rightarrow>
             if ds = [] then p\<lparr>s_stat := NoDevices\<rparr>
             else let p = p\<lparr>s_stat := CountShown (length ds)\<rparr>;
                      (cs, e) = load_cards target get ds;
                      p = p\<lparr>s_cards := cs\<rparr>
                  in case e of None \<Rightarrow> p | Some e \<Rightarrow> page_failed e p)"

definition toggle_diag :: "row \<Rightarrow> row" where
  "toggle_diag r = r\<lparr>o_diagShown := \<not> o_diagShown r\<rparr>"

text \<open>\<^verbatim>\<open>diagPre\<close>: the raw fields of a row that are present, in a fixed order, and the target.\<close>

definition diag_keys :: "string list" where
  "diag_keys = [''pid'', ''session_id'', ''key'', ''cm_version'', ''window_name'', ''short_dir'', ''cwd'',
     ''start_time'', ''is_active'', ''usage_percent'', ''reset_time'', ''updated_at'']"

definition diagPre :: "(string \<Rightarrow> 'json option) \<Rightarrow> (string \<Rightarrow> 'json) \<Rightarrow> string \<Rightarrow> string \<Rightarrow> (string \<times> 'json) list" where
  "diagPre x str unknown target =
     List.map_filter (\<lambda>k. map_option (Pair k) (x k)) diag_keys @ [(''_target'', str (or_str target unknown))]"

text \<open>One line of \<^verbatim>\<open>cmdAudit\<close>.\<close>

record audit =
  q_ts :: "string option"
  q_cmd :: string
  q_sid :: "string option"
  q_audit_status :: string
  q_detail :: "string option"
  q_requested_by :: "string option"

definition audit_line :: "audit \<Rightarrow> string" where
  "audit_line c =
     or_opt (q_ts c) [] @ ''  '' @ q_cmd c @
     (if or_opt (q_sid c) [] \<noteq> [] then ''('' @ or_opt (q_sid c) [] @ '')'' else []) @
     ''  ['' @ q_audit_status c @ ''] '' @ or_opt (q_detail c) [] @ ''  by '' @ or_opt (q_requested_by c) ''?''"

definition cmdAudit :: "audit list response \<Rightarrow> req_error + string list" where
  "cmdAudit r = (case jget r of Inl e \<Rightarrow> Inl e | Inr cs \<Rightarrow> Inr (map audit_line cs))"

section \<open>The buttons of a card\<close>

text \<open>A command button (\<^verbatim>\<open>mkOp\<close> and the one of a session): the requests it posted, whether it is
  disabled, and what the page said last.\<close>

datatype button_note = Silent | Told | Alerted req_error

record op_button =
  u_disabled :: bool
  u_posted :: "string list"
  u_note :: button_note

datatype 'a button_event = Pressed bool | Answered "'a response"

fun op_step :: "string \<Rightarrow> op_button \<Rightarrow> 'a button_event \<Rightarrow> op_button" where
  "op_step body b (Pressed confirmed) =
     (if u_disabled b \<or> \<not> confirmed then b
      else b\<lparr>u_disabled := True, u_posted := u_posted b @ [body]\<rparr>)"
| "op_step body b (Answered r) =
     (if \<not> u_disabled b then b
      else case postCmd r of
             Inr _ \<Rightarrow> b\<lparr>u_disabled := False, u_note := Told\<rparr>
           | Inl e \<Rightarrow> b\<lparr>u_disabled := False, u_note := (if e \<noteq> Unauth then Alerted e else u_note b)\<rparr>)"

text \<open>The two that use it: the update of a whole PC, and the return of a session.\<close>

definition update_click :: "device \<Rightarrow> op_button \<Rightarrow> 'a button_event \<Rightarrow> op_button" where
  "update_click d = op_step (postCmd_body (d_id d) ''update-all'' (Some []) None)"

definition return_click :: "string \<Rightarrow> 'b api_session_scheme \<Rightarrow> op_button \<Rightarrow> 'a button_event \<Rightarrow> op_button" where
  "return_click pc x = op_step (postCmd_body pc ''restart-proxy'' (Some (j_key x)) None)"

text \<open>The history button: the number of audits in its box and of requests still out.\<close>

record history =
  y_shown :: nat
  y_loading :: nat

definition history_click :: "history \<Rightarrow> history" where
  "history_click h = (if y_shown h > 0 then h\<lparr>y_shown := 0\<rparr> else h\<lparr>y_loading := y_loading h + 1\<rparr>)"

definition history_answer :: "'a response \<Rightarrow> history \<Rightarrow> history" where
  "history_answer r h =
     (if y_loading h = 0 then h
      else let h = h\<lparr>y_loading := y_loading h - 1\<rparr>
           in case jget r of Inl _ \<Rightarrow> h | Inr _ \<Rightarrow> h\<lparr>y_shown := y_shown h + 1\<rparr>)"

text \<open>Removal of a PC.\<close>

datatype delete_state = Ready | Deleting | Reloaded | AtLogin

definition delete_url :: "string \<Rightarrow> string" where
  "delete_url pc = ''/api/pc/delete?pc='' @ encodeURIComponent pc"

fun delete_step :: "delete_state \<Rightarrow> 'a button_event \<Rightarrow> delete_state" where
  "delete_step Ready (Pressed confirmed) = (if confirmed then Deleting else Ready)"
| "delete_step Deleting (Answered r) =
     (case r of
        NoResponse \<Rightarrow> Ready
      | Response n _ \<Rightarrow> if n = 401 then AtLogin else if \<not> ok_status n then Ready else Reloaded)"
| "delete_step s _ = s"

section \<open>Enrolment\<close>

record enroll_answer =
  l_expires :: "string option"
  l_command :: string

datatype enroll_text = EnrollCommand bool string string | EnrollFailed

text \<open>The two buttons of the panel write to the same box; the one for a shared PC is \<open>slave\<close>.\<close>

record enroll =
  f_ownerBusy :: bool
  f_slaveBusy :: bool
  f_out :: "enroll_text option"

definition enroll_url :: "bool \<Rightarrow> string" where
  "enroll_url slave = (if slave then ''/api/enroll?role=slave'' else ''/api/enroll'')"

definition enroll_busy :: "bool \<Rightarrow> enroll \<Rightarrow> bool" where
  "enroll_busy slave e = (if slave then f_slaveBusy e else f_ownerBusy e)"

definition set_busy :: "bool \<Rightarrow> bool \<Rightarrow> enroll \<Rightarrow> enroll" where
  "set_busy slave b e = (if slave then e\<lparr>f_slaveBusy := b\<rparr> else e\<lparr>f_ownerBusy := b\<rparr>)"

fun enroll_step :: "bool \<Rightarrow> enroll \<Rightarrow> enroll_answer button_event \<Rightarrow> enroll" where
  "enroll_step slave e (Pressed _) = (if enroll_busy slave e then e else set_busy slave True e)"
| "enroll_step slave e (Answered r) =
     (if \<not> enroll_busy slave e then e
      else set_busy slave False (e\<lparr>f_out := Some (case r of
            NoResponse \<Rightarrow> EnrollFailed
          | Response n j \<Rightarrow> if \<not> ok_status n then EnrollFailed
              else EnrollCommand slave (or_opt (l_expires j) ''15m'') (l_command j))\<rparr>))"

section \<open>Properties\<close>

text \<open>The link of a row is the URL the terminal page builds for the same session.\<close>

lemma session_link_termURL:
  "session_link pc x = termURL (open_page generic []) (console_of pc (api_session.truncate x))"
proof -
  have "p_qcols (open_page generic []) = None" "p_qrows (open_page generic []) = None"
    by (simp_all add: open_page_def location_search_def query_get_def query_parse_def Let_def)
  then show ?thesis
    by (simp add: session_link_def termURL_def console_of_def session_dir_def row_dir_def agentLabel_def
        url_part_def api_session.truncate_def)
qed

lemma session_link_opens_console:
  "p_pc (open_page generic (session_link pc x)) = Some pc"
  "p_sid (open_page generic (session_link pc x)) = Some (j_key x)"
  "p_dir (open_page generic (session_link pc x)) = row_dir x"
  "p_agName (open_page generic (session_link pc x)) = agentLabel x"
  by (simp_all add: session_link_termURL [of pc x generic] termURL_opens_console' console_of_def session_dir_def
      row_dir_def agentLabel_def api_session.truncate_def)

text \<open>Whether the sessions of a device could be read.\<close>

definition readable :: "(string \<Rightarrow> 'a response) \<Rightarrow> string \<Rightarrow> bool" where
  "readable get pc \<longleftrightarrow> \<not> isl (jget (get (sessions_url pc)))"

lemma load_cards_ids:
  "map a_id (fst (load_cards target get ds)) = takeWhile (readable get) (map d_id ds)"
  by (induction ds) (auto simp: card_of_def readable_def split_beta split: sum.splits)

lemma load_cards_error:
  "snd (load_cards target get ds) = None \<longleftrightarrow> list_all (readable get) (map d_id ds)"
  by (induction ds) (auto simp: readable_def split_beta split: sum.splits)

text \<open>The list has one card for every device, in the order of the API, up to the first device
  whose sessions cannot be read, and it reports an error exactly when there is such a device
  (or the list itself failed) and the user was not sent to the login instead.\<close>

lemma devices_shown_up_to_failure:
  "map a_id (s_cards (devices_main version (Response 200 ds) get)) = takeWhile (readable get) (map d_id ds) \<and>
   (case s_stat (devices_main version (Response 200 ds) get) of
      Blank \<Rightarrow> False
    | NoDevices \<Rightarrow> ds = []
    | CountShown n \<Rightarrow> n = length ds \<and> n > 0 \<and>
        snd (load_cards (case jget version of Inl _ \<Rightarrow> [] | Inr t \<Rightarrow> or_opt t []) get ds) \<in> {None, Some Unauth}
    | PageError e \<Rightarrow> e \<noteq> Unauth \<and> \<not> list_all (readable get) (map d_id ds))"
proof -
  let ?t = "case jget version of Inl _ \<Rightarrow> [] | Inr t \<Rightarrow> or_opt t []"
  have ok: "jget (Response 200 j) = Inr j" for j :: "device list" by (simp add: jget_def ok_status_def)
  show ?thesis
    using load_cards_ids [of ?t get ds] load_cards_error [of ?t get ds]
    by (cases "ds = []")
       (auto simp: devices_main_def ok page_failed_def Let_def split_beta split: option.splits)
qed

text \<open>The history button does not remember that a request is out: two clicks before the first
  answer show the same history twice.\<close>

lemma history_shown_twice:
  "let h = history_click (history_click \<lparr>y_shown = 0, y_loading = 0\<rparr>)
   in y_shown (history_answer (Response 200 a) (history_answer (Response 200 b) h)) = 2"
  by (simp add: history_click_def history_answer_def jget_def ok_status_def Let_def)

text \<open>The body of a command is read back, with an empty session or agent where none is given.\<close>

lemma postCmd_body_roundtrip:
  "query_parse (postCmd_body pc cmd sid agent) =
     [(''pc'', pc), (''cmd'', cmd), (''sid'', or_opt sid []), (''agent'', or_opt agent [])]"
  by (simp add: postCmd_body_def query_parse_form)

text \<open>What the panel shows is the last answer of either button, and an answer to one leaves the other
  as it is.\<close>

lemma enroll_shows_last_answer:
  assumes "enroll_busy slave e" "ok_status n"
  shows "f_out (enroll_step slave e (Answered (Response n j))) =
      Some (EnrollCommand slave (or_opt (l_expires j) ''15m'') (l_command j)) \<and>
    \<not> enroll_busy slave (enroll_step slave e (Answered (Response n j))) \<and>
    enroll_busy (\<not> slave) (enroll_step slave e (Answered (Response n j))) = enroll_busy (\<not> slave) e"
  using assms by (simp add: enroll_busy_def set_busy_def)

end
