(* ===== verification/Notifications.thy ===== *)
theory Notifications
  imports DevicesPage
begin

text \<open>
  The push subscription of the list of devices
  (\<^verbatim>\<open>web/static/devices.js\<close>) and the push service worker
  (\<^verbatim>\<open>web/static/firebase-messaging-sw.js\<close>). The Firebase SDK and the browser's
  permission, registration and clients are parameters: what each call answers.
\<close>

section \<open>Notifications\<close>

text \<open>A message of the push service; an absent field is \<open>None\<close>.\<close>

record push_payload =
  b_title :: "string option"
  b_body :: "string option"
  b_tag :: "string option"

record notification =
  n_title :: string
  n_body :: string
  n_tag :: string

definition background_note :: "push_payload \<Rightarrow> notification" where
  "background_note p =
     \<lparr>n_title = or_opt (b_title p) ''herdr-drover'', n_body = or_opt (b_body p) [],
      n_tag = or_opt (b_tag p) ''herdr-drover-task''\<rparr>"


text \<open>Showing a notification replaces the one with the same tag (the platform's rule).\<close>

definition os_show :: "notification list \<Rightarrow> notification \<Rightarrow> notification list" where
  "os_show ns n = filter (\<lambda>m. n_tag m \<noteq> n_tag n) ns @ [n]"





text \<open>The service worker's own start; \<open>sdk\<close> is the SDK started with a configuration, \<open>None\<close> when it
  throws. Without it the worker shows nothing.\<close>

definition messagingReady :: "('cfg \<Rightarrow> 'm option) \<Rightarrow> 'cfg response \<Rightarrow> 'm option" where
  "messagingReady sdk r =
     (case r of NoResponse \<Rightarrow> None | Response n config \<Rightarrow> if \<not> ok_status n then None else sdk config)"

definition onBackgroundMessage :: "'m option \<Rightarrow> notification list \<Rightarrow> push_payload \<Rightarrow> notification list" where
  "onBackgroundMessage messaging ns p =
     (case messaging of None \<Rightarrow> ns | Some _ \<Rightarrow> os_show ns (background_note p))"



lemma worker_without_push: "onBackgroundMessage (messagingReady sdk NoResponse) ns p = ns"
  by (simp add: onBackgroundMessage_def messagingReady_def)

section \<open>Subscription\<close>

datatype permission = Default | Granted | Denied

text \<open>What the calls of one subscription answer: the registration, \<^verbatim>\<open>/api/fbtoken\<close>
  with its key, the imports with the start of the SDK, \<^verbatim>\<open>getToken\<close> (\<open>None\<close> when it throws) and the request that
  stores the token.\<close>

record push_answers =
  q_registered :: bool
  q_fbtoken :: "string option response"
  q_imported :: bool
  q_token :: "string option option"
  q_stored :: "unit response"

datatype push_action = Register | AskToken | Listen | StoreToken string

definition subscribe :: "push_answers \<Rightarrow> bool \<times> push_action list" where
  "subscribe a =
     (if \<not> q_registered a then (False, [Register])
      else case q_fbtoken a of
        NoResponse \<Rightarrow> (False, [Register])
      | Response n vapidKey \<Rightarrow>
          if \<not> ok_status n then (False, [Register])
          else if or_opt vapidKey [] = [] then (False, [Register])
          else if \<not> q_imported a then (False, [Register])
          else case q_token a of
              None \<Rightarrow> (False, [Register, AskToken])
            | Some t \<Rightarrow>
                if or_opt t [] = [] then (False, [Register, AskToken])
                else (q_stored a \<noteq> NoResponse,
                      [Register, AskToken, Listen, StoreToken (form_body [(''token'', or_opt t [])])]))"

datatype push_label = Invite | Enabled | NotConfigured

record push_button =
  v_visible :: bool
  v_disabled :: bool
  v_label :: push_label
  v_prompts :: nat
  v_actions :: "push_action list"
  v_hideTimer :: bool

definition push_hidden :: push_button where
  "push_hidden = \<lparr>v_visible = False, v_disabled = False, v_label = Invite, v_prompts = 0, v_actions = [],
     v_hideTimer = False\<rparr>"

text \<open>\<^verbatim>\<open>setupPush\<close> on a page that has the button. A permission given earlier is used silently.\<close>

definition setupPush :: "bool \<Rightarrow> permission \<Rightarrow> push_answers \<Rightarrow> push_button" where
  "setupPush supported perm a =
     (if \<not> supported then push_hidden
      else if perm = Denied then push_hidden
      else if perm = Granted then push_hidden\<lparr>v_actions := snd (subscribe a)\<rparr>
      else push_hidden\<lparr>v_visible := True\<rparr>)"

text \<open>A click with the user's answer to the prompt and the answers of the subscription; and the
  timer that hides the button.\<close>

definition push_click :: "permission \<Rightarrow> push_answers \<Rightarrow> push_button \<Rightarrow> push_button" where
  "push_click perm a b =
     (if \<not> v_visible b \<or> v_disabled b then b
      else let b = b\<lparr>v_prompts := v_prompts b + 1\<rparr>
           in if perm \<noteq> Granted then b\<lparr>v_visible := False\<rparr>
              else let (ok, acts) = subscribe a
                   in b\<lparr>v_actions := v_actions b @ acts, v_label := (if ok then Enabled else NotConfigured),
                        v_hideTimer := v_hideTimer b \<or> ok\<rparr>)"

definition push_hide :: "push_button \<Rightarrow> push_button" where
  "push_hide b = (if v_hideTimer b then b\<lparr>v_visible := False, v_hideTimer := False\<rparr> else b)"

section \<open>Properties\<close>












text \<open>The life of the button, and how many clicks it takes until the user decides.\<close>

datatype push_ui_event = PushClick permission push_answers | HideTimer

fun push_ui :: "push_button \<Rightarrow> push_ui_event \<Rightarrow> push_button" where
  "push_ui b (PushClick perm a) = push_click perm a b"
| "push_ui b HideTimer = push_hide b"

fun clicks_until_refused :: "push_ui_event list \<Rightarrow> nat" where
  "clicks_until_refused [] = 0"
| "clicks_until_refused (PushClick perm a # vs) = (if perm = Granted then 1 + clicks_until_refused vs else 1)"
| "clicks_until_refused (HideTimer # vs) = clicks_until_refused vs"

lemma push_ui_hidden: "\<not> v_visible b \<Longrightarrow> v_prompts (run push_ui b vs) = v_prompts b"
proof (induction vs arbitrary: b)
  case (Cons v vs)
  have "\<not> v_visible (push_ui b v) \<and> v_prompts (push_ui b v) = v_prompts b"
    using Cons.prems by (cases v) (simp_all add: push_click_def push_hide_def)
  with Cons.IH [of "push_ui b v"] show ?case by simp
qed simp

lemma push_ui_prompts: "v_prompts (run push_ui b vs) \<le> v_prompts b + clicks_until_refused vs"
proof (induction vs arbitrary: b)
  case (Cons v vs)
  show ?case
  proof (cases v)
    case (PushClick perm a)
    show ?thesis
    proof (cases "perm = Granted")
      case True
      have "v_prompts (push_ui b v) \<le> v_prompts b + 1"
        by (simp add: PushClick push_click_def Let_def split_beta)
      with Cons.IH [of "push_ui b v"] True PushClick show ?thesis by simp
    next
      case False
      have "v_prompts (run push_ui (push_ui b v) vs) \<le> v_prompts b + 1"
      proof (cases "v_visible b \<and> \<not> v_disabled b")
        case True
        then have "\<not> v_visible (push_ui b v) \<and> v_prompts (push_ui b v) = v_prompts b + 1"
          using False by (simp add: PushClick push_click_def Let_def)
        then show ?thesis by (simp add: push_ui_hidden)
      next
        case idle: False
        then have same: "push_ui b v = b" by (simp add: PushClick push_click_def)
        show ?thesis
        proof (cases "v_visible b")
          case True
          with idle have "v_disabled b" by simp
          then have "v_prompts (run push_ui b vs) = v_prompts b"
          proof (induction vs arbitrary: b)
            case (Cons w ws)
            have "v_disabled (push_ui b w) \<and> v_prompts (push_ui b w) = v_prompts b"
              using Cons.prems by (cases w) (simp_all add: push_click_def push_hide_def)
            with Cons.IH [of "push_ui b w"] show ?case by simp
          qed simp
          with same show ?thesis by simp
        qed (simp add: same push_ui_hidden)
      qed
      with False PushClick show ?thesis by simp
    qed
  next
    case HideTimer
    have "v_prompts (push_hide b) = v_prompts b" by (simp add: push_hide_def)
    with Cons.IH [of "push_hide b"] HideTimer show ?thesis by simp
  qed
qed simp

text \<open>The page never asks for the permission by itself: over any clicks and timers it asks at
  most once per click, not again after a refusal, and never at all where push is not supported
  or the user has decided before.\<close>

lemma push_prompts_only_on_click:
  "v_prompts (run push_ui (setupPush supported perm a) vs) \<le>
     (if supported \<and> perm = Default then clicks_until_refused vs else 0)"
  using push_ui_prompts [of "setupPush supported perm a" vs] push_ui_hidden [of "setupPush supported perm a" vs]
  by (cases perm) (auto simp: setupPush_def push_hidden_def)

text \<open>Every step of the subscription before the last one has succeeded, with this token.\<close>

definition subscribe_reaches :: "push_answers \<Rightarrow> string \<Rightarrow> bool" where
  "subscribe_reaches a t \<longleftrightarrow> q_registered a \<and> q_imported a \<and> q_token a = Some (Some t) \<and> t \<noteq> [] \<and>
     (case q_fbtoken a of NoResponse \<Rightarrow> False | Response n k \<Rightarrow> ok_status n \<and> or_opt k [] \<noteq> [])"

text \<open>A token is posted exactly when every step before has succeeded, once and readable by the form
  parser, after the listener is in place; and the result is success exactly when in
  addition the server answered to the post, whatever it answered.\<close>

lemma subscribe_posts_token:
  "(StoreToken body \<in> set (snd (subscribe a))) = (\<exists>t. subscribe_reaches a t \<and> body = form_body [(''token'', t)]) \<and>
   fst (subscribe a) = ((\<exists>t. subscribe_reaches a t) \<and> q_stored a \<noteq> NoResponse) \<and>
   query_parse (form_body [(''token'', t)]) = [(''token'', t)] \<and>
   count_list (map (\<lambda>x. x = Listen) (snd (subscribe a))) True \<le> 1"
proof -
  have "query_parse (form_body [(''token'', t)]) = [(''token'', t)]" by (simp add: query_parse_form)
  moreover have "count_list (map (\<lambda>x. x = Listen) (snd (subscribe a))) True \<le> 1"
    by (simp add: subscribe_def split: response.splits option.splits)
  moreover have "fst (subscribe a) = ((\<exists>t. subscribe_reaches a t) \<and> q_stored a \<noteq> NoResponse)"
    by (auto simp: subscribe_def subscribe_reaches_def or_opt_Nil split: response.splits option.splits)
  moreover have "(StoreToken body \<in> set (snd (subscribe a))) =
      (\<exists>t. subscribe_reaches a t \<and> body = form_body [(''token'', t)])"
    by (auto simp: subscribe_def subscribe_reaches_def or_opt_Nil split: response.splits option.splits)
  ultimately show ?thesis by blast
qed

lemma subscribe_ignores_store_status:
  "fst (subscribe (a\<lparr>q_stored := Response m u\<rparr>)) = fst (subscribe (a\<lparr>q_stored := Response n u\<rparr>))"
  by (simp add: subscribe_def split: response.splits option.splits)

end
