(* ===== verification/Webhook.thy ===== *)
theory Webhook
  imports DevicesPage
begin

text \<open>
  The settings of the session webhook, from end to end: the panel of the list of devices
  (\<^verbatim>\<open>setupWebhook\<close> of \<^verbatim>\<open>web/static/devices.js\<close>), the handlers it talks to
  (\<^verbatim>\<open>web/webhooksettings.go\<close> with \<^verbatim>\<open>webhook/webhook.go\<close>) and the document they keep
  (\<^verbatim>\<open>state/webhook.go\<close>). The panel, the requests on their way to the server, the answers on
  their way back and the document are one system (\<open>hook_step\<close>), whose events come in any order.
\<close>

section \<open>The server\<close>

text \<open>\<^verbatim>\<open>webhook.Config\<close>, as the document holds it.\<close>

record hook_doc =
  g_enabled :: bool
  g_url :: string
  g_header_name :: string
  g_header_secret :: string

definition empty_config :: hook_doc where
  "empty_config = \<lparr>g_enabled = False, g_url = [], g_header_name = [], g_header_secret = []\<rparr>"

text \<open>A request to save, and the answer to a load: the secret is only reported as present.\<close>

record hook_request =
  t_enabled :: bool
  t_url :: string
  t_header_name :: string
  t_header_secret :: string

record hook_config =
  z_enabled :: bool
  z_url :: "string option"
  z_header_name :: "string option"
  z_has_secret :: bool

fun containsControlChar :: "string \<Rightarrow> bool" where
  "containsControlChar [] = False"
| "containsControlChar (c # s) =
     (if c = CHR 0x0D \<or> c = CHR 0x0A \<or> c = CHR 0x00 then True else containsControlChar s)"

text \<open>\<^verbatim>\<open>Validate\<close>; \<open>https\<close> is what \<^verbatim>\<open>url.Parse\<close> tells: an absolute URL with the scheme
  \<^verbatim>\<open>https\<close> and a host.\<close>

definition Validate :: "(string \<Rightarrow> bool) \<Rightarrow> hook_doc \<Rightarrow> bool" where
  "Validate https cfg =
     (if \<not> g_enabled cfg then True
      else if \<not> https (g_url cfg) then False
      else if g_header_name cfg = [] then False
      else if containsControlChar (g_header_name cfg) \<or> containsControlChar (g_header_secret cfg) then False
      else True)"

text \<open>What reading the document can come to; \<open>Transient\<close> is a read that fails, \<open>Undecodable\<close> one whose
  document has fields of other types.\<close>

datatype read_fault = NoFault | Transient | Undecodable

datatype fs_read = ReadFailed | NoDoc | BadDoc | DocRead hook_doc

fun fs_get :: "read_fault \<Rightarrow> hook_doc option \<Rightarrow> fs_read" where
  "fs_get Transient d = ReadFailed"
| "fs_get Undecodable d = BadDoc"
| "fs_get NoFault None = NoDoc"
| "fs_get NoFault (Some d) = DocRead d"

text \<open>\<^verbatim>\<open>GetWebhookConfig\<close>, \<open>None\<close> for its error: a read that fails counts as no document.\<close>

fun GetWebhookConfig :: "fs_read \<Rightarrow> hook_doc option" where
  "GetWebhookConfig ReadFailed = Some empty_config"
| "GetWebhookConfig NoDoc = Some empty_config"
| "GetWebhookConfig BadDoc = None"
| "GetWebhookConfig (DocRead d) = Some d"

text \<open>\<^verbatim>\<open>SetWebhookConfig\<close>: whether it succeeded, and the document after it.\<close>

definition SetWebhookConfig :: "(string \<Rightarrow> bool) \<Rightarrow> bool \<Rightarrow> hook_doc \<Rightarrow> hook_doc option \<Rightarrow> bool \<times> hook_doc option" where
  "SetWebhookConfig https writable cfg d =
     (if \<not> Validate https cfg then (False, d) else if writable then (True, Some cfg) else (False, d))"

text \<open>The body of an error; the page does not read it.\<close>

definition no_config :: hook_config where
  "no_config = \<lparr>z_enabled = False, z_url = None, z_header_name = None, z_has_secret = False\<rparr>"

definition apiWebhookGet :: "read_fault \<Rightarrow> hook_doc option \<Rightarrow> hook_config response" where
  "apiWebhookGet fault d =
     (case GetWebhookConfig (fs_get fault d) of
        None \<Rightarrow> Response 500 no_config
      | Some cfg \<Rightarrow> Response 200 \<lparr>z_enabled = g_enabled cfg, z_url = Some (g_url cfg),
          z_header_name = Some (g_header_name cfg), z_has_secret = (g_header_secret cfg \<noteq> [])\<rparr>)"

definition apiWebhookSave ::
    "(string \<Rightarrow> bool) \<Rightarrow> read_fault \<Rightarrow> bool \<Rightarrow> hook_request \<Rightarrow> hook_doc option \<Rightarrow> unit response \<times> hook_doc option" where
  "apiWebhookSave https fault writable req d =
     (case (if t_header_secret req = [] then map_option g_header_secret (GetWebhookConfig (fs_get fault d))
            else Some (t_header_secret req)) of
        None \<Rightarrow> (Response 500 (), d)
      | Some secret \<Rightarrow>
          let cfg = \<lparr>g_enabled = t_enabled req, g_url = t_url req, g_header_name = t_header_name req,
                g_header_secret = secret\<rparr>
          in if \<not> Validate https cfg then (Response 400 (), d)
             else let (ok, d') = SetWebhookConfig https writable cfg d
                  in if \<not> ok then (Response 500 (), d') else (Response 200 (), d'))"

section \<open>The panel\<close>

datatype hook_status = HookBlank | LoadFailed req_error | Saving | Saved | SaveFailed

text \<open>\<open>w_timers\<close> are the due times of the timers that clear the status line.\<close>

record hook_form =
  w_shown :: bool
  w_enabled :: bool
  w_url :: string
  w_hname :: string
  w_secret :: string
  w_hasSecret :: "bool option"
  w_status :: hook_status
  w_timers :: "int list"

text \<open>What the panel asks the server for: \<open>CallLoad True\<close> is the load that follows a save.\<close>

datatype hook_call = CallLoad bool | CallSave hook_request
datatype hook_answer = GotLoad bool "hook_config response" | GotSave "unit response"

definition hook_init :: hook_form where
  "hook_init = \<lparr>w_shown = False, w_enabled = False, w_url = [], w_hname = [], w_secret = [], w_hasSecret = None,
     w_status = HookBlank, w_timers = []\<rparr>"

definition hook_load :: "hook_config response \<Rightarrow> hook_form \<Rightarrow> hook_form" where
  "hook_load r f =
     (case jget r of
        Inr cfg \<Rightarrow> f\<lparr>w_enabled := z_enabled cfg, w_url := or_opt (z_url cfg) [],
          w_hname := or_opt (z_header_name cfg) [], w_secret := [], w_hasSecret := Some (z_has_secret cfg)\<rparr>
      | Inl e \<Rightarrow> f\<lparr>w_status := LoadFailed e\<rparr>)"

definition hook_toggle :: "hook_form \<Rightarrow> hook_form \<times> hook_call list" where
  "hook_toggle f = (f\<lparr>w_shown := \<not> w_shown f\<rparr>, if \<not> w_shown f then [CallLoad False] else [])"

definition hook_request_of :: "hook_form \<Rightarrow> hook_request" where
  "hook_request_of f =
     \<lparr>t_enabled = w_enabled f, t_url = w_url f, t_header_name = w_hname f, t_header_secret = w_secret f\<rparr>"

definition hook_save :: "hook_form \<Rightarrow> hook_form \<times> hook_call list" where
  "hook_save f = (let f = f\<lparr>w_status := Saving\<rparr> in (f, [CallSave (hook_request_of f)]))"

text \<open>The answer to a save: success loads the settings again.\<close>

definition hook_saved :: "unit response \<Rightarrow> hook_form \<Rightarrow> hook_form \<times> hook_call list" where
  "hook_saved r f =
     (case r of
        NoResponse \<Rightarrow> (f\<lparr>w_status := SaveFailed\<rparr>, [])
      | Response n _ \<Rightarrow>
          if \<not> ok_status n then (f\<lparr>w_status := SaveFailed\<rparr>, []) else (f\<lparr>w_status := Saved\<rparr>, [CallLoad True]))"

text \<open>The load after a save, and the timer it sets.\<close>

definition hook_reloaded :: "int \<Rightarrow> hook_config response \<Rightarrow> hook_form \<Rightarrow> hook_form" where
  "hook_reloaded now r f = (let f = hook_load r f in f\<lparr>w_timers := w_timers f @ [now + 2500]\<rparr>)"

definition hook_timer :: "int \<Rightarrow> nat \<Rightarrow> hook_form \<Rightarrow> hook_form" where
  "hook_timer now i f =
     (if i < length (w_timers f) \<and> w_timers f ! i \<le> now
      then f\<lparr>w_timers := remove_nth i (w_timers f), w_status := HookBlank\<rparr> else f)"

section \<open>Panel, network and server\<close>

record hook_world =
  h_form :: hook_form
  h_calls :: "hook_call list"
  h_answers :: "hook_answer list"
  h_doc :: "hook_doc option"

text \<open>The user opens or closes the panel, edits the fields, saves; the server handles the \<open>i\<close>-th request,
  or turns it away with a status (not logged in, another account), or it is lost; an answer arrives or is
  lost; a timer runs.\<close>

datatype hook_event =
    PanelToggled | FieldsEdited bool string string string | SaveClicked
  | Serve nat read_fault bool | Refuse nat nat | LoseCall nat
  | Deliver int nat | LoseAnswer nat | HookTimer int nat

fun refused :: "hook_call \<Rightarrow> nat \<Rightarrow> hook_answer" where
  "refused (CallLoad again) n = GotLoad again (Response n no_config)"
| "refused (CallSave req) n = GotSave (Response n ())"

fun lost_call :: "hook_call \<Rightarrow> hook_answer" where
  "lost_call (CallLoad again) = GotLoad again NoResponse"
| "lost_call (CallSave req) = GotSave NoResponse"

fun lost_answer :: "hook_answer \<Rightarrow> hook_answer" where
  "lost_answer (GotLoad again r) = GotLoad again NoResponse"
| "lost_answer (GotSave r) = GotSave NoResponse"

text \<open>The answer of the server, and the document after it.\<close>

fun serve :: "(string \<Rightarrow> bool) \<Rightarrow> read_fault \<Rightarrow> bool \<Rightarrow> hook_call \<Rightarrow> hook_doc option \<Rightarrow> hook_answer \<times> hook_doc option" where
  "serve https fault writable (CallLoad again) d = (GotLoad again (apiWebhookGet fault d), d)"
| "serve https fault writable (CallSave req) d =
     (let (r, d') = apiWebhookSave https fault writable req d in (GotSave r, d'))"

fun receive :: "int \<Rightarrow> hook_answer \<Rightarrow> hook_form \<Rightarrow> hook_form \<times> hook_call list" where
  "receive now (GotLoad again r) f = (if again then hook_reloaded now r f else hook_load r f, [])"
| "receive now (GotSave r) f = hook_saved r f"

definition panel :: "hook_form \<times> hook_call list \<Rightarrow> hook_world \<Rightarrow> hook_world" where
  "panel r w = w\<lparr>h_form := fst r, h_calls := h_calls w @ snd r\<rparr>"

text \<open>The \<open>i\<close>-th request leaves the network with this answer.\<close>

definition answered :: "nat \<Rightarrow> hook_answer \<Rightarrow> hook_world \<Rightarrow> hook_world" where
  "answered i a w = w\<lparr>h_calls := remove_nth i (h_calls w), h_answers := h_answers w @ [a]\<rparr>"

fun hook_step :: "(string \<Rightarrow> bool) \<Rightarrow> hook_world \<Rightarrow> hook_event \<Rightarrow> hook_world" where
  "hook_step https w PanelToggled = panel (hook_toggle (h_form w)) w"
| "hook_step https w (FieldsEdited en u hn sec) =
     w\<lparr>h_form := (h_form w)\<lparr>w_enabled := en, w_url := u, w_hname := hn, w_secret := sec\<rparr>\<rparr>"
| "hook_step https w SaveClicked = panel (hook_save (h_form w)) w"
| "hook_step https w (Serve i fault writable) =
     (if i < length (h_calls w)
      then let (a, d) = serve https fault writable (h_calls w ! i) (h_doc w) in (answered i a w)\<lparr>h_doc := d\<rparr>
      else w)"
| "hook_step https w (Refuse i n) =
     (if i < length (h_calls w) \<and> \<not> ok_status n then answered i (refused (h_calls w ! i) n) w else w)"
| "hook_step https w (LoseCall i) =
     (if i < length (h_calls w) then answered i (lost_call (h_calls w ! i)) w else w)"
| "hook_step https w (Deliver now i) =
     (if i < length (h_answers w)
      then panel (receive now (h_answers w ! i) (h_form w)) (w\<lparr>h_answers := remove_nth i (h_answers w)\<rparr>) else w)"
| "hook_step https w (LoseAnswer i) =
     (if i < length (h_answers w) then w\<lparr>h_answers := (h_answers w)[i := lost_answer (h_answers w ! i)]\<rparr> else w)"
| "hook_step https w (HookTimer now i) = w\<lparr>h_form := hook_timer now i (h_form w)\<rparr>"

definition hook_world_init :: "hook_doc option \<Rightarrow> hook_world" where
  "hook_world_init d = \<lparr>h_form = hook_init, h_calls = [], h_answers = [], h_doc = d\<rparr>"

section \<open>Where secrets are\<close>

text \<open>The secrets the user typed.\<close>

fun typed_secret :: "hook_event \<Rightarrow> string list" where
  "typed_secret (FieldsEdited en u hn sec) = [sec]"
| "typed_secret v = []"

definition typed_secrets :: "hook_event list \<Rightarrow> string set" where
  "typed_secrets vs = set (concat (map typed_secret vs))"

fun call_secret :: "hook_call \<Rightarrow> string" where
  "call_secret (CallLoad again) = []"
| "call_secret (CallSave req) = t_header_secret req"

text \<open>Every event but a read that fails while a save is served.\<close>

fun reads_ok :: "hook_event \<Rightarrow> bool" where
  "reads_ok (Serve i fault writable) = (fault \<noteq> Transient)"
| "reads_ok v = True"

definition secrets_ok :: "string set \<Rightarrow> string set \<Rightarrow> hook_world \<Rightarrow> bool" where
  "secrets_ok kept typed w \<longleftrightarrow> w_secret (h_form w) \<in> insert [] typed \<and>
     list_all (\<lambda>c. call_secret c \<in> insert [] typed) (h_calls w) \<and>
     (\<exists>d. h_doc w = Some d \<and> g_header_secret d \<noteq> [] \<and> g_header_secret d \<in> kept \<union> typed)"

lemma secrets_ok_mono: "secrets_ok kept typed w \<Longrightarrow> typed \<subseteq> typed' \<Longrightarrow> secrets_ok kept typed' w"
  by (auto simp: secrets_ok_def list_all_iff)

lemma hook_load_secret: "w_secret (hook_load r f) \<in> {[], w_secret f}"
  by (simp add: hook_load_def split: sum.split)

lemma receive_secret:
  "w_secret (fst (receive now a f)) \<in> {[], w_secret f}" "list_all (\<lambda>c. call_secret c = []) (snd (receive now a f))"
  using hook_load_secret by (cases a; simp add: hook_reloaded_def hook_saved_def Let_def split: response.split)+

lemma save_keeps_secret:
  assumes "g_header_secret d \<noteq> []" "fault \<noteq> Transient"
  obtains d' where "snd (apiWebhookSave https fault writable req (Some d)) = Some d'" "g_header_secret d' \<noteq> []"
    "g_header_secret d' \<in> {g_header_secret d, t_header_secret req}"
proof -
  have "\<exists>d'. snd (apiWebhookSave https fault writable req (Some d)) = Some d' \<and> g_header_secret d' \<noteq> [] \<and>
      g_header_secret d' \<in> {g_header_secret d, t_header_secret req}"
    using assms by (cases fault) (auto simp: apiWebhookSave_def SetWebhookConfig_def Let_def split: if_splits)
  with that show ?thesis by blast
qed

lemma call_secret_answered [simp]:
  "h_form (answered i a w) = h_form w" "h_doc (answered i a w) = h_doc w"
  "h_calls (answered i a w) = remove_nth i (h_calls w)"
  by (simp_all add: answered_def)

lemma secrets_ok_serve:
  assumes "secrets_ok kept typed w" "i < length (h_calls w)" "fault \<noteq> Transient"
  shows "secrets_ok kept typed (hook_step https w (Serve i fault writable))"
proof -
  from assms(1) obtain d where d: "h_doc w = Some d" "g_header_secret d \<noteq> []" "g_header_secret d \<in> kept \<union> typed"
    by (auto simp: secrets_ok_def)
  have call: "call_secret (h_calls w ! i) \<in> insert [] typed"
    using assms(1,2) by (simp add: secrets_ok_def list_all_length)
  have "\<exists>d'. snd (serve https fault writable (h_calls w ! i) (h_doc w)) = Some d' \<and> g_header_secret d' \<noteq> [] \<and>
      g_header_secret d' \<in> kept \<union> typed"
  proof (cases "h_calls w ! i")
    case (CallSave req)
    obtain d' where "snd (apiWebhookSave https fault writable req (Some d)) = Some d'" "g_header_secret d' \<noteq> []"
      "g_header_secret d' \<in> {g_header_secret d, t_header_secret req}"
      using save_keeps_secret [OF d(2) assms(3)] by blast
    with d call CallSave show ?thesis by (auto simp: split_beta)
  qed (use d in simp)
  with assms(1,2) show ?thesis
    by (auto simp: secrets_ok_def split_beta list_all_remove_nth)
qed

lemma secrets_ok_panel:
  assumes "secrets_ok kept typed w" "w_secret (fst r) \<in> insert [] typed"
    "list_all (\<lambda>c. call_secret c \<in> insert [] typed) (snd r)"
  shows "secrets_ok kept typed (panel r w)"
  using assms by (simp add: secrets_ok_def panel_def)

lemma secrets_ok_step:
  assumes "secrets_ok kept typed w" "reads_ok v"
  shows "secrets_ok kept (typed \<union> set (typed_secret v)) (hook_step https w v)"
proof -
  have form: "w_secret (h_form w) \<in> insert [] typed" using assms(1) by (simp add: secrets_ok_def)
  have "secrets_ok kept typed (w\<lparr>h_answers := as\<rparr>)" for as using assms(1) by (simp add: secrets_ok_def)
  note answers = this
  have ans: "secrets_ok kept typed (answered i a w)" for i a
    using assms(1) by (simp add: secrets_ok_def list_all_remove_nth)
  show ?thesis
  proof (cases v)
    case (FieldsEdited en u hn sec)
    from secrets_ok_mono [OF assms(1), of "insert sec typed"] FieldsEdited show ?thesis
      by (auto simp: secrets_ok_def)
  next
    case (Serve i fault writable)
    with secrets_ok_serve [OF assms(1), of i fault https writable] assms show ?thesis by simp
  next
    case (Deliver now i)
    have "secrets_ok kept typed (panel (receive now (h_answers w ! i) (h_form w)) (w\<lparr>h_answers := as\<rparr>))" for as
      using receive_secret [of now "h_answers w ! i" "h_form w"] form
      by (intro secrets_ok_panel answers) (auto simp: list_all_iff)
    with Deliver assms(1) show ?thesis by simp
  next
    case PanelToggled
    have "secrets_ok kept typed (panel (hook_toggle (h_form w)) w)"
      using form by (intro secrets_ok_panel assms) (simp_all add: hook_toggle_def)
    with PanelToggled show ?thesis by simp
  next
    case SaveClicked
    have "secrets_ok kept typed (panel (hook_save (h_form w)) w)"
      using form by (intro secrets_ok_panel assms) (simp_all add: hook_save_def hook_request_of_def Let_def)
    with SaveClicked show ?thesis by simp
  next
    case (HookTimer now i)
    with assms(1) show ?thesis by (simp add: secrets_ok_def hook_timer_def)
  qed (use ans answers assms(1) in simp_all)
qed

lemma secrets_ok_run:
  "secrets_ok kept typed w \<Longrightarrow> list_all reads_ok vs \<Longrightarrow>
   secrets_ok kept (typed \<union> typed_secrets vs) (run (hook_step https) w vs)"
proof (induction vs arbitrary: w typed)
  case (Cons v vs)
  from Cons.prems have "secrets_ok kept (typed \<union> set (typed_secret v)) (hook_step https w v)" "list_all reads_ok vs"
    by (simp_all add: secrets_ok_step)
  from Cons.IH [OF this] show ?case by (simp add: typed_secrets_def Un_assoc)
qed (simp add: typed_secrets_def)

section \<open>Properties\<close>

text \<open>C39. The secret of the webhook survives every use of the panel: it is never shown, so every save leaves it
  out unless the user types a new one; but whatever the user does and however requests and answers are
  mixed up, refused or lost, a stored secret stays stored until the user's own text replaces it, as
  long as no read of the document fails while a save is served. And the panel never holds a secret
  that the user has not typed into it.\<close>

theorem webhook_secret_survives:
  assumes "g_header_secret d \<noteq> []" "list_all reads_ok vs"
  shows "(case h_doc (run (hook_step https) (hook_world_init (Some d)) vs) of
      None \<Rightarrow> False
    | Some d' \<Rightarrow> g_header_secret d' \<noteq> [] \<and> g_header_secret d' \<in> insert (g_header_secret d) (typed_secrets vs)) \<and>
    w_secret (h_form (run (hook_step https) (hook_world_init (Some d)) vs)) \<in> insert [] (typed_secrets vs)"
proof -
  have "secrets_ok {g_header_secret d} {} (hook_world_init (Some d))"
    using assms(1) by (simp add: secrets_ok_def hook_world_init_def hook_init_def)
  from secrets_ok_run [OF this assms(2), of https] show ?thesis by (auto simp: secrets_ok_def)
qed

text \<open>The exception is real: the read that should bring the old secret to a save treats a failure as an
  empty document. Then a save of unchanged settings is confirmed and the secret is gone.\<close>

lemma failed_read_drops_secret:
  assumes "g_enabled d = False"
  shows "let w = run (hook_step https) (hook_world_init (Some d))
      [PanelToggled, Serve 0 NoFault True, Deliver 0 0, SaveClicked, Serve 0 Transient True, Deliver 0 0]
    in h_doc w = Some (d\<lparr>g_header_secret := []\<rparr>) \<and> w_status (h_form w) = Saved"
  using assms
  by (simp add: hook_world_init_def hook_init_def panel_def answered_def hook_toggle_def hook_save_def hook_request_of_def
      hook_saved_def hook_load_def jget_def apiWebhookGet_def apiWebhookSave_def SetWebhookConfig_def Validate_def
      empty_config_def ok_status_def remove_nth_def or_str_def Let_def)

text \<open>Without it, opening the panel and saving what it shows changes nothing.\<close>

lemma open_and_save_changes_nothing:
  assumes "Validate https d"
  shows "let w = run (hook_step https) (hook_world_init (Some d))
      [PanelToggled, Serve 0 NoFault True, Deliver 0 0, SaveClicked, Serve 0 NoFault True, Deliver 0 0]
    in h_doc w = Some d \<and> w_status (h_form w) = Saved"
  using assms
  by (cases d) (simp add: hook_world_init_def hook_init_def panel_def answered_def hook_toggle_def hook_save_def hook_request_of_def
      hook_saved_def hook_load_def jget_def apiWebhookGet_def apiWebhookSave_def SetWebhookConfig_def
      ok_status_def remove_nth_def or_str_def Let_def)

text \<open>The timer of a save that succeeded clears the status line whatever it says by then: the failure of
  the next save, made within 2.5 seconds, is wiped off.\<close>

lemma old_timer_hides_failure:
  assumes "w_timers f = [t + 2500]" "w_status f = SaveFailed"
  shows "w_status (hook_timer (t + 2500) 0 f) = HookBlank"
  using assms by (simp add: hook_timer_def)

section \<open>Witness\<close>

text \<open>Two saves: one of the settings as shown, one with a new secret.\<close>

definition hook_trace :: "hook_event list" where
  "hook_trace = [PanelToggled, Serve 0 NoFault True, Deliver 0 0, SaveClicked, Serve 0 NoFault True,
     FieldsEdited False [] [] ''new'', SaveClicked, Serve 0 NoFault True]"

definition hook_demo :: hook_doc where
  "hook_demo = \<lparr>g_enabled = False, g_url = ''https://h/'', g_header_name = ''X-Key'', g_header_secret = ''old''\<rparr>"

theorem webhook_secret_survives_witness:
  "g_header_secret hook_demo \<noteq> [] \<and> list_all reads_ok hook_trace \<and>
   w_secret (h_form (run (hook_step (\<lambda>u. take 8 u = ''https://'')) (hook_world_init (Some hook_demo)) hook_trace)) \<in> insert [] (typed_secrets hook_trace)"
proof -
  have "g_header_secret hook_demo \<noteq> []" "list_all reads_ok hook_trace" by (simp_all add: hook_demo_def hook_trace_def)
  from webhook_secret_survives [OF this, of "\<lambda>u. take 8 u = ''https://''"] this show ?thesis by blast
qed

end
