(* ===== verification/Isolation.thy ===== *)
theory Isolation
  imports Connection
begin

text \<open>
  Each handler of a socket in \<^verbatim>\<open>web/static/term.js\<close> starts with \<^verbatim>\<open>if (ws !== sock) return\<close>.
  This theory shows what that buys: the page behaves as if the events of its older sockets had
  never happened.
\<close>

text \<open>The socket an event belongs to, and whether it is not the current one.\<close>

fun event_socket :: "conn_event \<Rightarrow> nat option" where
  "event_socket (SockOpen i) = Some i"
| "event_socket (SockMessage i t b) = Some i"
| "event_socket (SockClosing i) = Some i"
| "event_socket (SockClose i f) = Some i"
| "event_socket v = None"

definition stale :: "conn \<Rightarrow> conn_event \<Rightarrow> bool" where
  "stale c v \<longleftrightarrow> event_socket v \<noteq> None \<and> event_socket v \<noteq> c_ws c"

text \<open>The events without those of stale sockets.\<close>

fun prune :: "(conn \<Rightarrow> conn_event \<Rightarrow> conn) \<Rightarrow> conn \<Rightarrow> conn_event list \<Rightarrow> conn_event list" where
  "prune step c [] = []"
| "prune step c (v # vs) = (if stale c v then prune step c vs else v # prune step (step c v) vs)"

text \<open>Two states that differ in nothing but how far the older sockets are closed.\<close>

definition traffic :: "socket \<Rightarrow> byte list list \<times> byte list list" where
  "traffic k = (k_sent k, k_input k)"

definition same_line :: "conn \<Rightarrow> conn \<Rightarrow> bool" where
  "same_line c c' \<longleftrightarrow> (\<exists>old old' k. c_socks c = old @ [k] \<and> c_ws c = Some (length old) \<and>
     map traffic old = map traffic old' \<and> c' = c\<lparr>c_socks := old' @ [k]\<rparr>)"

lemma same_lineE:
  assumes "same_line c c'"
  obtains old old' k where "c_socks c = old @ [k]" "c_ws c = Some (length old)" "length old' = length old"
    "map traffic old = map traffic old'" "c' = c\<lparr>c_socks := old' @ [k]\<rparr>"
  using assms unfolding same_line_def by (metis map_eq_imp_length_eq)

lemma same_lineI:
  "c_socks c = old @ [k] \<Longrightarrow> c_ws c = Some (length old) \<Longrightarrow> map traffic old = map traffic old' \<Longrightarrow>
   c' = c\<lparr>c_socks := old' @ [k]\<rparr> \<Longrightarrow> same_line c c'"
  by (auto simp: same_line_def)

text \<open>A change of the other fields, and of the current socket.\<close>

lemma same_line_fields:
  assumes "same_line c c'" "\<And>x ks. f (x\<lparr>c_socks := ks\<rparr>) = (f x)\<lparr>c_socks := ks\<rparr>"
    "\<And>x. c_ws (f x) = c_ws x" "\<And>x. c_socks (f x) = c_socks x"
  shows "same_line (f c) (f c')"
  using assms(1)
proof (rule same_lineE)
  fix old old' k
  assume "c_socks c = old @ [k]" "c_ws c = Some (length old)" "map traffic old = map traffic old'"
    "c' = c\<lparr>c_socks := old' @ [k]\<rparr>"
  then show ?thesis using assms(2-4) by (intro same_lineI [of _ old k old']) auto
qed

lemma same_line_current:
  assumes "same_line c c'" "c_ws c = Some i"
  shows "same_line (upd_sock i f c) (upd_sock i f c')"
  using assms(1)
proof (rule same_lineE)
  fix old old' k
  assume c: "c_socks c = old @ [k]" "c_ws c = Some (length old)" "length old' = length old"
    "map traffic old = map traffic old'" "c' = c\<lparr>c_socks := old' @ [k]\<rparr>"
  with assms(2) have i: "i = length old" by simp
  have "(old' @ [k])[length old := x] = old' @ [x]" "(old' @ [k]) ! length old = k" for x
    using c(3) by (metis list_update_length) (metis c(3) nth_append_length)
  with c i show ?thesis
    by (intro same_lineI [of _ old "f k" old']) (auto simp: upd_sock_def)
qed

lemma same_line_reads:
  assumes "same_line c c'"
  shows "wsState c' = wsState c" "c_ws c' = c_ws c" "histGot c' = histGot c" "c_q c' = c_q c"
    "c_qBytes c' = c_qBytes c" "c_now c' = c_now c" "c_last c' = c_last c" "c_attempts c' = c_attempts c"
    "c_active c' = c_active c" "c_timers c' = c_timers c" "c_semi c' = c_semi c" "c_path c' = c_path c"
    "c_ws c = Some i \<Longrightarrow> has_ready i R c' = has_ready i R c"
  using assms by (elim same_lineE; auto simp: wsState_def histGot_def has_ready_def nth_append)+

lemma same_line_refl: "c_socks c = old @ [k] \<Longrightarrow> c_ws c = Some (length old) \<Longrightarrow> same_line c c"
  by (rule same_lineI) auto

lemma same_line_sym: "same_line c c' \<Longrightarrow> same_line c' c"
proof (elim same_lineE)
  fix old old' k
  assume "c_socks c = old @ [k]" "c_ws c = Some (length old)" "length old' = length old"
    "map traffic old = map traffic old'" "c' = c\<lparr>c_socks := old' @ [k]\<rparr>"
  moreover from this(1) have "c = c\<lparr>c_socks := old @ [k]\<rparr>" by (metis conn.surjective conn.update_convs(1))
  ultimately show "same_line c' c" by (intro same_lineI [of _ old' k old]) auto
qed

lemma same_line_trans: "same_line a b \<Longrightarrow> same_line b c \<Longrightarrow> same_line a c"
proof (elim same_lineE)
  fix o1 o2 k o3 o4 k'
  assume "c_socks a = o1 @ [k]" "c_ws a = Some (length o1)" "map traffic o1 = map traffic o2"
    "b = a\<lparr>c_socks := o2 @ [k]\<rparr>" "c_socks b = o3 @ [k']" "map traffic o3 = map traffic o4"
    "c = b\<lparr>c_socks := o4 @ [k']\<rparr>"
  then show "same_line a c" by (intro same_lineI [of _ o1 k o4]) auto
qed

lemma same_line_set_stat: "same_line c c' \<Longrightarrow> same_line (set_stat st c) (set_stat st c')"
  by (rule same_line_fields) (simp_all add: set_stat_def)

lemma same_line_connect:
  assumes "same_line c c'"
  shows "same_line (connect c) (connect c')"
  using assms
proof (rule same_lineE)
  fix old old' k
  assume "c_socks c = old @ [k]" "length old' = length old" "map traffic old = map traffic old'"
    "c' = c\<lparr>c_socks := old' @ [k]\<rparr>"
  then show ?thesis
    by (intro same_lineI [of _ "old @ [k]" new_socket "old' @ [k]"]) (auto simp: connect_def)
qed

lemma same_line_requestConnect:
  assumes "same_line c c'"
  shows "same_line (requestConnect why c) (requestConnect why c')"
proof -
  let ?f = "\<lambda>n c. set_stat (Reconnecting why) (c\<lparr>c_attempts := n, c_last := c_now c,
      c_dials := c_dials c @ [(c_now c, c_attempts c)]\<rparr>)"
  have "same_line (?f n c) (?f n c')" for n
    by (rule same_line_fields [OF assms]) (simp_all add: set_stat_def)
  then show ?thesis
    using assms same_line_connect by (simp add: requestConnect_def same_line_reads [OF assms] Let_def)
qed

lemma same_line_send_input: "same_line c c' \<Longrightarrow> same_line (send_input b c) (send_input b c')"
proof -
  assume s: "same_line c c'"
  then obtain i where "c_ws c = Some i" by (auto elim: same_lineE)
  with same_line_current [OF s this] same_line_reads(2) [OF s] show ?thesis
    by (simp add: send_input_def)
qed

lemma same_line_sendBytes:
  assumes "same_line c c'"
  shows "same_line (snd (sendBytes b c)) (snd (sendBytes b c'))"
proof -
  have a: "same_line (c\<lparr>c_accepted := c_accepted c @ [b]\<rparr>) (c'\<lparr>c_accepted := c_accepted c' @ [b]\<rparr>)"
    by (rule same_line_fields [OF assms]) simp_all
  have q: "same_line (c\<lparr>c_q := c_q c @ [b], c_qBytes := c_qBytes c + length b, c_accepted := c_accepted c @ [b]\<rparr>)
      (c'\<lparr>c_q := c_q c' @ [b], c_qBytes := c_qBytes c' + length b, c_accepted := c_accepted c' @ [b]\<rparr>)"
    by (rule same_line_fields [OF assms]) simp_all
  show ?thesis
    using same_line_send_input [OF a] same_line_requestConnect [OF q] same_line_set_stat [OF assms]
    by (simp add: sendBytes_def same_line_reads [OF assms])
qed

lemma same_line_flushQ:
  assumes "same_line c c'"
  shows "same_line (flushQ c) (flushQ c')"
  using assms
proof (rule same_lineE)
  fix old old' k
  assume c: "c_socks c = old @ [k]" "c_ws c = Some (length old)" "length old' = length old"
    "map traffic old = map traffic old'" "c' = c\<lparr>c_socks := old' @ [k]\<rparr>"
  show ?thesis
  proof (cases "k_ready k = OPEN")
    case True
    let ?k = "k\<lparr>k_sent := k_sent k @ c_q c, k_input := k_input k @ c_q c\<rparr>"
    have "flushQ c' = c'\<lparr>c_socks := old' @ [?k], c_q := [], c_qBytes := c_qBytes c - sum_list (map length (c_q c))\<rparr>"
      using flushQ_open [of c' old' k] True c by simp
    with flushQ_open [OF c(1,2) True] c show ?thesis
      by (intro same_lineI [of _ old ?k old']) auto
  next
    case False
    then have "wsState c \<noteq> 1" using c by (simp add: wsState_def)
    then have "flushQ c = c" "flushQ c' = c'"
      using same_line_reads(1) [OF assms] by (simp_all add: flushQ.simps [of c] flushQ.simps [of c'])
    with assms show ?thesis by simp
  qed
qed

lemma same_line_onopen:
  assumes "same_line c c'"
  shows "same_line (onopen rows cols i c) (onopen rows cols i c')"
proof (cases "c_ws c = Some i")
  case True
  have ws: "c_ws (sock_send i b x) = c_ws x" "c_ws (x\<lparr>c_attempts := 0\<rparr>) = c_ws x" for b x
    by (simp_all add: sock_send_def upd_sock_def)
  have send: "same_line (sock_send i b x) (sock_send i b y)" if "same_line x y" "c_ws x = Some i" for b x y
    using same_line_current [OF that] by (simp add: sock_send_def)
  have "same_line (c\<lparr>c_attempts := 0\<rparr>) (c'\<lparr>c_attempts := 0\<rparr>)"
    by (rule same_line_fields [OF assms]) simp_all
  from send [OF this, of HELLO_V2] True
  have hello: "same_line (sock_send i HELLO_V2 (c\<lparr>c_attempts := 0\<rparr>)) (sock_send i HELLO_V2 (c'\<lparr>c_attempts := 0\<rparr>))"
    (is "same_line ?x ?y") by simp
  have "same_line (if histGot ?x then sock_send i HELLO_V2_NOHIST ?x else ?x)
      (if histGot ?y then sock_send i HELLO_V2_NOHIST ?y else ?y)" (is "same_line ?u ?v")
    using send [OF hello] hello True same_line_reads(3) [OF hello] by (simp add: ws)
  from send [OF this, of "resizeFrame rows cols"] True
  have "same_line (sock_send i (resizeFrame rows cols) ?u) (sock_send i (resizeFrame rows cols) ?v)"
    by (simp add: ws)
  from same_line_set_stat [OF same_line_flushQ [OF this], of Connected] True same_line_reads(2) [OF assms]
  show ?thesis by (simp add: onopen_def Let_def)
next
  case False
  then show ?thesis using assms same_line_reads(2) [OF assms] by (simp add: onopen_def)
qed

text \<open>Every event that is not stale acts alike on two such states.\<close>

lemma same_line_close:
  assumes "same_line c c'"
  shows "same_line (onclose i (if failed then onerror i c else c)) (onclose i (if failed then onerror i c' else c'))"
  by (rule same_line_fields [OF assms]) (simp_all add: onclose_def onerror_def set_stat_def Let_def)

lemma same_line_ready: "same_line c c' \<Longrightarrow> c_ws c = Some i \<Longrightarrow> same_line (set_ready i r c) (set_ready i r c')"
  unfolding set_ready_def by (rule same_line_current)

lemma same_line_plain:
  assumes "same_line c c'"
  shows "same_line (c\<lparr>c_now := c_now c + n\<rparr>) (c'\<lparr>c_now := c_now c' + n\<rparr>)"
    "same_line (c\<lparr>c_path := f (c_path c)\<rparr>) (c'\<lparr>c_path := f (c_path c')\<rparr>)"
    "same_line (c\<lparr>c_semi := h (c_semi c)\<rparr>) (c'\<lparr>c_semi := h (c_semi c')\<rparr>)"
    "same_line (c\<lparr>c_timers := ts\<rparr>) (c'\<lparr>c_timers := ts\<rparr>)"
    "same_line (c\<lparr>c_active := v, c_imageOK := w, c_semi := h (c_semi c)\<rparr>)
      (c'\<lparr>c_active := v, c_imageOK := w, c_semi := h (c_semi c')\<rparr>)"
  by (rule same_line_fields [OF assms], simp_all)+

lemma same_line_semi_result:
  assumes "same_line c c'"
  shows "same_line (semi_result r c) (semi_result r c')"
  by (rule same_line_fields [OF assms, where f = "semi_result r"])
     (simp_all add: semi_result_def set_stat_def Let_def split: option.splits sa_message.splits)

lemma same_line_step:
  assumes "same_line c c'" "\<not> stale c v"
  shows "same_line (conn_step g rows cols c v) (conn_step g rows cols c' v)"
proof -
  note R = same_line_reads [OF assms(1)]
  have cur: "c_ws c = Some i" if "event_socket v = Some i" for i
    using assms(2) that by (auto simp: stale_def)
  show ?thesis
  proof (cases v)
    case (SockOpen i)
    with cur R(13) [of i] same_line_onopen [OF same_line_ready [OF assms(1)]] assms(1) show ?thesis by simp
  next
    case (SockMessage i t b)
    with cur R(2) R(13) [of i] same_line_plain(2) [OF assms(1), of "\<lambda>d. on_data g t d b"] assms(1)
    show ?thesis by (simp add: onmessage_def)
  next
    case (SockClosing i)
    with cur R(13) [of i] same_line_ready [OF assms(1)] assms(1) show ?thesis by simp
  next
    case (SockClose i f)
    with cur R(13) [of i] same_line_close [OF same_line_ready [OF assms(1)]] assms(1)
    show ?thesis by (simp add: Let_def del: if_split)
  next
    case (Snapshot d)
    then show ?thesis
      using same_line_requestConnect assms(1) same_line_plain(5) [OF assms(1)]
      by (simp add: onSnapshot_def split: option.split)
  next
    case (RetryTimer i)
    then show ?thesis
      using same_line_requestConnect [OF same_line_plain(4) [OF assms(1)]] assms(1)
      by (simp add: retry_timer_def R)
  next
    case (Page w)
    then show ?thesis using same_line_plain(2) [OF assms(1)] assms(1) by (cases w) simp_all
  next
    case (SemiReply i r)
    then show ?thesis using same_line_semi_result [OF assms(1)] by (simp add: R)
  next
    case (SemiTimer i)
    then show ?thesis using same_line_semi_result [OF assms(1)] by (simp add: R)
  qed (use assms(1) same_line_requestConnect [OF assms(1)] same_line_sendBytes [OF assms(1)]
      same_line_plain [OF assms(1)] in \<open>simp_all add: watch_tick_def on_visibility_def R\<close>)
qed

lemma same_line_stale:
  assumes "conn_ok rows cols c" "stale c v"
  shows "same_line c (conn_step g rows cols c v)"
proof -
  from assms(1) obtain old k where c: "socks_ok rows cols old k c" by (rule conn_okE)
  then have s: "c_socks c = old @ [k]" "c_ws c = Some (length old)" by (simp_all add: socks_ok_def)
  note same = same_line_refl [OF s]
  have ready: "same_line c (set_ready i r c)" if "i < length (c_socks c)" "i \<noteq> length old" for i r
  proof -
    have i: "i < length old" using that s by simp
    have "map traffic (old[i := (old ! i)\<lparr>k_ready := r, k_opened := x\<rparr>]) = map traffic old" for x
      using i by (simp add: map_update traffic_def list_update_same_conv)
    with s i show ?thesis
      by (intro same_lineI [of _ old k]) (auto simp: set_ready_def upd_sock_def list_update_append nth_append)
  qed
  show ?thesis
  proof (cases v)
    case (SockOpen i)
    with assms(2) s opening_current(1) [OF c, of i] same show ?thesis by (auto simp: stale_def)
  next
    case (SockClosing i)
    with assms(2) s ready same show ?thesis by (auto simp: stale_def has_ready_def)
  next
    case (SockClose i f)
    with assms(2) s have "i \<noteq> length old" by (simp add: stale_def)
    with SockClose s ready [of i CLOSED] same show ?thesis
      by (auto simp: has_ready_def onclose_def onerror_def set_ready_def upd_sock_def Let_def)
  qed (use assms(2) s same in \<open>auto simp: stale_def onmessage_def\<close>)
qed

lemma prune_from:
  assumes "same_line c c'" "conn_ok rows cols c" "conn_ok rows cols c'"
  shows "same_line (run (conn_step g rows cols) c vs)
    (run (conn_step g rows cols) c' (prune (conn_step g rows cols) c' vs))"
  using assms
proof (induction vs arbitrary: c c')
  case (Cons v vs)
  have st: "stale c' v = stale c v" using same_line_reads(2) [OF Cons.prems(1)] by (simp add: stale_def)
  show ?case
  proof (cases "stale c v")
    case True
    have "same_line (conn_step g rows cols c v) c'"
      using same_line_trans [OF same_line_sym [OF same_line_stale [OF Cons.prems(2) True]] Cons.prems(1)] .
    from Cons.IH [OF this conn_step_ok [OF Cons.prems(2)] Cons.prems(3)] True st show ?thesis by simp
  next
    case False
    from Cons.IH [OF same_line_step [OF Cons.prems(1) False] conn_step_ok [OF Cons.prems(2)]
        conn_step_ok [OF Cons.prems(3)]] False st
    show ?thesis by simp
  qed
qed simp

text \<open>C35. The page behaves as if its older sockets had no events: leaving out every event of a socket
  that is not the current one at its time leads, from any history, to the same page. All that can
  differ is how far the older sockets are closed; what was sent on every socket, the
  terminal, the queue, the status, the timers and the dials are the same.\<close>

theorem stale_events_invisible:
  "same_line (page_run g rows cols d now vs)
    (page_run g rows cols d now (prune (conn_step g rows cols) (conn_init d now) vs))"
proof -
  have "same_line (conn_init d now) (conn_init d now)"
    by (rule same_line_refl [of _ "[]" new_socket]) (simp_all add: conn_init_def connect_def)
  from prune_from [OF this conn_init_ok conn_init_ok] show ?thesis .
qed

end
