(* ===== verification/Startup.thy ===== *)
theory Startup
  imports Connection
begin

text \<open>
  Whole connections from end to end (\<^verbatim>\<open>web/static/term.js\<close>): what a producer of wire v2 sends
  is what the terminal gets, through the META filter, \<^verbatim>\<open>onMeta\<close> and the shim, wherever the
  messages are cut; for the first connection of a page, for a later one, for a history that
  comes late, and for one that was cut off.
\<close>

section \<open>One connection\<close>

lemma onMeta_hist_end: "onMeta g now ''hist_end'' e = e"
  by (simp add: onMeta_def cmParseMeta_def js_put_def Let_def)

text \<open>What a connection leads to: the page that reads the greeting and then writes the text.\<close>

definition greeted :: "page_env \<Rightarrow> rat \<Rightarrow> data_path \<Rightarrow> string \<Rightarrow> byte list \<Rightarrow> term_state \<Rightarrow> bool" where
  "greeted g now d v body e \<longleftrightarrow> (\<exists>ws. flatten sync_symbols ws = sync_spec body \<and>
     same_view e (write_all ws (onMeta g now v (snd (snd d)))))"

lemma feed_twice:
  "flatten sync_symbols (fst (sync_feed sync_init h) @ fst (sync_feed (snd (sync_feed sync_init h)) l)) =
     sync_spec (h @ l)"
proof -
  have "flatten sync_symbols (fst (sync_feed sync_init h) @ fst (sync_feed (snd (sync_feed sync_init h)) l)) =
      flatten sync_symbols (fst (sync_feed sync_init (h @ l)))"
    using sync_stream.feed_append_out [OF sync_init_settled, of h l] by simp
  also have "\<dots> = sync_spec (h @ l)"
    by (simp add: sync_feed_def sync_init_def sync_loop_spec)
  finally show ?thesis .
qed

text \<open>A whole v2 connection, cut anywhere; its history passes unless the page has one.\<close>

lemma connection_greeted:
  fixes g :: page_env and now :: rat and d :: data_path
  assumes "announces v" "plain hs" "plain l" "concat cs = v2_stream v hs l"
  shows "greeted g now d v ((if m_histDone (fst d) then [] else hs) @ l)
      (snd (snd (run (on_data g now) (new_path d) cs)))"
    "m_histDone (fst (run (on_data g now) (new_path d) cs)) = (m_histDone (fst d) \<or> has_body v)"
proof -
  let ?step = "fold (symbol_step g now)" and ?e = "snd (snd d)"
  let ?h = "if m_histDone (fst d) then [] else hs"
  let ?w1 = "fst (sync_feed sync_init ?h)" and ?w2 = "fst (sync_feed (snd (sync_feed sync_init ?h)) l)"
  have symbols: "flatten meta_symbols (fst (run_chunks meta_feed (meta_reset (fst d)) cs)) =
      Inr v # map Inl ?h @ Inr ''hist_end'' # map Inl l"
    using assms by (simp add: meta_connection(1) announces_def meta_lex_v2)
  have start: "same_page (sync_init, e) (sync_init, e)" for e
    by (simp add: same_page_def sync_init_settled)
  from term_events_symbols [OF start, of g now "fst (run_chunks meta_feed (meta_reset (fst d)) cs)" ?e]
  have run: "same_page (snd (run (on_data g now) (new_path d) cs)) (?step (map Inl l)
      (symbol_step g now (Inr ''hist_end'') (?step (map Inl ?h) (sync_init, onMeta g now v ?e))))"
    unfolding symbols by (simp add: run_on_data new_path_def)
  from same_page_meta [OF same_page_emit [OF start [of "onMeta g now v ?e"], of ?h g now], of g now "''hist_end''"]
  have "same_page (snd (sync_feed sync_init ?h), write_all ?w1 (onMeta g now v ?e))
      (symbol_step g now (Inr ''hist_end'') (?step (map Inl ?h) (sync_init, onMeta g now v ?e)))"
    by (simp add: onMeta_hist_end)
  from same_page_emit [OF this, of l g now] run
  have "same_view (snd (snd (run (on_data g now) (new_path d) cs))) (write_all (?w1 @ ?w2) (onMeta g now v ?e))"
    by (simp add: same_page_def same_view_def write_all_append)
  with feed_twice [of ?h l]
  show "greeted g now d v (?h @ l) (snd (snd (run (on_data g now) (new_path d) cs)))"
    unfolding greeted_def by blast
  show "m_histDone (fst (run (on_data g now) (new_path d) cs)) = (m_histDone (fst d) \<or> has_body v)"
    using assms by (simp add: run_on_data new_path_def meta_connection(2) history_flags_v2)
qed

lemma write_all_fields:
  "e_v2 (write_all ws e) = e_v2 e" "e_cols (write_all ws e) = e_cols e" "e_rows (write_all ws e) = e_rows e"
  "e_histGot (write_all ws e) = e_histGot e" "e_log (write_all ws e) = e_log e @ map TWrite ws"
  by (simp_all add: write_all_def)

text \<open>Its log and its fields.\<close>

lemma greetedE:
  assumes "greeted g now d v body e"
  shows "flatten op_symbols (e_log e) =
      flatten op_symbols (e_log (onMeta g now v (snd (snd d)))) @ map Inl (sync_spec body)"
    "e_v2 e = e_v2 (onMeta g now v (snd (snd d)))" "e_cols e = e_cols (onMeta g now v (snd (snd d)))"
    "e_rows e = e_rows (onMeta g now v (snd (snd d)))" "e_histGot e = e_histGot (onMeta g now v (snd (snd d)))"
proof -
  from assms obtain ws where ws: "flatten sync_symbols ws = sync_spec body"
      "same_view e (write_all ws (onMeta g now v (snd (snd d))))" by (auto simp: greeted_def)
  from ws(2) obtain k where k: "e = (write_all ws (onMeta g now v (snd (snd d))))\<lparr>e_log := k\<rparr>"
      "flatten op_symbols k = flatten op_symbols (e_log (write_all ws (onMeta g now v (snd (snd d)))))"
    by (rule same_viewE)
  from k ws(1) show "flatten op_symbols (e_log e) =
      flatten op_symbols (e_log (onMeta g now v (snd (snd d)))) @ map Inl (sync_spec body)"
    "e_v2 e = e_v2 (onMeta g now v (snd (snd d)))" "e_cols e = e_cols (onMeta g now v (snd (snd d)))"
    "e_rows e = e_rows (onMeta g now v (snd (snd d)))" "e_histGot e = e_histGot (onMeta g now v (snd (snd d)))"
    by (simp_all add: write_all_fields flatten_map_TWrite)
qed

section \<open>The greeting\<close>

text \<open>The greeting of wire v2 with the pane's size.\<close>

definition greets :: "string \<Rightarrow> int \<Rightarrow> int \<Rightarrow> bool" where
  "greets v c r \<longleftrightarrow> announces v \<and> cmParseMeta v ''v'' = Some (MNum 2) \<and>
     pos_int (cmParseMeta v ''cols'') = Some c \<and> pos_int (cmParseMeta v ''rows'') = Some r"

definition brings_history :: "string \<Rightarrow> bool" where
  "brings_history v \<longleftrightarrow> cmParseMeta v ''hist'' = Some (MNum 1)"

definition resize_op :: "term_state \<Rightarrow> int \<Rightarrow> int \<Rightarrow> term_op list" where
  "resize_op e c r = (if e_cols e \<noteq> c \<or> e_rows e \<noteq> r then [TResize c r] else [])"

definition reset_op :: "term_state \<Rightarrow> string \<Rightarrow> term_op list" where
  "reset_op e v = (if brings_history v \<and> \<not> e_histGot e \<and> e_painted e \<and>
     pos_int (cmParseMeta v ''hlines'') \<noteq> None then [TReset] else [])"

lemma greeting_parts:
  "e_log (meta_fit g m e) = e_log e" "e_v2 (meta_fit g m e) = e_v2 e" "e_cols (meta_fit g m e) = e_cols e"
  "e_rows (meta_fit g m e) = e_rows e" "e_histGot (meta_fit g m e) = e_histGot e"
  "e_painted (meta_fit g m e) = e_painted e"
  "e_log (meta_proxy now e) = e_log e" "e_v2 (meta_proxy now e) = e_v2 e" "e_cols (meta_proxy now e) = e_cols e"
  "e_rows (meta_proxy now e) = e_rows e" "e_histGot (meta_proxy now e) = e_histGot e"
  "e_painted (meta_proxy now e) = e_painted e"
  "e_log (refresh_proxy g e) = e_log e" "e_v2 (refresh_proxy g e) = e_v2 e" "e_cols (refresh_proxy g e) = e_cols e"
  "e_rows (refresh_proxy g e) = e_rows e" "e_histGot (refresh_proxy g e) = e_histGot e"
  "e_painted (refresh_proxy g e) = e_painted e"
  by (simp_all add: meta_fit_def meta_proxy_def refresh_proxy_def Let_def split: option.split)

lemma greeting_resize:
  assumes "pos_int (m ''cols'') = Some c" "pos_int (m ''rows'') = Some r"
  shows "e_log (meta_resize g m e) = e_log e @ resize_op e c r" "e_v2 (meta_resize g m e) = e_v2 e"
    "e_cols (meta_resize g m e) = c" "e_rows (meta_resize g m e) = r"
    "e_histGot (meta_resize g m e) = e_histGot e" "e_painted (meta_resize g m e) = e_painted e"
  using assms by (simp_all add: meta_resize_def set_buffer_def log_op_def resize_op_def)

lemma greeting_history:
  "e_log (meta_history (cmParseMeta v) e) = e_log e @ reset_op e v"
  "e_v2 (meta_history m e) = e_v2 e" "e_cols (meta_history m e) = e_cols e"
  "e_rows (meta_history m e) = e_rows e"
  "e_histGot (meta_history (cmParseMeta v) e) = (e_histGot e \<or> brings_history v)"
  by (auto simp: meta_history_def log_op_def reset_op_def brings_history_def Let_def)

lemma greeting_ops_cong:
  "e_cols e = e_cols e' \<Longrightarrow> e_rows e = e_rows e' \<Longrightarrow> resize_op e c r = resize_op e' c r"
  "e_histGot e = e_histGot e' \<Longrightarrow> e_painted e = e_painted e' \<Longrightarrow> reset_op e v = reset_op e' v"
  by (simp_all add: resize_op_def reset_op_def)

lemma onMeta_greeting:
  assumes "greets v c r"
  shows "e_log (onMeta g now v e) =
      e_log e @ (if e_v2 e then [] else [TScrollback 5000]) @ resize_op e c r @ reset_op e v"
    "e_v2 (onMeta g now v e)" "e_cols (onMeta g now v e) = c" "e_rows (onMeta g now v e) = r"
    "e_histGot (onMeta g now v e) = (e_histGot e \<or> brings_history v)"
proof -
  let ?m = "cmParseMeta v" and ?e = "if \<not> e_v2 e then log_op (TScrollback 5000) (e\<lparr>e_v2 := True\<rparr>) else e"
  let ?f = "meta_proxy now (refresh_proxy g (meta_fit g ?m (meta_resize g ?m ?e)))"
  from assms have m: "?m ''v'' = Some (MNum 2)" "pos_int (?m ''cols'') = Some c" "pos_int (?m ''rows'') = Some r"
    by (simp_all add: greets_def)
  have on: "onMeta g now v e = (meta_history ?m ?f)\<lparr>e_stat := meta_stat ?m (meta_history ?m ?f)\<rparr>"
    by (simp add: onMeta_def m(1) Let_def)
  note parts = greeting_parts greeting_resize [OF m(2,3)] greeting_history
  have start: "e_log ?e = e_log e @ (if e_v2 e then [] else [TScrollback 5000])" "e_v2 ?e"
    "e_histGot ?e = e_histGot e" "e_painted ?e = e_painted e" "e_cols ?e = e_cols e" "e_rows ?e = e_rows e"
    by (simp_all add: log_op_def)
  have "resize_op ?e c r = resize_op e c r" "reset_op ?f v = reset_op e v"
    by (rule greeting_ops_cong; simp add: parts start)+
  then show "e_log (onMeta g now v e) =
      e_log e @ (if e_v2 e then [] else [TScrollback 5000]) @ resize_op e c r @ reset_op e v"
    "e_v2 (onMeta g now v e)" "e_cols (onMeta g now v e) = c" "e_rows (onMeta g now v e) = r"
    "e_histGot (onMeta g now v e) = (e_histGot e \<or> brings_history v)"
    unfolding on by (simp_all add: parts start)
qed

lemma op_symbols_resize [simp]: "flatten op_symbols (resize_op e c r) = map Inr (resize_op e c r)"
  by (simp add: resize_op_def)

lemma op_symbols_reset [simp]: "flatten op_symbols (reset_op e v) = map Inr (reset_op e v)"
  by (simp add: reset_op_def)

text \<open>The operations a whole connection adds to the log.\<close>

lemma connection_ops:
  fixes g :: page_env and now :: rat and d :: data_path
  assumes "greets v c r" "plain hs" "plain l" "concat cs = v2_stream v hs l"
  shows "flatten op_symbols (e_log (snd (snd (run (on_data g now) (new_path d) cs)))) =
      flatten op_symbols (e_log (snd (snd d))) @
      map Inr ((if e_v2 (snd (snd d)) then [] else [TScrollback 5000]) @
        resize_op (snd (snd d)) c r @ reset_op (snd (snd d)) v) @
      map Inl (sync_spec ((if m_histDone (fst d) then [] else hs) @ l))"
    "e_v2 (snd (snd (run (on_data g now) (new_path d) cs)))"
    "e_cols (snd (snd (run (on_data g now) (new_path d) cs))) = c"
    "e_rows (snd (snd (run (on_data g now) (new_path d) cs))) = r"
    "e_histGot (snd (snd (run (on_data g now) (new_path d) cs))) = (e_histGot (snd (snd d)) \<or> brings_history v)"
  using greetedE [OF connection_greeted(1) [OF _ assms(2-4)], of g now d] assms(1)
  by (simp_all add: greets_def [of v c r] onMeta_greeting [OF assms(1)])

section \<open>A history that is cut off\<close>

lemma cut_connection:
  fixes g :: page_env and now :: rat and d :: data_path
  assumes "greets v c r" "plain h" "concat cs = osc v @ h"
  shows "e_histGot (snd (snd (run (on_data g now) (new_path d) cs))) = (e_histGot (snd (snd d)) \<or> brings_history v)"
    "m_histDone (fst (run (on_data g now) (new_path d) cs)) = m_histDone (fst d)"
proof -
  let ?e = "snd (snd d)" and ?h = "if m_histDone (fst d) then [] else h"
  have lex: "meta_lex (osc v @ h) = Inr v # map Inl h" and v: "prefix ''v='' v"
    using assms(1,2) by (auto simp: greets_def announces_def meta_lex_cut)
  then have symbols: "flatten meta_symbols (fst (run_chunks meta_feed (meta_reset (fst d)) cs)) = Inr v # map Inl ?h"
    using assms(3) by (simp add: meta_connection(1))
  have start: "same_page (sync_init, e) (sync_init, e)" for e
    by (simp add: same_page_def sync_init_settled)
  from term_events_symbols [OF start, of g now "fst (run_chunks meta_feed (meta_reset (fst d)) cs)" ?e]
    same_page_emit [OF start [of "onMeta g now v ?e"], of ?h g now]
  have "same_view (snd (snd (run (on_data g now) (new_path d) cs)))
      (write_all (fst (sync_feed sync_init ?h)) (onMeta g now v ?e))"
    unfolding symbols by (simp add: run_on_data new_path_def same_page_def same_view_def)
  then show "e_histGot (snd (snd (run (on_data g now) (new_path d) cs))) = (e_histGot ?e \<or> brings_history v)"
    using assms(1) by (elim same_viewE) (simp add: write_all_fields onMeta_greeting)
  show "m_histDone (fst (run (on_data g now) (new_path d) cs)) = m_histDone (fst d)"
    using lex v assms(3) by (simp add: run_on_data new_path_def meta_connection(2))
qed

lemma new_path_twice [simp]: "new_path (on_term f (new_path d)) = on_term f (new_path d)"
  by (simp add: new_path_def on_term_def meta_reset_def)

lemma path_parts:
  "fst (on_term f d) = fst d" "snd (snd (on_term f d)) = f (snd (snd d))"
  "snd (snd (new_path d)) = snd (snd d)" "m_histDone (fst (new_path d)) = m_histDone (fst d)"
  by (simp_all add: on_term_def new_path_def meta_reset_def)

definition cut_trace :: "rat \<Rightarrow> string \<Rightarrow> byte list \<Rightarrow> conn_event list" where
  "cut_trace t v h = [SockOpen 0, SockMessage 0 t (osc v @ h), SockClose 0 False, Elapse 1000, Visibility True, SockOpen 1]"

text \<open>The socket closes, and a second later the page is looked at again.\<close>

lemma reopened:
  assumes "c_socks c = [k]" "c_ws c = Some 0" "k_ready k = OPEN" "c_q c = []" "c_attempts c = 0" "c_last c = c_now c"
  shows "let c' = run (conn_step g rows cols) c [SockClose 0 False, Elapse 1000, Visibility True, SockOpen 1]
    in k_sent (c_socks c' ! 1) = handshake rows cols (histGot c) \<and> m_histDone (fst (c_path c')) = m_histDone (fst (c_path c))"
proof -
  have gate: "backoff 0 = 1000" by (simp add: backoff_def)
  show ?thesis
    using assms gate
    by (simp add: has_ready_def set_ready_def upd_sock_def onclose_def set_stat_def on_visibility_def
        requestConnect_def cmReconnectGate_def wsState_def connect_def new_socket_def onopen_def sock_send_def
        flushQ.simps handshake_def histGot_def path_parts Let_def)
qed

section \<open>Properties\<close>

text \<open>C3. A whole connection to a producer of wire v2, cut into messages in any way, on a page in any
  state. The terminal gets exactly this, in this order: its scrollback, when the page was not in
  v2 yet; the pane's size, when it is not the terminal's; a reset, when a history arrives late
  on a painted terminal; the history, unless the page has one already; the live frames; and
  every synchronized update in one write. Then the page is in v2 with the pane's size.\<close>

theorem connection_shows_stream:
  assumes "greets v c r" "plain hs" "plain l" "concat cs = v2_stream v hs l"
  shows "let e = snd (snd d); e' = snd (snd (run (on_data g now) (new_path d) cs)); m = cmParseMeta v in
    flatten op_symbols (e_log e') = flatten op_symbols (e_log e) @
      (if e_v2 e then [] else [Inr (TScrollback 5000)]) @
      (if e_cols e \<noteq> c \<or> e_rows e \<noteq> r then [Inr (TResize c r)] else []) @
      (if m ''hist'' = Some (MNum 1) \<and> \<not> e_histGot e \<and> e_painted e \<and> pos_int (m ''hlines'') \<noteq> None
       then [Inr TReset] else []) @
      map Inl (sync_spec ((if m_histDone (fst d) then [] else hs) @ l)) \<and>
    e_v2 e' \<and> e_cols e' = c \<and> e_rows e' = r \<and> e_histGot e' = (e_histGot e \<or> m ''hist'' = Some (MNum 1))"
  using connection_ops [OF assms, of g now d]
  by (simp add: resize_op_def reset_op_def brings_history_def Let_def)

text \<open>C33. The page counts a history as received when its announcement arrives. When the first
  connection ends inside the history, the next one refuses the history, although the
  page has only a part of it and would still let it through.\<close>

theorem cut_history_not_requested:
  assumes "greets v k r" "brings_history v" "plain h"
  shows "let c = page_run g rows cols (page_init cols rows hh) now (cut_trace t v h)
    in k_sent (c_socks c ! 1) = [HELLO_V2, HELLO_V2_NOHIST, resizeFrame rows cols] \<and>
       \<not> m_histDone (fst (c_path c))"
proof -
  let ?d = "on_term (\<lambda>e. e\<lparr>e_stat := Connected\<rparr>) (new_path (page_init cols rows hh))"
  have "run (on_data g t) (new_path ?d) [osc v @ h] = on_data g t ?d (osc v @ h)" by simp
  with cut_connection [OF assms(1,3), of "[osc v @ h]" g t ?d] assms(2)
  have cut: "e_histGot (snd (snd (on_data g t ?d (osc v @ h))))" "\<not> m_histDone (fst (on_data g t ?d (osc v @ h)))"
    by (simp_all add: on_term_def new_path_def page_init_def meta_reset_def)
  let ?c = "page_run g rows cols (page_init cols rows hh) now [SockOpen 0, SockMessage 0 t (osc v @ h)]"
  have path: "c_path ?c = on_data g t ?d (osc v @ h)"
    by (simp add: conn_init_def connect_def new_socket_def has_ready_def set_ready_def upd_sock_def onopen_def
        sock_send_def flushQ.simps set_stat_def onmessage_def Let_def)
  have "c_socks ?c = [\<lparr>k_ready = OPEN, k_sent = [HELLO_V2, resizeFrame rows cols], k_input = [], k_opened = True\<rparr>]"
    "c_ws ?c = Some 0" "c_q ?c = []" "c_attempts ?c = 0" "c_last ?c = c_now ?c"
    by (simp_all add: conn_init_def connect_def new_socket_def has_ready_def set_ready_def upd_sock_def onopen_def
        sock_send_def flushQ.simps set_stat_def onmessage_def Let_def histGot_def path_parts page_init_def term_init_def)
  from reopened [OF this(1,2) _ this(3-5), of g rows cols] cut path
  show ?thesis by (simp add: cut_trace_def histGot_def handshake_def Let_def)
qed

section \<open>Witnesses\<close>

abbreviation demo_greeting :: string where
  "demo_greeting \<equiv> ''v=2;cols=80;rows=24;hist=1;hlines=2''"

lemma demo_greets: "greets demo_greeting 80 24" "brings_history demo_greeting"
  by code_simp+

theorem connection_shows_stream_witness:
  "let d = page_init 160 500 600;
       e = snd (snd (run (on_data demo_env 0) (new_path d) [v2_stream demo_greeting [0x41, 0x42] [0x43]]))
   in e_cols e = 80 \<and> e_histGot e \<and>
      flatten op_symbols (e_log e) = [Inr (TScrollback 5000), Inr (TResize 80 24),
        Inl (Byte 0x41), Inl (Byte 0x42), Inl (Byte 0x43)]"
proof -
  have "concat [v2_stream demo_greeting [0x41, 0x42] [0x43]] = v2_stream demo_greeting [0x41, 0x42] [0x43]" by simp
  note T = connection_shows_stream [OF demo_greets(1) plain_A plain_B this, of "page_init 160 500 600" demo_env 0]
  have "sync_spec [0x41, 0x42, 0x43] = [Byte 0x41, Byte 0x42, Byte 0x43]" by code_simp
  moreover have "cmParseMeta demo_greeting ''hist'' = Some (MNum 1)" by code_simp
  ultimately show ?thesis
    using T by (simp add: Let_def page_init_def term_init_def meta_init_def)
qed

theorem cut_history_not_requested_witness:
  "k_sent (c_socks (page_run demo_env 500 160 (page_init 160 500 0) 0 (cut_trace 0 demo_greeting [0x41, 0x42])) ! 1) =
     [HELLO_V2, HELLO_V2_NOHIST, resizeFrame 500 160]"
  using cut_history_not_requested [OF demo_greets plain_A, where g = demo_env and rows = 500 and cols = 160
      and hh = 0 and now = 0 and t = 0]
  by (simp add: Let_def)

end
