(* ===== verification/PageStart.thy ===== *)
theory PageStart
  imports Connection Console
begin

text \<open>
  How the terminal page starts (\<^verbatim>\<open>run\<close> of \<^verbatim>\<open>web/static/term.js\<close>): the titles, the URL of
  its WebSocket, the subscription to the session's document with everything that can fail on
  the way, and the timer that lets the view settle after the last frame of a burst. The Firebase
  SDK is a parameter.
\<close>

section \<open>Titles and the socket's URL\<close>

text \<open>The dash between two spaces, as UTF-8.\<close>

definition dash :: string where
  "dash = [CHR '' '', CHR 0xE2, CHR 0x80, CHR 0x94, CHR '' '']"

text \<open>The page's label and the document's title; \<open>None\<close> when it was opened without a PC or a
  session, and \<^verbatim>\<open>run\<close> returns at once.\<close>

definition run_titles :: "page_params \<Rightarrow> (string \<times> string) option" where
  "run_titles p =
     (let pc = or_opt (p_pc p) []; sid = or_opt (p_sid p) [] in
      if pc = [] \<or> sid = [] then None
      else Some (if p_dir p \<noteq> [] then p_dir p @ dash @ pc else pc @ '' : '' @ sid,
                 or_str (p_dir p) sid @ dash @ ''drover-cloud''))"

definition run_page :: "page_params \<Rightarrow> data_path \<Rightarrow> int \<Rightarrow> conn option" where
  "run_page p d now = (case run_titles p of None \<Rightarrow> None | Some _ \<Rightarrow> Some (conn_init d now))"

definition fontOverride :: "string \<Rightarrow> int" where
  "fontOverride url = clampNum (query_get (location_search url) ''font'') 0"

definition ws_proto :: "string \<Rightarrow> string" where
  "ws_proto protocol = (if protocol = ''https:'' then ''wss:'' else ''ws:'')"

definition ws_url :: "string \<Rightarrow> string \<Rightarrow> string \<Rightarrow> string \<Rightarrow> string" where
  "ws_url protocol host pc sid =
     ws_proto protocol @ ''//'' @ host @ ''/ws?pc='' @ encodeURIComponent pc @
     ''&sid='' @ encodeURIComponent sid"

section \<open>The subscription to the session's document\<close>





text \<open>What a page knows of its session before the first document.\<close>

definition no_doc :: "conn \<Rightarrow> bool" where
  "no_doc c \<longleftrightarrow> \<not> c_active c \<and> c_imageOK c = None \<and> \<not> sa_on (c_semi c)"

lemma no_doc_frame [simp]:
  "no_doc (c\<lparr>c_path := x\<rparr>) = no_doc c" "no_doc (c\<lparr>c_socks := k\<rparr>) = no_doc c" "no_doc (c\<lparr>c_ws := w\<rparr>) = no_doc c"
  "no_doc (c\<lparr>c_timers := ts\<rparr>) = no_doc c" "no_doc (c\<lparr>c_now := n\<rparr>) = no_doc c"
  "no_doc (c\<lparr>c_q := q\<rparr>) = no_doc c" "no_doc (c\<lparr>c_qBytes := b\<rparr>) = no_doc c" "no_doc (c\<lparr>c_last := l\<rparr>) = no_doc c"
  "no_doc (c\<lparr>c_accepted := a\<rparr>) = no_doc c" "no_doc (c\<lparr>c_dials := v\<rparr>) = no_doc c"
  "no_doc (c\<lparr>c_attempts := k'\<rparr>) = no_doc c"
  by (simp_all add: no_doc_def)

lemma no_doc_calls [simp]:
  "no_doc (upd_sock i f c) = no_doc c" "no_doc (set_ready i r c) = no_doc c" "no_doc (sock_send i b c) = no_doc c"
  "no_doc (send_input b c) = no_doc c" "no_doc (set_stat st c) = no_doc c" "no_doc (connect c) = no_doc c"
  "no_doc (requestConnect why c) = no_doc c"
  by (simp_all add: upd_sock_def set_ready_def sock_send_def send_input_def set_stat_def connect_def
      requestConnect_def Let_def split: option.split)

lemma no_doc_flushQ [simp]: "no_doc (flushQ c) = no_doc c"
proof (induction c rule: flushQ.induct)
  case (1 c)
  then show ?case by (simp add: flushQ.simps [of c] Let_def)
qed




section \<open>Settling after a burst\<close>

text \<open>\<^verbatim>\<open>landTimer\<close> is the due time of the timer, \<open>l_first\<close> that of the one set at the start.
  Ghosts: the time of the last frame written, and of every call of \<^verbatim>\<open>settle\<close> with the time of the last
  frame before it and whether it is the one of the start.\<close>

record landing =
  l_timer :: "int option"
  l_first :: "int option"
  l_written :: "int option"
  l_settled :: "(int \<times> int option \<times> bool) list"

definition scheduleLand :: "int \<Rightarrow> landing \<Rightarrow> landing" where
  "scheduleLand now l = l\<lparr>l_timer := Some (now + 180)\<rparr>"

definition landing_init :: "int \<Rightarrow> landing" where
  "landing_init now = \<lparr>l_timer = None, l_first = Some (now + 4000), l_written = None, l_settled = []\<rparr>"

datatype land_event = FrameWritten int | LandTimer int | FirstTimer int

text \<open>\<^verbatim>\<open>term.write\<close> calls back; a timer runs once it is due.\<close>

fun land_step :: "landing \<Rightarrow> land_event \<Rightarrow> landing" where
  "land_step l (FrameWritten now) = scheduleLand now (l\<lparr>l_written := Some now\<rparr>)"
| "land_step l (LandTimer now) =
     (case l_timer l of
        None \<Rightarrow> l
      | Some due \<Rightarrow> if now < due then l
          else l\<lparr>l_timer := None, l_settled := l_settled l @ [(now, l_written l, False)]\<rparr>)"
| "land_step l (FirstTimer now) =
     (case l_first l of
        None \<Rightarrow> l
      | Some due \<Rightarrow> if now < due then l
          else l\<lparr>l_first := None, l_settled := l_settled l @ [(now, l_written l, True)]\<rparr>)"

definition land_ok :: "landing \<Rightarrow> bool" where
  "land_ok l \<longleftrightarrow>
     (case l_timer l of None \<Rightarrow> True | Some due \<Rightarrow> l_written l = Some (due - 180)) \<and>
     (case l_written l of None \<Rightarrow> True | Some w \<Rightarrow> l_timer l = Some (w + 180) \<or> (\<exists>t. (t, Some w, False) \<in> set (l_settled l))) \<and>
     list_all (\<lambda>(t, w, first). first \<or> (case w of None \<Rightarrow> False | Some w \<Rightarrow> w + 180 \<le> t)) (l_settled l) \<and>
     length (filter (\<lambda>(t, w, first). first) (l_settled l)) + (if l_first l = None then 0 else 1) = 1"

interpretation landing: guarded_system "landing_init now" land_step land_ok for now :: int
proof unfold_locales
  show "land_ok (landing_init now)" by (simp add: land_ok_def landing_init_def)
  show "land_ok (land_step l v)" if "land_ok l" for l v
    using that by (cases v) (auto simp: land_ok_def scheduleLand_def split: option.splits)
qed

lemma location_search_split:
  assumes "CHR ''?'' \<notin> set b" "CHR ''#'' \<notin> set b" "CHR ''#'' \<notin> set q"
  shows "location_search (b @ CHR ''?'' # q) = q"
proof -
  have "takeWhile (\<lambda>c. c \<noteq> CHR ''#'') (b @ CHR ''?'' # q) = b @ CHR ''?'' # q"
    using assms(2,3) by (auto simp: takeWhile_eq_all_conv)
  then show ?thesis by (simp add: location_search_def str_indexOf_char [OF assms(1)] Let_def)
qed

section \<open>Properties\<close>

text \<open>The WebSocket a page opens leads the server to the same session: whatever characters the PC and
  the session hold, the query of its URL reads back as these two and nothing else, and an
  encrypted page opens an encrypted socket.\<close>

lemma ws_url_opens_session:
  assumes "set host \<inter> {CHR ''?'', CHR ''#''} = {}"
  shows "query_parse (location_search (ws_url protocol host pc sid)) = [(''pc'', pc), (''sid'', sid)] \<and>
    (take 6 (ws_url protocol host pc sid) = ''wss://'') = (protocol = ''https:'')"
proof -
  let ?q = "uri_query [(''pc'', pc), (''sid'', sid)]"
  let ?b = "ws_proto protocol @ ''//'' @ host @ ''/ws''"
  have url: "ws_url protocol host pc sid = ?b @ CHR ''?'' # ?q"
    by (simp add: ws_url_def uri_query_def encode_keys)
  have free: "CHR ''?'' \<notin> set ?b" "CHR ''#'' \<notin> set ?b"
    using assms by (auto simp: ws_proto_def)
  have "location_search (ws_url protocol host pc sid) = ?q"
    unfolding url by (rule location_search_split [OF free uri_query_chars])
  then show ?thesis by (simp add: query_parse_uri) (simp add: ws_url_def ws_proto_def)
qed


text \<open>The view settles only when 180 ms have passed since the last frame (but for one call 4 s
  after the start), and no burst is left unsettled: after its last frame the timer is set
  or the settling has happened.\<close>

lemma settles_after_quiet:
  "let l = run land_step (landing_init now) vs in
   list_all (\<lambda>(t, w, first). if first then True else case w of None \<Rightarrow> False | Some w \<Rightarrow> w + 180 \<le> t) (l_settled l) \<and>
   (case l_written l of
      None \<Rightarrow> True
    | Some w \<Rightarrow> l_timer l = Some (w + 180) \<or> (\<exists>t. (t, Some w, False) \<in> set (l_settled l))) \<and>
   length (filter (\<lambda>(t, w, first). first) (l_settled l)) \<le> 1"
  using landing.inv_run [of now vs] by (auto simp: land_ok_def list_all_iff Let_def)

end
