(* ===== verification/PageInvariant.thy ===== *)
theory PageInvariant
  imports Terminal
begin

text \<open>
  Well-formed states of the terminal page (\<^verbatim>\<open>web/static/term.js\<close>): how the variables of
  \<^verbatim>\<open>run\<close> hang together (\<open>term_wf\<close>), and how little the two filters hold back between
  messages (\<open>path_lean\<close>), over all events of the page.
\<close>

section \<open>The terminal's variables\<close>

definition font_wf :: "page_env \<Rightarrow> int \<Rightarrow> bool" where
  "font_wf g px \<longleftrightarrow> (4 \<le> px \<and> px \<le> 13) \<or> (g_fontOverride g \<noteq> 0 \<and> px = g_fontOverride g)"

definition proxy_wf :: "proxy \<Rightarrow> bool" where
  "proxy_wf p \<longleftrightarrow> \<not> x_syncing p \<and> 0 \<le> x_cellPx p \<and> (case x_spacer p of None \<Rightarrow> True | Some h \<Rightarrow> 0 \<le> h)"

text \<open>The height of the screen is the one at the present grid and font.\<close>

abbreviation screen_measured :: "page_env \<Rightarrow> term_state \<Rightarrow> bool" where
  "screen_measured g e \<equiv> x_screenH (e_proxy e) = g_measure g (e_rows e) (e_fontSize e)"

text \<open>The grid is not empty and the one the proxy computes with, the font is readable or the user's
  own, the spacer exists exactly in v2, only a v2 page has a history, and the height the proxy
  divides by the rows is the one of the present grid and font.\<close>

definition term_wf :: "page_env \<Rightarrow> term_state \<Rightarrow> bool" where
  "term_wf g e \<longleftrightarrow> 0 < e_cols e \<and> 0 < e_rows e \<and> x_rows (e_proxy e) = e_rows e \<and> font_wf g (e_fontSize e) \<and>
     proxy_wf (e_proxy e) \<and> (x_spacer (e_proxy e) \<noteq> None) = e_v2 e \<and> (e_histGot e \<longrightarrow> e_v2 e) \<and>
     (e_v2 e \<longrightarrow> screen_measured g e)"

lemma rowPx_nonneg: "0 \<le> rowPx p"
  by (simp add: rowPx_def)

lemma js_round_nonneg: "0 \<le> x \<Longrightarrow> 0 \<le> js_round x"
  by (simp add: js_round_def)

lemma proxy_wf_cellPx: "proxy_wf p \<Longrightarrow> 0 \<le> x \<Longrightarrow> proxy_wf (p\<lparr>x_cellPx := x\<rparr>)"
  by (simp add: proxy_wf_def)

lemma updateSpacer_wf: "proxy_wf p \<Longrightarrow> proxy_wf (updateSpacer p)"
  using rowPx_nonneg [of p]
  by (auto simp: proxy_wf_def updateSpacer_def Let_def intro!: js_round_nonneg split: option.splits)

lemma termToHost_keeps [simp]:
  "x_rows (termToHost now y p) = x_rows p" "x_syncing (termToHost now y p) = x_syncing p"
  "x_spacer (termToHost now y p) = None \<longleftrightarrow> x_spacer p = None"
  by (simp_all add: termToHost_def set_scrollTop_def Let_def)

lemma measured_updateSpacer [simp]: "x_screenH (updateSpacer p) = x_screenH p"
  by (simp add: updateSpacer_def Let_def split: option.split)

lemma measured_keeps [simp]:
  "x_screenH (termToHost now y p) = x_screenH p" "x_screenH (hostToTerm now p) = x_screenH p"
  "x_screenH (enableProxyScroll p) = x_screenH p"
  by (simp_all add: termToHost_def set_scrollTop_def hostToTerm_def scrollToLine_def enableProxyScroll_def Let_def
      split: option.split)

lemma measured_settle [simp]: "x_screenH (settle_v2 now p) = x_screenH p"
  by (simp add: settle_v2_def Let_def)

lemma termToHost_wf: "proxy_wf p \<Longrightarrow> proxy_wf (termToHost now y p)"
  using updateSpacer_wf [of p] by (simp add: termToHost_def set_scrollTop_def Let_def) (simp add: proxy_wf_def)

lemma hostToTerm_wf:
  "proxy_wf (hostToTerm now p) = proxy_wf p" "x_rows (hostToTerm now p) = x_rows p"
  "x_spacer (hostToTerm now p) = x_spacer p"
  by (simp_all add: hostToTerm_def scrollToLine_def proxy_wf_def Let_def)

lemma settle_v2_wf:
  assumes "proxy_wf p"
  shows "proxy_wf (settle_v2 now p)" "x_rows (settle_v2 now p) = x_rows p"
    "x_spacer (settle_v2 now p) = None \<longleftrightarrow> x_spacer p = None"
  using assms rowPx_nonneg [of p]
  by (simp_all add: settle_v2_def Let_def termToHost_wf updateSpacer_wf proxy_wf_cellPx)

lemma enable_wf:
  assumes "proxy_wf p"
  shows "proxy_wf (enableProxyScroll p)" "x_rows (enableProxyScroll p) = x_rows p"
    "x_spacer (enableProxyScroll p) \<noteq> None"
proof -
  let ?p = "p\<lparr>x_spacer := Some 0\<rparr>"
  have wf: "proxy_wf ?p" using assms by (simp add: proxy_wf_def)
  have eq: "enableProxyScroll p = (if x_spacer p = None then updateSpacer ?p else p)"
    by (auto simp: enableProxyScroll_def split: option.split)
  show "proxy_wf (enableProxyScroll p)" "x_rows (enableProxyScroll p) = x_rows p"
    "x_spacer (enableProxyScroll p) \<noteq> None"
    using assms updateSpacer_wf [OF wf] by (simp_all add: eq del: not_None_eq)
qed

lemma fitFont_wf:
  assumes "font_wf g px" shows "font_wf g (fitFont (g_fontOverride g) h ch r px)"
proof (cases "g_fontOverride g = 0")
  case True
  have "4 \<le> min 13 (max 4 \<lfloor>ch / of_int r / (12 / 10)\<rfloor>)" by simp
  from fit_loop_props [OF this, of h ch px] True show ?thesis by (auto simp: font_wf_def fitFont_def)
qed (simp add: font_wf_def fitFont_def)

text \<open>The parts of \<^verbatim>\<open>onMeta\<close>; between them the proxy still has the rows of before.\<close>

definition grid_wf :: "page_env \<Rightarrow> term_state \<Rightarrow> bool" where
  "grid_wf g e \<longleftrightarrow> 0 < e_cols e \<and> 0 < e_rows e \<and> font_wf g (e_fontSize e) \<and> proxy_wf (e_proxy e)"

lemma grid_wf_resize: "grid_wf g e \<Longrightarrow> grid_wf g (meta_resize g m e)"
proof -
  have "0 < n" if "pos_int v = Some n" for v n
    using that by (cases v rule: pos_int.cases) (auto split: if_splits)
  then show "grid_wf g e \<Longrightarrow> grid_wf g (meta_resize g m e)"
    by (auto simp: meta_resize_def set_buffer_def grid_wf_def proxy_wf_def log_op_def split: option.splits)
qed

lemma grid_wf_fit: "grid_wf g e \<Longrightarrow> grid_wf g (meta_fit g m e)"
  by (auto simp: meta_fit_def grid_wf_def fitFont_wf split: option.splits)

lemma refresh_fields [simp]:
  "proxy_wf (e_proxy (refresh_proxy g e)) = proxy_wf (e_proxy e)" "x_rows (e_proxy (refresh_proxy g e)) = e_rows e"
  "x_spacer (e_proxy (refresh_proxy g e)) = x_spacer (e_proxy e)" "e_rows (refresh_proxy g e) = e_rows e"
  "e_cols (refresh_proxy g e) = e_cols e" "e_fontSize (refresh_proxy g e) = e_fontSize e"
  "e_v2 (refresh_proxy g e) = e_v2 e" "e_histGot (refresh_proxy g e) = e_histGot e"
  "x_screenH (e_proxy (refresh_proxy g e)) = g_measure g (e_rows e) (e_fontSize e)"
  by (simp_all add: refresh_proxy_def proxy_wf_def)

lemma meta_proxy_wf:
  assumes "grid_wf g e"
  shows "grid_wf g (meta_proxy now (refresh_proxy g e))"
    "x_rows (e_proxy (meta_proxy now (refresh_proxy g e))) = e_rows (meta_proxy now (refresh_proxy g e))"
    "x_spacer (e_proxy (meta_proxy now (refresh_proxy g e))) \<noteq> None"
    "e_v2 (meta_proxy now (refresh_proxy g e)) = e_v2 e"
    "screen_measured g (meta_proxy now (refresh_proxy g e))"
  using assms enable_wf [of "e_proxy (refresh_proxy g e)"] rowPx_nonneg
  by (simp_all add: meta_proxy_def grid_wf_def Let_def termToHost_wf updateSpacer_wf proxy_wf_cellPx)

lemma history_keeps:
  "grid_wf g (meta_history m e) = grid_wf g e" "e_proxy (meta_history m e) = e_proxy e"
  "e_rows (meta_history m e) = e_rows e" "e_v2 (meta_history m e) = e_v2 e"
  "e_fontSize (meta_history m e) = e_fontSize e"
  by (simp_all add: meta_history_def log_op_def grid_wf_def Let_def)

lemma meta_steps_v2 [simp]: "e_v2 (meta_resize g m e) = e_v2 e" "e_v2 (meta_fit g m e) = e_v2 e"
  by (simp_all add: meta_resize_def set_buffer_def meta_fit_def log_op_def split: option.split)

lemma term_wfI: "grid_wf g e \<Longrightarrow> x_rows (e_proxy e) = e_rows e \<Longrightarrow> x_spacer (e_proxy e) \<noteq> None \<Longrightarrow> e_v2 e \<Longrightarrow>
    screen_measured g e \<Longrightarrow>
    term_wf g (e\<lparr>e_stat := st\<rparr>)"
  by (simp add: term_wf_def grid_wf_def)

lemma onMeta_wf:
  assumes "term_wf g e" shows "term_wf g (onMeta g now p e)"
proof (cases "cmParseMeta p ''v'' = Some (MNum 2)")
  case True
  let ?m = "cmParseMeta p" and ?e = "if \<not> e_v2 e then log_op (TScrollback 5000) (e\<lparr>e_v2 := True\<rparr>) else e"
  let ?r = "meta_fit g ?m (meta_resize g ?m ?e)"
  have "grid_wf g ?e" using assms by (auto simp: term_wf_def grid_wf_def log_op_def)
  then have r: "grid_wf g ?r" by (intro grid_wf_fit grid_wf_resize)
  have v2: "e_v2 ?r" by (simp add: log_op_def)
  note proxy = meta_proxy_wf [OF r, of now]
  let ?f = "meta_history ?m (meta_proxy now (refresh_proxy g ?r))"
  have "onMeta g now p e = ?f\<lparr>e_stat := meta_stat ?m ?f\<rparr>"
    using True by (simp add: onMeta_def Let_def)
  also have "term_wf g \<dots>"
    by (rule term_wfI) (simp_all only: history_keeps proxy v2 not_False_eq_True)
  finally show ?thesis .
qed (simp add: onMeta_def assms)

section \<open>All events of the page\<close>

lemma settle_wf:
  assumes "term_wf g e" shows "term_wf g (settle g now n e)"
proof (cases "e_v2 e")
  case True
  have "proxy_wf (e_proxy (refresh_proxy g e))" using assms by (simp add: term_wf_def)
  note settle_v2_wf [OF this, of now]
  with True assms show ?thesis by (simp add: settle_def term_wf_def Let_def del: not_None_eq)
next
  case False
  have "proxy_wf (e_proxy e) \<Longrightarrow> proxy_wf ((e_proxy e)\<lparr>x_top := t\<rparr>)" for t by (simp add: proxy_wf_def)
  with False assms show ?thesis by (simp add: settle_def term_wf_def Let_def)
qed

lemma on_scroll_wf: "term_wf g e \<Longrightarrow> term_wf g (on_scroll now n e)"
  by (auto simp: on_scroll_def term_wf_def hostToTerm_wf)

lemma xterm_scrolled_wf:
  assumes "term_wf g e" shows "term_wf g (xterm_scrolled now len y e)"
proof -
  have "proxy_wf ((e_proxy e)\<lparr>x_bufLen := len, x_ydisp := y\<rparr>)"
    using assms by (simp add: term_wf_def proxy_wf_def)
  from termToHost_wf [OF this] assms show ?thesis
    by (simp add: xterm_scrolled_def term_wf_def del: not_None_eq)
qed

lemma write_all_wf: "term_wf g e \<Longrightarrow> term_wf g (write_all ws e)"
  by (simp add: write_all_def term_wf_def)

lemma term_events_wf: "term_wf g (snd se) \<Longrightarrow> term_wf g (snd (term_events g now es se))"
  by (induction g now es se rule: term_events.induct) (auto simp: split_beta write_all_wf onMeta_wf)

text \<open>What the filters hold: the beginning of the marker they look for, and outside a block nothing
  else.\<close>

definition path_lean :: "data_path \<Rightarrow> bool" where
  "path_lean d \<longleftrightarrow>
     strict_prefix (s_carry (fst (snd d))) (if s_syncing (fst (snd d)) then ESU else BSU) \<and>
     (s_syncing (fst (snd d)) \<or> s_acc (fst (snd d)) = []) \<and>
     strict_prefix (m_carry (fst d)) (if m_inMeta (fst d) then ST else OSC)"

lemma no_marker_Nil: "[] \<noteq> BSU" "[] \<noteq> OSC"
  by (simp_all add: BSU_def OSC_def)

lemma sync_loop_lean:
  assumes "s_carry s = []"
  shows "strict_prefix (s_carry (snd (sync_loop d 0 s))) (if s_syncing (snd (sync_loop d 0 s)) then ESU else BSU)"
proof -
  obtain s' d' a k where "seek (if s_syncing s' then ESU else BSU) d' = Held a k"
      "snd (sync_loop d 0 s) = (snd (sync_pass s' a))\<lparr>s_carry := k\<rparr>"
    by (rule sync.scan_ends [OF assms]) (simp del: sync_pass.simps)
  then show ?thesis using seek_Held_strict by (cases "s_syncing s'") auto
qed

lemma meta_loop_lean:
  assumes "m_carry s = []"
  shows "strict_prefix (m_carry (snd (meta_loop d 0 s))) (if m_inMeta (snd (meta_loop d 0 s)) then ST else OSC)"
proof -
  obtain s' d' a k where "seek (if m_inMeta s' then ST else OSC) d' = Held a k"
      "snd (meta_loop d 0 s) = (snd (meta_pass s' a))\<lparr>m_carry := k\<rparr>"
    by (rule meta.scan_ends [OF assms]) (simp del: meta_pass.simps)
  then show ?thesis using seek_Held_strict by (cases "m_inMeta s'") auto
qed

lemma sync_feed_lean:
  assumes "s_syncing s \<or> s_acc s = []"
  shows "strict_prefix (s_carry (snd (sync_feed s c))) (if s_syncing (snd (sync_feed s c)) then ESU else BSU)"
    "s_syncing (snd (sync_feed s c)) \<or> s_acc (snd (sync_feed s c)) = []"
  using sync_loop_lean [of "s\<lparr>s_carry := []\<rparr>"] sync_feed_bytes(2) [of s c] assms
  by (auto simp: sync_feed_def sync_acc_ok_def Let_def)

lemma term_events_lean:
  assumes "strict_prefix (s_carry (fst se)) (if s_syncing (fst se) then ESU else BSU)" "s_syncing (fst se) \<or> s_acc (fst se) = []"
  shows "strict_prefix (s_carry (fst (term_events g now es se))) (if s_syncing (fst (term_events g now es se)) then ESU else BSU) \<and>
    (s_syncing (fst (term_events g now es se)) \<or> s_acc (fst (term_events g now es se)) = [])"
  using assms
proof (induction g now es se rule: term_events.induct)
  case (2 g now b es se)
  obtain ws s' where f: "sync_feed (fst se) b = (ws, s')" by fastforce
  from sync_feed_lean [OF "2.prems"(2), of b] "2.IH" [OF refl f [symmetric]] show ?case by (simp add: f)
qed simp_all

definition page_wf :: "page_env \<Rightarrow> data_path \<Rightarrow> bool" where
  "page_wf g d \<longleftrightarrow> term_wf g (snd (snd d)) \<and> path_lean d"

lemma page_wf_step: "page_wf g d \<Longrightarrow> page_wf g (page_step g d v)"
proof (cases v)
  case (Message now b)
  assume wf: "page_wf g d"
  then have "term_wf g (snd (snd (on_data g now d b)))"
    by (simp add: page_wf_def on_data_def split_beta term_events_wf)
  moreover have "strict_prefix (m_carry (fst (on_data g now d b))) (if m_inMeta (fst (on_data g now d b)) then ST else OSC)"
    using meta_loop_lean [of "(fst d)\<lparr>m_carry := []\<rparr>"] by (simp add: on_data_def split_beta meta_feed_def Let_def)
  moreover have "path_lean d" using wf by (simp add: page_wf_def)
  ultimately show ?thesis
    using Message term_events_lean [of "snd d" g now "fst (meta_feed (fst d) b)"]
    by (simp add: page_wf_def path_lean_def on_data_def split_beta)
next
  case Reconnected
  assume "page_wf g d"
  with Reconnected show ?thesis
    by (simp add: page_wf_def path_lean_def new_path_def meta_reset_def sync_init_def strict_prefix_def
        no_marker_Nil)
next
  case (HostResized h)
  assume "page_wf g d"
  with HostResized show ?thesis
    by (simp add: page_wf_def path_lean_def on_term_def term_wf_def proxy_wf_def)
next
  case (BufferChanged len y)
  assume "page_wf g d"
  with BufferChanged show ?thesis
    by (simp add: page_wf_def path_lean_def on_term_def term_wf_def proxy_wf_def set_buffer_def)
next
  case (UserScrolled t)
  assume "page_wf g d"
  with UserScrolled show ?thesis
    by (simp add: page_wf_def path_lean_def on_term_def term_wf_def proxy_wf_def)
qed (simp_all add: page_wf_def path_lean_def on_term_def settle_wf on_scroll_wf xterm_scrolled_wf)

lemma page_init_wf:
  assumes "0 < cols" "0 < rows" shows "page_wf g (page_init cols rows h)"
  using assms by (simp add: page_wf_def path_lean_def term_wf_def page_init_def term_init_def font_wf_def proxy_wf_def
      meta_init_def sync_init_def strict_prefix_def no_marker_Nil)

text \<open>Any positive grid may be the start; \<open>clampNum\<close> gives no other.\<close>

interpretation page_type: guarded_system
    "page_init (clampNum qcols 160) (clampNum qrows 500) h" "page_step g" "page_wf g"
  for qcols qrows :: "string option" and h :: rat and g :: page_env
proof unfold_locales
  show "page_wf g (page_init (clampNum qcols 160) (clampNum qrows 500) h)"
    using clampNum_range [of 160 qcols] clampNum_range [of 500 qrows] by (intro page_init_wf) auto
qed (rule page_wf_step)

section \<open>Properties\<close>

text \<open>C32. Between messages the filters hold back next to nothing: the META filter at most 6 bytes outside
  a payload, the shim at most 7 outside a synchronized block, and what they hold is the
  beginning of the marker they look for.\<close>

theorem filters_hold_back_little:
  "let (m, s, e) = run (page_step g) (page_init (clampNum qcols 160) (clampNum qrows 500) h) vs in
   strict_prefix (m_carry m) (if m_inMeta m then ST else OSC) \<and> length (m_carry m) \<le> 6 \<and>
   strict_prefix (s_carry s) (if s_syncing s then ESU else BSU) \<and> length (s_carry s) \<le> 7 \<and>
   length (pending s) \<le> (if s_syncing s then length (s_acc s) + 7 else 7)"
proof -
  let ?d = "run (page_step g) (page_init (clampNum qcols 160) (clampNum qrows 500) h) vs"
  have short: "length c \<le> n" if "strict_prefix c (if b then p else q)" "length p \<le> Suc n" "length q \<le> Suc n"
    for c p q :: "byte list" and b n
    using prefix_length_less [OF that(1)] that(2,3) by (auto split: if_splits)
  have lean: "path_lean ?d" using page_type.inv_run [of g qcols qrows h vs] by (simp add: page_wf_def)
  then have "length (s_carry (fst (snd ?d))) \<le> 7" unfolding path_lean_def by (elim conjE short) simp_all
  moreover from lean have "length (m_carry (fst ?d)) \<le> 6" unfolding path_lean_def by (elim conjE short) simp_all
  ultimately show ?thesis
    using lean by (cases ?d) (auto simp: path_lean_def pending_def simp del: run.simps)
qed

end
