(* ===== verification/PageRefinement.thy ===== *)
theory PageRefinement
  imports Connection PageInvariant
begin

text \<open>
  The data line drives the terminal page (\<^verbatim>\<open>web/static/term.js\<close>): every event of \<open>Connection\<close>
  acts on the filters and the terminal as at most one event of the page does
  (\<open>drives\<close>), up to the status line. So what holds of all pages holds behind the sockets.
\<close>

section \<open>The page without its status line\<close>

definition unstat :: "data_path \<Rightarrow> data_path" where
  "unstat = on_term (\<lambda>e. e\<lparr>e_stat := NoParams\<rparr>)"

definition stat_blind :: "(term_state \<Rightarrow> term_state) \<Rightarrow> bool" where
  "stat_blind f \<longleftrightarrow> (\<forall>e st. (f (e\<lparr>e_stat := st\<rparr>))\<lparr>e_stat := NoParams\<rparr> = (f e)\<lparr>e_stat := NoParams\<rparr>)"

lemma stat_blindD: "stat_blind f \<Longrightarrow> (f (e\<lparr>e_stat := st\<rparr>))\<lparr>e_stat := NoParams\<rparr> = (f e)\<lparr>e_stat := NoParams\<rparr>"
  by (simp add: stat_blind_def)

lemma stat_blind_eq:
  assumes "stat_blind f" "e\<lparr>e_stat := NoParams\<rparr> = e'\<lparr>e_stat := NoParams\<rparr>"
  shows "(f e)\<lparr>e_stat := NoParams\<rparr> = (f e')\<lparr>e_stat := NoParams\<rparr>"
  using stat_blindD [OF assms(1), where e = e and st = NoParams]
    stat_blindD [OF assms(1), where e = e' and st = NoParams] assms(2) by simp

lemma stat_keeps_parts:
  "log_op x (e\<lparr>e_stat := st\<rparr>) = (log_op x e)\<lparr>e_stat := st\<rparr>"
  "set_buffer bf (e\<lparr>e_stat := st\<rparr>) = (set_buffer bf e)\<lparr>e_stat := st\<rparr>"
  "meta_resize g m (e\<lparr>e_stat := st\<rparr>) = (meta_resize g m e)\<lparr>e_stat := st\<rparr>"
  "meta_fit g m (e\<lparr>e_stat := st\<rparr>) = (meta_fit g m e)\<lparr>e_stat := st\<rparr>"
  "meta_proxy now (e\<lparr>e_stat := st\<rparr>) = (meta_proxy now e)\<lparr>e_stat := st\<rparr>"
  "refresh_proxy g (e\<lparr>e_stat := st\<rparr>) = (refresh_proxy g e)\<lparr>e_stat := st\<rparr>"
  "meta_history m (e\<lparr>e_stat := st\<rparr>) = (meta_history m e)\<lparr>e_stat := st\<rparr>"
  "write_all ws (e\<lparr>e_stat := st\<rparr>) = (write_all ws e)\<lparr>e_stat := st\<rparr>"
  "on_scroll now n (e\<lparr>e_stat := st\<rparr>) = (on_scroll now n e)\<lparr>e_stat := st\<rparr>"
  "settle g now n (e\<lparr>e_stat := st\<rparr>) = (settle g now n e)\<lparr>e_stat := st\<rparr>"
  "xterm_scrolled now len y (e\<lparr>e_stat := st\<rparr>) = (xterm_scrolled now len y e)\<lparr>e_stat := st\<rparr>"
  by (simp_all add: log_op_def set_buffer_def meta_resize_def meta_fit_def meta_proxy_def refresh_proxy_def meta_history_def
      write_all_def on_scroll_def settle_def xterm_scrolled_def stateNow_def Let_def split: option.split)

lemma stat_blind_keep: "(\<And>e st. f (e\<lparr>e_stat := st\<rparr>) = (f e)\<lparr>e_stat := st\<rparr>) \<Longrightarrow> stat_blind f"
  by (simp add: stat_blind_def)

lemma stat_blind_onMeta: "stat_blind (onMeta g now p)"
proof -
  let ?m = "cmParseMeta p"
  have "stat_blind (\<lambda>e. (meta_history ?m (meta_proxy now (refresh_proxy g (meta_fit g ?m (meta_resize g ?m
      (if \<not> e_v2 e then log_op (TScrollback 5000) (e\<lparr>e_v2 := True\<rparr>) else e))))))\<lparr>e_stat := s e\<rparr>)" for s :: "term_state \<Rightarrow> stat"
  proof -
    have v2: "(e\<lparr>e_stat := st\<rparr>)\<lparr>e_v2 := True\<rparr> = (e\<lparr>e_v2 := True\<rparr>)\<lparr>e_stat := st\<rparr>" for e :: term_state and st by simp
    show ?thesis by (simp add: stat_blind_def v2 stat_keeps_parts del: term_state.update_convs)
  qed
  then show ?thesis by (simp add: stat_blind_def onMeta_def Let_def)
qed

lemma stat_blind_events:
  assumes "fst se = fst se'" "(snd se)\<lparr>e_stat := NoParams\<rparr> = (snd se')\<lparr>e_stat := NoParams\<rparr>"
  shows "fst (term_events g now es se) = fst (term_events g now es se') \<and>
    (snd (term_events g now es se))\<lparr>e_stat := NoParams\<rparr> = (snd (term_events g now es se'))\<lparr>e_stat := NoParams\<rparr>"
  using assms
proof (induction es arbitrary: se se')
  case (Cons v es)
  show ?case
  proof (cases v)
    case (Emit b)
    have "stat_blind (write_all ws)" for ws by (rule stat_blind_keep) (simp add: stat_keeps_parts)
    from stat_blind_eq [OF this Cons.prems(2)] Cons Emit show ?thesis by (simp add: split_beta)
  next
    case (OnMeta p)
    from stat_blind_eq [OF stat_blind_onMeta Cons.prems(2)] Cons OnMeta show ?thesis by simp
  qed
qed simp

lemma unstat_eq:
  "unstat d = unstat d' \<longleftrightarrow> fst d = fst d' \<and> fst (snd d) = fst (snd d') \<and>
     (snd (snd d))\<lparr>e_stat := NoParams\<rparr> = (snd (snd d'))\<lparr>e_stat := NoParams\<rparr>"
  by (auto simp: unstat_def on_term_def)

lemma unstat_on_term: "stat_blind f \<Longrightarrow> unstat d = unstat d' \<Longrightarrow> unstat (on_term f d) = unstat (on_term f d')"
  unfolding unstat_eq on_term_def fst_conv snd_conv by (blast intro: stat_blind_eq)

lemma unstat_step: "unstat d = unstat d' \<Longrightarrow> unstat (page_step g d v) = unstat (page_step g d' v)"
proof (cases v)
  case (Message now b)
  assume "unstat d = unstat d'"
  with Message stat_blind_events [of "snd d" "snd d'" g now] show ?thesis
    by (auto simp: unstat_eq on_data_def split_beta)
next
  case Reconnected
  assume "unstat d = unstat d'"
  with Reconnected show ?thesis by (simp add: unstat_eq new_path_def)
next
  case (UserScrolled t)
  assume a: "unstat d = unstat d'"
  have "stat_blind (\<lambda>e. e\<lparr>e_proxy := (e_proxy e)\<lparr>x_top := t\<rparr>\<rparr>)" by (rule stat_blind_keep) simp
  from unstat_on_term [OF this a] UserScrolled show ?thesis by simp
next
  case (HostResized h)
  assume a: "unstat d = unstat d'"
  have "stat_blind (\<lambda>e. e\<lparr>e_proxy := (e_proxy e)\<lparr>x_clientHeight := h\<rparr>\<rparr>)" by (rule stat_blind_keep) simp
  from unstat_on_term [OF this a] HostResized show ?thesis by simp
qed (auto intro!: unstat_on_term stat_blind_keep simp: stat_keeps_parts)

lemma unstat_run: "unstat d = unstat d' \<Longrightarrow> unstat (run (page_step g) d ws) = unstat (run (page_step g) d' ws)"
proof (induction ws arbitrary: d d')
  case (Cons w ws)
  from Cons.IH [OF unstat_step [OF Cons.prems]] show ?case by simp
qed simp

section \<open>What an event of the line does to the page\<close>

text \<open>The events of the page that an event causes: a message of the current open socket, the page's
  own ones, and a new connection.\<close>

definition drives :: "page_env \<Rightarrow> int \<Rightarrow> int \<Rightarrow> conn \<Rightarrow> conn_event \<Rightarrow> page_event list" where
  "drives g rows cols c v =
     (case v of
        SockMessage i now b \<Rightarrow> if has_ready i {OPEN} c \<and> c_ws c = Some i then [Message now b] else []
      | Page w \<Rightarrow> (case w of Reconnected \<Rightarrow> [] | Message _ _ \<Rightarrow> [] | _ \<Rightarrow> [w])
      | _ \<Rightarrow> if length (c_socks c) < length (c_socks (conn_step g rows cols c v)) then [Reconnected] else [])"

fun driven :: "page_env \<Rightarrow> int \<Rightarrow> int \<Rightarrow> conn \<Rightarrow> conn_event list \<Rightarrow> page_event list" where
  "driven g rows cols c [] = []"
| "driven g rows cols c (v # vs) = drives g rows cols c v @ driven g rows cols (conn_step g rows cols c v) vs"

lemma unstat_set_stat [simp]: "unstat (c_path (set_stat st c)) = unstat (c_path c)"
  by (simp add: unstat_def set_stat_def on_term_def)

lemma socks_length [simp]:
  "length (c_socks (upd_sock i f c)) = length (c_socks c)" "length (c_socks (set_ready i r c)) = length (c_socks c)"
  "length (c_socks (sock_send i b c)) = length (c_socks c)" "length (c_socks (set_stat st c)) = length (c_socks c)"
  "length (c_socks (send_input b c)) = length (c_socks c)"
  by (simp_all add: upd_sock_def set_ready_def sock_send_def set_stat_def send_input_def split: option.split)

lemma socks_flushQ [simp]: "length (c_socks (flushQ c)) = length (c_socks c)"
proof (induction c rule: flushQ.induct)
  case (1 c)
  then show ?case by (simp add: flushQ.simps [of c] Let_def)
qed

text \<open>A dial resets the path, and is the only thing that adds a socket.\<close>

lemma requestConnect_drives:
  "unstat (c_path (requestConnect why c)) =
     unstat (if length (c_socks c) < length (c_socks (requestConnect why c)) then new_path (c_path c) else c_path c)"
  by (simp add: requestConnect_def connect_def Let_def unstat_eq new_path_def set_stat_def on_term_def)

lemma sendBytes_drives:
  "unstat (c_path (snd (sendBytes b c))) =
     unstat (if length (c_socks c) < length (c_socks (snd (sendBytes b c))) then new_path (c_path c) else c_path c)"
  using requestConnect_drives [of ByInput "c\<lparr>c_q := c_q c @ [b], c_qBytes := c_qBytes c + length b, c_accepted := c_accepted c @ [b]\<rparr>"]
  by (simp add: sendBytes_def)

lemma conn_step_drives:
  "unstat (c_path (conn_step g rows cols c v)) = unstat (run (page_step g) (c_path c) (drives g rows cols c v))"
proof (cases v)
  case (Input b)
  then show ?thesis using sendBytes_drives [of b c] by (simp add: drives_def)
next
  case (Snapshot d)
  then show ?thesis
    using requestConnect_drives [of ByPush "case d of None \<Rightarrow> c | Some y \<Rightarrow> c\<lparr>c_active := y_is_active y,
        c_imageOK := Some (y_image_paste y), c_semi := semi_doc (y_semi_auto y) (c_semi c)\<rparr>"]
    by (simp add: drives_def onSnapshot_def split: option.splits)
next
  case (WatchTick b)
  then show ?thesis using requestConnect_drives [of ByWatch c] by (simp add: drives_def watch_tick_def)
next
  case (Visibility b)
  then show ?thesis using requestConnect_drives [of ByVisible c] by (simp add: drives_def on_visibility_def)
next
  case (RetryTimer i)
  then show ?thesis
    using requestConnect_drives [of ByInput "c\<lparr>c_timers := remove_nth i (c_timers c)\<rparr>"]
    by (simp add: drives_def retry_timer_def)
next
  case (Page w)
  then show ?thesis by (cases w) (simp_all add: drives_def)
next
  case (SockMessage i now b)
  then show ?thesis by (simp add: drives_def onmessage_def)
qed (simp_all add: drives_def onopen_def onclose_def onerror_def semi_result_def Let_def split: option.split sa_message.split)

lemma run_drives:
  "unstat (c_path (run (conn_step g rows cols) c vs)) = unstat (run (page_step g) (c_path c) (driven g rows cols c vs))"
proof (induction vs arbitrary: c)
  case (Cons v vs)
  have "unstat (c_path (run (conn_step g rows cols) c (v # vs))) =
      unstat (run (page_step g) (c_path (conn_step g rows cols c v)) (driven g rows cols (conn_step g rows cols c v) vs))"
    using Cons.IH by simp
  also have "\<dots> = unstat (run (page_step g) (run (page_step g) (c_path c) (drives g rows cols c v))
      (driven g rows cols (conn_step g rows cols c v) vs))"
    by (rule unstat_run) (rule conn_step_drives)
  finally show ?case by (simp add: run_append)
qed simp

section \<open>Properties\<close>

text \<open>C30. The page behind the sockets is the page of \<open>Terminal\<close>: over any events of the browser, the
  network and the user, the filters and the terminal are (up to the status line) where the
  page events leave them that the line lets through, starting with its first connection.\<close>

theorem line_refines_page:
  "unstat (c_path (run (conn_step g rows cols) (conn_init d now) vs)) =
     unstat (run (page_step g) d (Reconnected # driven g rows cols (conn_init d now) vs))"
  using run_drives [of g rows cols "conn_init d now" vs] by (simp add: conn_init_def connect_def)

lemma page_wf_unstat: "unstat d = unstat d' \<Longrightarrow> page_wf g d = page_wf g d'"
proof -
  have "term_wf g (e\<lparr>e_stat := st\<rparr>) = term_wf g e" for e st by (simp add: term_wf_def)
  then show "unstat d = unstat d' \<Longrightarrow> page_wf g d = page_wf g d'"
    unfolding unstat_eq page_wf_def path_lean_def by metis
qed

text \<open>C18. Whatever the sockets, the network and the user do, the page's variables stay well-formed: the
  grid is never empty, and the scroll proxy computes with its rows; the font size is between 4 and 13
  or the one asked for in the query; the spacer exists exactly in wire v2, never has a negative
  height, and goes with the height of the screen at the present grid and font; the row height is never negative; the guard against feedback is never left set;
  and only a page in wire v2 has a history.\<close>

theorem page_stays_well_formed:
  "let c = run (conn_step g rows cols) (conn_init (page_init (clampNum qcols 160) (clampNum qrows 500) h) now) vs;
       e = snd (snd (c_path c)); p = e_proxy e in
   0 < e_cols e \<and> 0 < e_rows e \<and> x_rows p = e_rows e \<and>
   (if g_fontOverride g = 0 then e_fontSize e \<in> {4..13} else e_fontSize e \<in> insert (g_fontOverride g) {4..13}) \<and>
   (case x_spacer p of None \<Rightarrow> \<not> e_v2 e | Some height \<Rightarrow> e_v2 e \<and> 0 \<le> height \<and>
      x_screenH p = g_measure g (e_rows e) (e_fontSize e)) \<and>
   0 \<le> x_cellPx p \<and> \<not> x_syncing p \<and> \<not> (e_histGot e \<and> \<not> e_v2 e)"
proof -
  let ?d = "page_init (clampNum qcols 160) (clampNum qrows 500) h"
  let ?c = "run (conn_step g rows cols) (conn_init ?d now) vs"
  have "unstat (c_path ?c) = unstat (run (page_step g) (c_path (conn_init ?d now)) (driven g rows cols (conn_init ?d now) vs))"
    by (rule run_drives)
  moreover have "c_path (conn_init ?d now) = page_step g ?d Reconnected" by (simp add: conn_init_def connect_def)
  ultimately have "page_wf g (c_path ?c)"
    using page_type.inv_run [of g qcols qrows h "Reconnected # driven g rows cols (conn_init ?d now) vs"]
      page_wf_unstat [of "c_path ?c" _ g] by simp
  then show ?thesis
    by (auto simp: page_wf_def term_wf_def proxy_wf_def font_wf_def Let_def split: option.splits)
qed

end
