(* ===== verification/LoopBounds.thy ===== *)
theory LoopBounds
  imports MetaFilter SyncFilter
begin

text \<open>
  The loops of the two filters one pass at a time (\<^verbatim>\<open>sync.js\<close>, \<^verbatim>\<open>term.js\<close>): \<open>sync_body\<close> and
  \<open>meta_body\<close> are what one pass of \<^verbatim>\<open>while (pos < data.length)\<close> does, with what was emitted so
  far; \<open>Inr\<close> leaves the function. They end after at most as many passes as the message has
  bytes, and compute what the recursive functions of \<open>SyncFilter\<close> and \<open>MetaFilter\<close> compute.
\<close>

fun iterate :: "nat \<Rightarrow> ('s \<Rightarrow> 's + 'r) \<Rightarrow> 's \<Rightarrow> 'r option" where
  "iterate 0 body s = None"
| "iterate (Suc n) body s = (case body s of Inl s' \<Rightarrow> iterate n body s' | Inr r \<Rightarrow> Some r)"

fun sync_body :: "byte list \<Rightarrow> nat \<times> sync_state \<times> byte list list \<Rightarrow>
    (nat \<times> sync_state \<times> byte list list) + (byte list list \<times> sync_state)" where
  "sync_body data (pos, s, out) =
     (if pos < length data then
        (if \<not> s_syncing s then
           (case indexOf data BSU pos of
              None \<Rightarrow>
                (let rest = drop pos data;
                     hold = tailPrefix rest BSU;
                     cutp = length rest - hold
                 in Inr (out @ (if cutp > 0 then [subarray rest 0 cutp] else []), s\<lparr>s_carry := drop cutp rest\<rparr>))
            | Some i \<Rightarrow>
                Inl (i, s\<lparr>s_syncing := True, s_acc := []\<rparr>, out @ (if i > pos then [subarray data pos i] else [])))
         else
           (case indexOf data ESU pos of
              None \<Rightarrow>
                (let rest2 = drop pos data;
                     hold2 = tailPrefix rest2 ESU;
                     cut2 = length rest2 - hold2
                 in Inr (out, s\<lparr>s_acc := (if cut2 > 0 then concat_bytes (s_acc s) (subarray rest2 0 cut2)
                                         else s_acc s),
                               s_carry := drop cut2 rest2\<rparr>))
            | Some j \<Rightarrow>
                (let end = j + length ESU;
                     blk = concat_bytes (s_acc s) (subarray data pos end)
                 in Inl (end, s\<lparr>s_acc := [], s_syncing := False\<rparr>, out @ [blk]))))
      else Inr (out, s))"

fun meta_body :: "byte list \<Rightarrow> nat \<times> meta_state \<times> meta_event list \<Rightarrow>
    (nat \<times> meta_state \<times> meta_event list) + (meta_event list \<times> meta_state)" where
  "meta_body data (pos, s, es) =
     (if pos < length data then
        (if \<not> m_inMeta s then
           (case mf_indexOf data OSC pos of
              None \<Rightarrow>
                (let rest = drop pos data;
                     hold = mf_tailPrefix rest OSC;
                     cutp = length rest - hold
                 in Inr (es @ (if cutp > 0 then meta_out s (take cutp rest) else []),
                         s\<lparr>m_carry := drop cutp rest\<rparr>))
            | Some i \<Rightarrow>
                Inl (i + length OSC, s\<lparr>m_inMeta := True, m_acc := []\<rparr>,
                     es @ (if i > pos then meta_out s (take (i - pos) (drop pos data)) else [])))
         else
           (case mf_indexOf data ST pos of
              None \<Rightarrow>
                (let rest2 = drop pos data;
                     hold2 = mf_tailPrefix rest2 ST;
                     cut2 = length rest2 - hold2
                 in Inr (es, s\<lparr>m_acc := (if cut2 > 0 then mf_concat (m_acc s) (take cut2 rest2) else m_acc s),
                              m_carry := drop cut2 rest2\<rparr>))
            | Some j \<Rightarrow>
                (let ac = mf_concat (m_acc s) (take (j - pos) (drop pos data));
                     payload = fromCharCode ac
                 in Inl (j + length ST, meta_flags payload (s\<lparr>m_acc := ac, m_inMeta := False\<rparr>),
                         es @ [OnMeta payload]))))
      else Inr (es, s))"

lemma sync_body_loop:
  "(length data - pos) + (if s_syncing s then 0 else 1) < n \<Longrightarrow>
   iterate n (sync_body data) (pos, s, out) = Some (out @ fst (sync_loop data pos s), snd (sync_loop data pos s))"
proof (induction n arbitrary: pos s out)
  case (Suc n)
  show ?case
  proof (cases "pos < length data")
    case inside: True
    show ?thesis
    proof (cases "s_syncing s")
      case True
      show ?thesis
      proof (cases "indexOf data ESU pos")
        case (Some j)
        have j: "pos \<le> j" "j + 8 \<le> length data"
          using indexOf_SomeD(1,2) [OF Some] by (simp_all add: occurs_at_def)
        let ?s = "s\<lparr>s_acc := [], s_syncing := False\<rparr>"
        have "(length data - (j + length ESU)) + (if s_syncing ?s then 0 else 1) < n"
          using Suc.prems j inside True by simp
        from Suc.IH [OF this] Some inside True show ?thesis
          by (simp add: sync_loop.simps [of data pos s] split_beta Let_def)
      qed (use inside True in \<open>simp add: sync_loop.simps [of data pos s] Let_def\<close>)
    next
      case False
      show ?thesis
      proof (cases "indexOf data BSU pos")
        case (Some i)
        note i = indexOf_SomeD(1) [OF Some]
        let ?s = "s\<lparr>s_syncing := True, s_acc := []\<rparr>"
        have "(length data - i) + (if s_syncing ?s then 0 else 1) < n"
          using Suc.prems i inside False by simp
        from Suc.IH [OF this] Some inside False show ?thesis
          by (simp add: sync_loop.simps [of data pos s] split_beta Let_def)
      qed (use inside False in \<open>simp add: sync_loop.simps [of data pos s] Let_def\<close>)
    qed
  qed (simp add: sync_loop.simps [of data pos s])
qed simp

lemma meta_body_loop:
  "length data - pos < n \<Longrightarrow>
   iterate n (meta_body data) (pos, s, es) = Some (es @ fst (meta_loop data pos s), snd (meta_loop data pos s))"
proof (induction n arbitrary: pos s es)
  case (Suc n)
  show ?case
  proof (cases "pos < length data")
    case inside: True
    show ?thesis
    proof (cases "m_inMeta s")
      case True
      show ?thesis
      proof (cases "indexOf data ST pos")
        case (Some j)
        have "length data - (j + length ST) < n"
          using Suc.prems indexOf_SomeD(1) [OF Some] inside by simp
        from Suc.IH [OF this] Some inside True show ?thesis
          by (simp add: meta_loop.simps [of data pos s] split_beta Let_def)
      qed (use inside True in \<open>simp add: meta_loop.simps [of data pos s] Let_def\<close>)
    next
      case False
      show ?thesis
      proof (cases "indexOf data OSC pos")
        case (Some i)
        have "length data - (i + length OSC) < n"
          using Suc.prems indexOf_SomeD(1) [OF Some] inside by simp
        from Suc.IH [OF this] Some inside False show ?thesis
          by (simp add: meta_loop.simps [of data pos s] split_beta Let_def)
      qed (use inside False in \<open>simp add: meta_loop.simps [of data pos s] Let_def\<close>)
    qed
  qed (simp add: meta_loop.simps [of data pos s])
qed simp

text \<open>C31. The loops of both filters end on every message in every state: counting passes, one that
  is allowed two more than there are bytes (those carried over and those of the message) ends, and
  the pass-by-pass execution emits and leaves behind what the recursive model says.\<close>

theorem feeds_return:
  "iterate (length (s_carry s) + length chunk + 2) (sync_body (s_carry s @ chunk)) (0, s\<lparr>s_carry := []\<rparr>, []) =
     Some (sync_feed s chunk) \<and>
   iterate (length (m_carry m) + length chunk + 2) (meta_body (m_carry m @ chunk)) (0, m\<lparr>m_carry := []\<rparr>, []) =
     Some (meta_feed m chunk)"
  by (simp add: sync_body_loop meta_body_loop sync_feed_def meta_feed_def Let_def del: iterate.simps)

end
