(* ===== verification/Relay.thy ===== *)
theory Relay
  imports Prelude
begin

text \<open>
  The relay server (\<^verbatim>\<open>relay/relay.go\<close>): \<^verbatim>\<open>serve\<close> pairs the source and the viewer of a session
  id and passes their bytes on. Every connection has a goroutine of its own in \<^verbatim>\<open>serve\<close>, so the
  model is a step function over all of them: a step is one stretch of code of one goroutine that
  no other can interrupt, which is a section under \<^verbatim>\<open>s.mu\<close>, or one call on a connection with the
  network's answer as the step's argument. A run is any interleaving of steps; a step whose
  goroutine is not at that place changes nothing. Deadlines may fire at any moment.
\<close>

section \<open>Sessions, handlers, the server\<close>

datatype role = Source | Viewer

fun other_role :: "role \<Rightarrow> role" where
  "other_role Source = Viewer"
| "other_role Viewer = Source"

text \<open>
  A connection is the number of its \<^verbatim>\<open>serve\<close> call. \<open>s_change\<close> counts how often the channel
  \<^verbatim>\<open>change\<close> was closed and replaced: a waiter that holds an older number can go on.
\<close>

record sess =
  s_source :: "nat option"
  s_viewer :: "nat option"
  s_change :: nat

definition slot :: "role \<Rightarrow> sess \<Rightarrow> nat option" where
  "slot ro se = (case ro of Source \<Rightarrow> s_source se | Viewer \<Rightarrow> s_viewer se)"

definition set_slot :: "role \<Rightarrow> nat \<Rightarrow> sess \<Rightarrow> sess" where
  "set_slot ro nc se =
     (case ro of Source \<Rightarrow> se\<lparr>s_source := Some nc\<rparr> | Viewer \<Rightarrow> se\<lparr>s_viewer := Some nc\<rparr>)"

definition broadcast :: "sess \<Rightarrow> sess" where
  "broadcast se = se\<lparr>s_change := Suc (s_change se)\<rparr>"

text \<open>
  Where a \<^verbatim>\<open>serve\<close> call is: closing the connection it replaced; at \<^verbatim>\<open>nc.Read\<close>; in \<^verbatim>\<open>writePeer\<close> with
  a chunk, at the head of the loop, at \<^verbatim>\<open>peer.Write\<close> or at the \<^verbatim>\<open>select\<close> (the flag says that the read
  also returned an error); after the loop; closing \<^verbatim>\<open>nc\<close>; closing the peer; returned.
\<close>

datatype place =
    Registering "nat option"
  | AtRead
  | AtLoop "byte list" bool
  | AtSelect "byte list" bool nat
  | AtWrite "byte list" bool nat
  | AtExit
  | AtClose "nat option"
  | AtClosePeer nat
  | Returned

text \<open>The \<^verbatim>\<open>time.AfterFunc\<close> of a lonely connection: set, running, decided to close.\<close>

datatype lone_timer = NoTimer | Armed | Fired | Expired

text \<open>\<open>h_reads\<close> is history: every chunk that \<^verbatim>\<open>nc.Read\<close> has returned.\<close>

record handler =
  h_sid :: string
  h_role :: role
  h_sess :: nat
  h_place :: place
  h_timer :: lone_timer
  h_open :: bool
  h_reads :: "byte list list"

text \<open>A \<^verbatim>\<open>Write\<close> on a connection: who wrote, to whom, what arrived, and whether all of it did.\<close>

record delivery =
  d_from :: nat
  d_to :: nat
  d_bytes :: "byte list"
  d_whole :: bool

text \<open>\<open>r_heap\<close> holds the \<^verbatim>\<open>sess\<close> objects, \<open>r_sessions\<close> the map, \<open>r_log\<close> (history) the writes.\<close>

record relay =
  r_handlers :: "handler list"
  r_heap :: "sess list"
  r_sessions :: "string \<rightharpoonup> nat"
  r_log :: "delivery list"

definition NewServer :: relay where
  "NewServer = \<lparr>r_handlers = [], r_heap = [], r_sessions = Map.empty, r_log = []\<rparr>"

abbreviation hand :: "relay \<Rightarrow> nat \<Rightarrow> handler" where
  "hand r i \<equiv> r_handlers r ! i"

abbreviation conns :: "relay \<Rightarrow> nat" where
  "conns r \<equiv> length (r_handlers r)"

definition upd_hand :: "nat \<Rightarrow> (handler \<Rightarrow> handler) \<Rightarrow> relay \<Rightarrow> relay" where
  "upd_hand i f r = r\<lparr>r_handlers := (r_handlers r)[i := f (hand r i)]\<rparr>"

definition goto :: "nat \<Rightarrow> place \<Rightarrow> relay \<Rightarrow> relay" where
  "goto i pl = upd_hand i (\<lambda>h. h\<lparr>h_place := pl\<rparr>)"

definition close_conn :: "nat \<Rightarrow> relay \<Rightarrow> relay" where
  "close_conn i = upd_hand i (\<lambda>h. h\<lparr>h_open := False\<rparr>)"

definition sess_of :: "relay \<Rightarrow> nat \<Rightarrow> sess" where
  "sess_of r i = r_heap r ! h_sess (hand r i)"

definition isCurrentLocked :: "sess \<Rightarrow> role \<Rightarrow> nat \<Rightarrow> bool" where
  "isCurrentLocked se ro nc \<longleftrightarrow> slot ro se = Some nc"

text \<open>The test before every act on a session: it is still the map's, and \<^verbatim>\<open>nc\<close> still its connection.\<close>

definition is_current :: "relay \<Rightarrow> nat \<Rightarrow> bool" where
  "is_current r i \<longleftrightarrow> r_sessions r (h_sid (hand r i)) = Some (h_sess (hand r i)) \<and>
     isCurrentLocked (sess_of r i) (h_role (hand r i)) i"

definition peer_of :: "relay \<Rightarrow> nat \<Rightarrow> nat option" where
  "peer_of r i = slot (other_role (h_role (hand r i))) (sess_of r i)"

section \<open>The steps of \<^verbatim>\<open>serve\<close>\<close>

text \<open>The first section under the mutex: find or make the session, take the slot, broadcast.\<close>

definition find_sess :: "string \<Rightarrow> relay \<Rightarrow> relay \<times> nat" where
  "find_sess sid r = (case r_sessions r sid of
     Some k \<Rightarrow> (r, k)
   | None \<Rightarrow> (r\<lparr>r_heap := r_heap r @ [\<lparr>s_source = None, s_viewer = None, s_change = 0\<rparr>],
              r_sessions := (r_sessions r)(sid \<mapsto> length (r_heap r))\<rparr>, length (r_heap r)))"

definition serve_register :: "string \<Rightarrow> role \<Rightarrow> relay \<Rightarrow> relay" where
  "serve_register sid ro r =
     (let (r, k) = find_sess sid r; nc = conns r; se = r_heap r ! k in
      r\<lparr>r_heap := (r_heap r)[k := broadcast (set_slot ro nc se)],
        r_handlers := r_handlers r @ [\<lparr>h_sid = sid, h_role = ro, h_sess = k,
          h_place = Registering (slot ro se), h_timer = NoTimer, h_open = True, h_reads = []\<rparr>]\<rparr>)"

text \<open>Then \<^verbatim>\<open>old.Close()\<close>, and the timer is set.\<close>

definition serve_close_old :: "nat \<Rightarrow> relay \<Rightarrow> relay" where
  "serve_close_old i r = (case h_place (hand r i) of
     Registering old \<Rightarrow>
       upd_hand i (\<lambda>h. h\<lparr>h_place := AtRead, h_timer := Armed\<rparr>)
         (case old of None \<Rightarrow> r | Some q \<Rightarrow> close_conn q r)
   | _ \<Rightarrow> r)"

text \<open>\<^verbatim>\<open>nc.Read(buf)\<close> returns a chunk, perhaps with an error, or nothing and an error.\<close>

definition serve_read :: "nat \<Rightarrow> byte list \<Rightarrow> bool \<Rightarrow> relay \<Rightarrow> relay" where
  "serve_read i p rerr r =
     (if h_place (hand r i) = AtRead \<and> length p \<le> 32 * 1024
      then if p \<noteq> []
        then upd_hand i (\<lambda>h. h\<lparr>h_place := AtLoop p rerr, h_reads := h_reads h @ [p]\<rparr>) r
        else if rerr then goto i AtExit r else r
      else r)"

text \<open>\<^verbatim>\<open>writePeer\<close>, the section under the mutex at the head of its loop.\<close>

definition writePeer_loop :: "nat \<Rightarrow> relay \<Rightarrow> relay" where
  "writePeer_loop i r = (case h_place (hand r i) of
     AtLoop p rerr \<Rightarrow>
       if \<not> is_current r i then goto i AtExit r
       else (case peer_of r i of
           Some q \<Rightarrow> goto i (AtWrite p rerr q) r
         | None \<Rightarrow> goto i (AtSelect p rerr (s_change (sess_of r i))) r)
   | _ \<Rightarrow> r)"

text \<open>\<^verbatim>\<open>peer.Write(p)\<close>: it succeeds, or it fails after \<open>m\<close> bytes.\<close>

definition write_ok :: "nat \<Rightarrow> relay \<Rightarrow> relay" where
  "write_ok i r = (case h_place (hand r i) of
     AtWrite p rerr q \<Rightarrow> goto i (if rerr then AtExit else AtRead)
       (r\<lparr>r_log := r_log r @ [\<lparr>d_from = i, d_to = q, d_bytes = p, d_whole = True\<rparr>]\<rparr>)
   | _ \<Rightarrow> r)"

definition write_err :: "nat \<Rightarrow> nat \<Rightarrow> relay \<Rightarrow> relay" where
  "write_err i m r = (case h_place (hand r i) of
     AtWrite p rerr q \<Rightarrow> goto i AtExit
       (r\<lparr>r_log := r_log r @ [\<lparr>d_from = i, d_to = q, d_bytes = take m p, d_whole = False\<rparr>]\<rparr>)
   | _ \<Rightarrow> r)"

text \<open>The \<^verbatim>\<open>select\<close>: the channel was closed, or two minutes are over.\<close>

definition select_change :: "nat \<Rightarrow> relay \<Rightarrow> relay" where
  "select_change i r = (case h_place (hand r i) of
     AtSelect p rerr ch \<Rightarrow> if s_change (sess_of r i) \<noteq> ch then goto i (AtLoop p rerr) r else r
   | _ \<Rightarrow> r)"

definition select_deadline :: "nat \<Rightarrow> relay \<Rightarrow> relay" where
  "select_deadline i r = (case h_place (hand r i) of
     AtSelect p rerr ch \<Rightarrow> goto i AtExit r
   | _ \<Rightarrow> r)"

text \<open>The last section under the mutex: a connection that is still current takes the session down.\<close>

definition serve_exit :: "nat \<Rightarrow> relay \<Rightarrow> relay" where
  "serve_exit i r = (case h_place (hand r i) of
     AtExit \<Rightarrow>
       if is_current r i
       then goto i (AtClose (peer_of r i))
         (r\<lparr>r_sessions := (r_sessions r)(h_sid (hand r i) := None),
            r_heap := (r_heap r)[h_sess (hand r i) := broadcast (sess_of r i)]\<rparr>)
       else goto i (AtClose None) r
   | _ \<Rightarrow> r)"

text \<open>\<^verbatim>\<open>loneTimer.Stop()\<close> has no effect on a callback that is already running.\<close>

definition return_from :: "nat \<Rightarrow> relay \<Rightarrow> relay" where
  "return_from i = upd_hand i (\<lambda>h. h\<lparr>h_place := Returned,
     h_timer := if h_timer h = Armed then NoTimer else h_timer h\<rparr>)"

definition serve_close :: "nat \<Rightarrow> relay \<Rightarrow> relay" where
  "serve_close i r = (case h_place (hand r i) of
     AtClose None \<Rightarrow> return_from i (close_conn i r)
   | AtClose (Some q) \<Rightarrow> goto i (AtClosePeer q) (close_conn i r)
   | _ \<Rightarrow> r)"

definition serve_close_peer :: "nat \<Rightarrow> relay \<Rightarrow> relay" where
  "serve_close_peer i r = (case h_place (hand r i) of
     AtClosePeer q \<Rightarrow> return_from i (close_conn q r)
   | _ \<Rightarrow> r)"

text \<open>The callback of the timer: started, its section under the mutex, \<^verbatim>\<open>nc.Close()\<close>.\<close>

definition set_timer :: "nat \<Rightarrow> lone_timer \<Rightarrow> relay \<Rightarrow> relay" where
  "set_timer i t = upd_hand i (\<lambda>h. h\<lparr>h_timer := t\<rparr>)"

definition lone_fire :: "nat \<Rightarrow> relay \<Rightarrow> relay" where
  "lone_fire i r = (if h_timer (hand r i) = Armed then set_timer i Fired r else r)"

definition lone_check :: "nat \<Rightarrow> relay \<Rightarrow> relay" where
  "lone_check i r = (if h_timer (hand r i) = Fired
     then set_timer i (if is_current r i \<and> peer_of r i = None then Expired else NoTimer) r else r)"

definition lone_close :: "nat \<Rightarrow> relay \<Rightarrow> relay" where
  "lone_close i r = (if h_timer (hand r i) = Expired then set_timer i NoTimer (close_conn i r) else r)"

text \<open>All of them. \<open>Serve\<close> is a request that \<^verbatim>\<open>Accept\<close> has upgraded.\<close>

datatype relay_action =
    Serve string role
  | CloseOld nat
  | ReadReturns nat "byte list" bool
  | PeerLoop nat
  | WriteOk nat
  | WriteErr nat nat
  | SelectChange nat
  | SelectDeadline nat
  | Exit nat
  | CloseSelf nat
  | ClosePeer nat
  | LoneFire nat
  | LoneCheck nat
  | LoneClose nat

fun handler_step :: "relay \<Rightarrow> relay_action \<Rightarrow> relay" where
  "handler_step r (Serve sid ro) = serve_register sid ro r"
| "handler_step r (CloseOld i) = serve_close_old i r"
| "handler_step r (ReadReturns i p rerr) = serve_read i p rerr r"
| "handler_step r (PeerLoop i) = writePeer_loop i r"
| "handler_step r (WriteOk i) = write_ok i r"
| "handler_step r (WriteErr i m) = write_err i m r"
| "handler_step r (SelectChange i) = select_change i r"
| "handler_step r (SelectDeadline i) = select_deadline i r"
| "handler_step r (Exit i) = serve_exit i r"
| "handler_step r (CloseSelf i) = serve_close i r"
| "handler_step r (ClosePeer i) = serve_close_peer i r"
| "handler_step r (LoneFire i) = lone_fire i r"
| "handler_step r (LoneCheck i) = lone_check i r"
| "handler_step r (LoneClose i) = lone_close i r"

fun actor :: "relay_action \<Rightarrow> nat option" where
  "actor (Serve sid ro) = None"
| "actor (CloseOld i) = Some i"
| "actor (ReadReturns i p rerr) = Some i"
| "actor (PeerLoop i) = Some i"
| "actor (WriteOk i) = Some i"
| "actor (WriteErr i m) = Some i"
| "actor (SelectChange i) = Some i"
| "actor (SelectDeadline i) = Some i"
| "actor (Exit i) = Some i"
| "actor (CloseSelf i) = Some i"
| "actor (ClosePeer i) = Some i"
| "actor (LoneFire i) = Some i"
| "actor (LoneCheck i) = Some i"
| "actor (LoneClose i) = Some i"

text \<open>Only a goroutine that exists takes a step.\<close>

definition relay_step :: "relay \<Rightarrow> relay_action \<Rightarrow> relay" where
  "relay_step r a = (case actor a of
     None \<Rightarrow> handler_step r a
   | Some i \<Rightarrow> if i < conns r then handler_step r a else r)"


lemmas relay_step_defs = serve_close_old_def serve_read_def writePeer_loop_def write_ok_def write_err_def
  select_change_def select_deadline_def serve_exit_def serve_close_def serve_close_peer_def
  lone_fire_def lone_check_def lone_close_def return_from_def goto_def close_conn_def set_timer_def

section \<open>What a step of a goroutine leaves alone\<close>

lemma slot_simps [simp]:
  "slot ro (broadcast se) = slot ro se"
  "slot ro (set_slot ro nc se) = Some nc"
  "ro \<noteq> ro' \<Longrightarrow> slot ro (set_slot ro' nc se) = slot ro se"
  by (cases ro; cases ro'; simp add: slot_def set_slot_def broadcast_def)+

lemma other_role_simps [simp]: "other_role ro \<noteq> ro" "ro \<noteq> other_role ro" "other_role (other_role ro) = ro"
  by (cases ro; simp)+

lemma upd_hand_simps [simp]:
  "r_heap (upd_hand i f r) = r_heap r" "r_sessions (upd_hand i f r) = r_sessions r"
  "r_log (upd_hand i f r) = r_log r" "conns (upd_hand i f r) = conns r"
  "j \<noteq> i \<Longrightarrow> hand (upd_hand i f r) j = hand r j"
  "i < conns r \<Longrightarrow> hand (upd_hand i f r) i = f (hand r i)"
  by (simp_all add: upd_hand_def)

text \<open>The pairing as far as it never changes, or only by sessions that end.\<close>

definition same_pairing :: "relay \<Rightarrow> relay \<Rightarrow> bool" where
  "same_pairing r r' \<longleftrightarrow> conns r' = conns r \<and> length (r_heap r') = length (r_heap r) \<and>
     (\<forall>j < conns r. h_sid (hand r' j) = h_sid (hand r j) \<and> h_role (hand r' j) = h_role (hand r j) \<and>
        h_sess (hand r' j) = h_sess (hand r j)) \<and>
     (\<forall>k < length (r_heap r). \<forall>ro. slot ro (r_heap r' ! k) = slot ro (r_heap r ! k)) \<and>
     r_sessions r' \<subseteq>\<^sub>m r_sessions r"

definition sends :: "relay \<Rightarrow> nat \<Rightarrow> delivery list" where
  "sends r i = filter (\<lambda>d. d_from d = i) (r_log r)"

text \<open>A step of goroutine \<open>i\<close> moves only \<open>i\<close>, and writes only for \<open>i\<close>.\<close>

definition moves :: "nat \<Rightarrow> relay \<Rightarrow> relay \<Rightarrow> bool" where
  "moves i r r' \<longleftrightarrow> same_pairing r r' \<and>
     (\<forall>j < conns r. j \<noteq> i \<longrightarrow> h_place (hand r' j) = h_place (hand r j) \<and> h_reads (hand r' j) = h_reads (hand r j) \<and>
        sends r' j = sends r j)"

lemma moves_refl: "moves i r r"
  by (simp add: moves_def same_pairing_def)

lemma moves_upd_hand:
  assumes "\<And>h. h_sid (f h) = h_sid h" "\<And>h. h_role (f h) = h_role h" "\<And>h. h_sess (f h) = h_sess h"
    and "\<And>h. i \<noteq> j \<Longrightarrow> h_place (f h) = h_place h" "\<And>h. i \<noteq> j \<Longrightarrow> h_reads (f h) = h_reads h"
    and "moves j r r'"
  shows "moves j r (upd_hand i f r')"
proof (cases "i < conns r'")
  case True
  have "hand (upd_hand i f r') k = (if k = i then f (hand r' i) else hand r' k)" for k
    using True by auto
  then show ?thesis
    using assms by (auto simp: moves_def same_pairing_def sends_def)
next
  case False
  then have "upd_hand i f r' = r'" by (cases r') (simp add: upd_hand_def list_update_beyond)
  then show ?thesis using assms by simp
qed

lemma moves_log: "moves i r r' \<Longrightarrow> d_from d = i \<Longrightarrow> moves i r (r'\<lparr>r_log := r_log r' @ [d]\<rparr>)"
  by (auto simp: moves_def same_pairing_def sends_def)

lemma moves_exit:
  assumes "h_sess (hand r i) < length (r_heap r)"
  shows "moves i r (r\<lparr>r_sessions := (r_sessions r)(key := None),
      r_heap := (r_heap r)[h_sess (hand r i) := broadcast (sess_of r i)]\<rparr>)"
  using assms by (auto simp: moves_def same_pairing_def sends_def sess_of_def nth_list_update map_le_def)

lemma step_moves:
  assumes "actor a = Some i" "i < conns r" "h_sess (hand r i) < length (r_heap r)"
  shows "moves i r (relay_step r a)"
proof -
  note here = moves_upd_hand moves_log moves_refl moves_exit
  from assms show ?thesis
    by (cases a; auto simp: relay_step_def relay_step_defs intro!: here split: place.split option.split)
qed


section \<open>Invariants\<close>

text \<open>
  The slots point to connections of their session and role, and never to one that is older than
  another of the same slot; a session belongs to one key; the map's entries are sessions that
  have a connection.
\<close>

definition slots_ok :: "relay \<Rightarrow> bool" where
  "slots_ok r \<longleftrightarrow>
     (\<forall>i < conns r. h_sess (hand r i) < length (r_heap r) \<and>
        (\<exists>q. slot (h_role (hand r i)) (sess_of r i) = Some q \<and> i \<le> q)) \<and>
     (\<forall>k < length (r_heap r). \<forall>ro q. slot ro (r_heap r ! k) = Some q \<longrightarrow>
        q < conns r \<and> h_sess (hand r q) = k \<and> h_role (hand r q) = ro) \<and>
     (\<forall>i < conns r. \<forall>j < conns r. h_sess (hand r i) = h_sess (hand r j) \<longrightarrow> h_sid (hand r i) = h_sid (hand r j)) \<and>
     (\<forall>sid k. r_sessions r sid = Some k \<longrightarrow>
        (\<exists>i < conns r. h_sess (hand r i) = k \<and> h_sid (hand r i) = sid))"

text \<open>\<open>q\<close> is or was the other end of \<open>i\<close>.\<close>

definition mates :: "relay \<Rightarrow> nat \<Rightarrow> nat \<Rightarrow> bool" where
  "mates r i q \<longleftrightarrow> q < conns r \<and> h_sess (hand r q) = h_sess (hand r i) \<and>
     h_role (hand r q) = other_role (h_role (hand r i))"

definition torn_down :: "relay \<Rightarrow> nat \<Rightarrow> bool" where
  "torn_down r i \<longleftrightarrow> r_sessions r (h_sid (hand r i)) \<noteq> Some (h_sess (hand r i))"

definition place_ok :: "relay \<Rightarrow> nat \<Rightarrow> bool" where
  "place_ok r i \<longleftrightarrow> (case h_place (hand r i) of
     Registering (Some q) \<Rightarrow> q < i \<and> h_sess (hand r q) = h_sess (hand r i) \<and>
       h_role (hand r q) = h_role (hand r i)
   | AtWrite p e q \<Rightarrow> mates r i q \<and> (\<forall>d \<in> set (sends r i). d_to d \<le> q)
   | AtClose (Some q) \<Rightarrow> mates r i q \<and> torn_down r i
   | AtClosePeer q \<Rightarrow> mates r i q \<and> torn_down r i
   | _ \<Rightarrow> True)"

definition targets_ok :: "relay \<Rightarrow> nat \<Rightarrow> bool" where
  "targets_ok r i \<longleftrightarrow> sorted (map d_to (sends r i)) \<and> (\<forall>d \<in> set (sends r i). mates r i (d_to d))"

text \<open>What was read against what was written, place by place.\<close>

definition whole_of :: "delivery list \<Rightarrow> byte list list" where
  "whole_of ds = map d_bytes (filter d_whole ds)"

definition flow_ok :: "place \<Rightarrow> delivery list \<Rightarrow> byte list list \<Rightarrow> bool" where
  "flow_ok pl ds rs \<longleftrightarrow> (case pl of
     Registering q \<Rightarrow> ds = [] \<and> rs = []
   | AtRead \<Rightarrow> list_all d_whole ds \<and> map d_bytes ds = rs
   | AtLoop p e \<Rightarrow> list_all d_whole ds \<and> map d_bytes ds @ [p] = rs
   | AtSelect p e ch \<Rightarrow> list_all d_whole ds \<and> map d_bytes ds @ [p] = rs
   | AtWrite p e q \<Rightarrow> list_all d_whole ds \<and> map d_bytes ds @ [p] = rs
   | _ \<Rightarrow> prefix (concat (map d_bytes ds)) (concat rs) \<and> prefix (whole_of ds) rs \<and>
       length rs \<le> Suc (length (whole_of ds)))"

text \<open>Before the last section of \<^verbatim>\<open>serve\<close>.\<close>

fun serving :: "place \<Rightarrow> bool" where
  "serving (AtClose q) = False"
| "serving (AtClosePeer q) = False"
| "serving Returned = False"
| "serving pl = True"

definition live_ok :: "relay \<Rightarrow> bool" where
  "live_ok r \<longleftrightarrow> (\<forall>q < conns r. is_current r q \<longrightarrow> serving (h_place (hand r q)))"

definition relay_ok :: "relay \<Rightarrow> bool" where
  "relay_ok r \<longleftrightarrow> slots_ok r \<and> live_ok r \<and> (\<forall>d \<in> set (r_log r). d_from d < conns r) \<and>
     (\<forall>i < conns r. place_ok r i \<and> targets_ok r i \<and> flow_ok (h_place (hand r i)) (sends r i) (h_reads (hand r i)))"

subsection \<open>They follow the pairing\<close>

lemma sess_of_same:
  assumes "same_pairing r r'" "i < conns r" "h_sess (hand r i) < length (r_heap r)"
  shows "slot ro (sess_of r' i) = slot ro (sess_of r i)"
  using assms by (simp add: same_pairing_def sess_of_def)

lemma slots_okD:
  assumes "slots_ok r"
  shows "i < conns r \<Longrightarrow> h_sess (hand r i) < length (r_heap r)"
    "i < conns r \<Longrightarrow> \<exists>q. slot (h_role (hand r i)) (sess_of r i) = Some q \<and> i \<le> q"
    "k < length (r_heap r) \<Longrightarrow> slot ro (r_heap r ! k) = Some q \<Longrightarrow>
       q < conns r \<and> h_sess (hand r q) = k \<and> h_role (hand r q) = ro"
    "i < conns r \<Longrightarrow> j < conns r \<Longrightarrow> h_sess (hand r i) = h_sess (hand r j) \<Longrightarrow>
       h_sid (hand r i) = h_sid (hand r j)"
    "r_sessions r sid = Some k \<Longrightarrow> \<exists>i < conns r. h_sess (hand r i) = k \<and> h_sid (hand r i) = sid"
  using assms unfolding slots_ok_def by blast+

lemma slots_ok_same:
  assumes same: "same_pairing r r'" and ok: "slots_ok r"
  shows "slots_ok r'"
  unfolding slots_ok_def
proof (intro conjI)
  show "\<forall>i<conns r'. h_sess (hand r' i) < length (r_heap r') \<and>
      (\<exists>q. slot (h_role (hand r' i)) (sess_of r' i) = Some q \<and> i \<le> q)"
    using same slots_okD(1,2) [OF ok] sess_of_same [OF same] by (simp add: same_pairing_def)
  show "\<forall>k<length (r_heap r'). \<forall>ro q. slot ro (r_heap r' ! k) = Some q \<longrightarrow>
      q < conns r' \<and> h_sess (hand r' q) = k \<and> h_role (hand r' q) = ro"
    using same slots_okD(3) [OF ok] by (auto simp: same_pairing_def)
  show "\<forall>i<conns r'. \<forall>j<conns r'. h_sess (hand r' i) = h_sess (hand r' j) \<longrightarrow> h_sid (hand r' i) = h_sid (hand r' j)"
    using same slots_okD(4) [OF ok] unfolding same_pairing_def by metis
  show "\<forall>sid k. r_sessions r' sid = Some k \<longrightarrow> (\<exists>i<conns r'. h_sess (hand r' i) = k \<and> h_sid (hand r' i) = sid)"
  proof (intro allI impI)
    fix sid k assume "r_sessions r' sid = Some k"
    with same have "r_sessions r sid = Some k"
      by (auto simp: same_pairing_def map_le_def dom_def)
    from slots_okD(5) [OF ok this] obtain i
      where "i < conns r" "h_sess (hand r i) = k" "h_sid (hand r i) = sid" by blast
    with same show "\<exists>i<conns r'. h_sess (hand r' i) = k \<and> h_sid (hand r' i) = sid"
      by (auto simp: same_pairing_def)
  qed
qed

lemma slot_mates:
  assumes "slots_ok r" "i < conns r" "peer_of r i = Some q"
  shows "mates r i q"
  using assms(3) slots_okD(3) [OF assms(1) slots_okD(1) [OF assms(1,2)]]
  by (simp add: mates_def peer_of_def sess_of_def)

text \<open>A slot only ever moves on to a newer connection.\<close>

lemma mates_older:
  assumes ok: "slots_ok r" and i: "i < conns r" and m: "mates r i q"
  shows "\<exists>q'. peer_of r i = Some q' \<and> q \<le> q'"
  using slots_okD(2) [OF ok, of q] m by (simp add: mates_def peer_of_def sess_of_def)

lemma mates_same: "same_pairing r r' \<Longrightarrow> i < conns r \<Longrightarrow> mates r' i q \<longleftrightarrow> mates r i q"
  by (auto simp: mates_def same_pairing_def)

lemma torn_down_same:
  assumes "same_pairing r r'" "i < conns r" "torn_down r i"
  shows "torn_down r' i"
proof -
  have "r_sessions r' (h_sid (hand r i)) = Some k \<Longrightarrow> r_sessions r (h_sid (hand r i)) = Some k" for k
    using assms(1) by (auto simp: same_pairing_def map_le_def dom_def)
  with assms show ?thesis by (auto simp: torn_down_def same_pairing_def)
qed

lemma current_same:
  assumes same: "same_pairing r r'" and ok: "slots_ok r" and i: "i < conns r" and c: "is_current r' i"
  shows "is_current r i"
proof -
  have "\<not> torn_down r' i" using c by (simp add: is_current_def torn_down_def)
  then have "\<not> torn_down r i" using torn_down_same [OF same i] by blast
  with c same i sess_of_same [OF same i slots_okD(1) [OF ok i]] show ?thesis
    by (simp add: is_current_def torn_down_def isCurrentLocked_def same_pairing_def)
qed

lemma place_ok_same:
  assumes "moves i r r'" "j < conns r" "j \<noteq> i" "i < conns r" "place_ok r j"
  shows "place_ok r' j"
proof -
  from assms have same: "same_pairing r r'" and place: "h_place (hand r' j) = h_place (hand r j)"
    and sends: "sends r' j = sends r j" by (simp_all add: moves_def)
  note mates_same [OF same assms(2), simp]
  show ?thesis
    using assms(2,5) same torn_down_same [OF same assms(2)]
    by (auto simp: place_ok_def place sends same_pairing_def split: place.splits option.splits)
qed

lemma targets_ok_same:
  assumes "moves i r r'" "j < conns r" "j \<noteq> i" "targets_ok r j"
  shows "targets_ok r' j"
  using assms mates_same [of r r' j] by (simp add: targets_ok_def moves_def)

text \<open>So for a step of \<open>i\<close> it is enough to look at \<open>i\<close>.\<close>

lemma relay_ok_moves:
  assumes ok: "relay_ok r" and i: "i < conns r" and m: "moves i r r'"
    and live: "is_current r' i \<Longrightarrow> serving (h_place (hand r' i))"
    and log: "\<forall>d \<in> set (r_log r'). d_from d < conns r"
    and place: "place_ok r' i" and targets: "targets_ok r' i"
    and flow: "flow_ok (h_place (hand r' i)) (sends r' i) (h_reads (hand r' i))"
  shows "relay_ok r'"
proof -
  from m have same: "same_pairing r r'" by (simp add: moves_def)
  from ok have slots: "slots_ok r" by (simp add: relay_ok_def)
  have n: "conns r' = conns r" using same by (simp add: same_pairing_def)
  have "live_ok r'"
    unfolding live_ok_def n
  proof (intro allI impI)
    fix q assume q: "q < conns r" and c: "is_current r' q"
    show "serving (h_place (hand r' q))"
    proof (cases "q = i")
      case False
      with current_same [OF same slots q c] ok q m show ?thesis
        by (simp add: relay_ok_def live_ok_def moves_def)
    qed (use live c in simp)
  qed
  moreover have "place_ok r' j \<and> targets_ok r' j \<and> flow_ok (h_place (hand r' j)) (sends r' j) (h_reads (hand r' j))"
    if j: "j < conns r" for j
  proof (cases "j = i")
    case False
    from ok j have "place_ok r j" "targets_ok r j" "flow_ok (h_place (hand r j)) (sends r j) (h_reads (hand r j))"
      by (simp_all add: relay_ok_def)
    with place_ok_same [OF m j False i] targets_ok_same [OF m j False] m j False show ?thesis
      by (simp add: moves_def)
  qed (use place targets flow in simp)
  ultimately show ?thesis
    using slots_ok_same [OF same slots] log by (simp add: relay_ok_def n)
qed


subsection \<open>Every step keeps them\<close>

lemma relay_okD:
  assumes "relay_ok r"
  shows "slots_ok r" "live_ok r" "d \<in> set (r_log r) \<Longrightarrow> d_from d < conns r"
    "i < conns r \<Longrightarrow> place_ok r i" "i < conns r \<Longrightarrow> targets_ok r i"
    "i < conns r \<Longrightarrow> flow_ok (h_place (hand r i)) (sends r i) (h_reads (hand r i))"
  using assms by (simp_all add: relay_ok_def)

lemma close_conn_parts [simp]:
  "h_sid (hand (close_conn q r) i) = h_sid (hand r i)" "h_role (hand (close_conn q r) i) = h_role (hand r i)"
  "h_sess (hand (close_conn q r) i) = h_sess (hand r i)" "h_place (hand (close_conn q r) i) = h_place (hand r i)"
  "h_timer (hand (close_conn q r) i) = h_timer (hand r i)" "h_reads (hand (close_conn q r) i) = h_reads (hand r i)"
  "r_heap (close_conn q r) = r_heap r" "r_sessions (close_conn q r) = r_sessions r"
  "r_log (close_conn q r) = r_log r" "conns (close_conn q r) = conns r"
proof -
  have "hand (close_conn q r) i = hand r i \<or>
      hand (close_conn q r) i = (hand r i)\<lparr>h_open := False\<rparr>"
    by (cases "q < conns r"; cases "i = q")
       (auto simp: close_conn_def upd_hand_def nth_list_update list_update_beyond)
  then show "h_sid (hand (close_conn q r) i) = h_sid (hand r i)" "h_role (hand (close_conn q r) i) = h_role (hand r i)"
    "h_sess (hand (close_conn q r) i) = h_sess (hand r i)" "h_place (hand (close_conn q r) i) = h_place (hand r i)"
    "h_timer (hand (close_conn q r) i) = h_timer (hand r i)" "h_reads (hand (close_conn q r) i) = h_reads (hand r i)"
    by auto
qed (simp_all add: close_conn_def)

lemma sends_simps [simp]:
  "sends (upd_hand i f r) j = sends r j" "sends (close_conn q r) j = sends r j"
  "sends (r\<lparr>r_log := r_log r @ [d]\<rparr>) j = (if d_from d = j then sends r j @ [d] else sends r j)"
  "sends (r\<lparr>r_sessions := m, r_heap := hp\<rparr>) j = sends r j"
  by (simp_all add: sends_def)

lemma relay_ok_still:
  assumes ok: "relay_ok r" and i: "i < conns r" and m: "moves i r r'" and log: "r_log r' = r_log r"
    and live: "serving (h_place (hand r i)) \<Longrightarrow> serving (h_place (hand r' i)) \<or> \<not> is_current r' i"
    and place: "place_ok r' i"
    and flow: "flow_ok (h_place (hand r' i)) (sends r i) (h_reads (hand r' i))"
  shows "relay_ok r'"
proof (rule relay_ok_moves [OF ok i m _ _ place])
  have same: "same_pairing r r'" and sends: "sends r' i = sends r i"
    using m log by (simp_all add: moves_def sends_def)
  from relay_okD(5) [OF ok i] mates_same [OF same i] show "targets_ok r' i"
    by (simp add: targets_ok_def sends)
  from flow show "flow_ok (h_place (hand r' i)) (sends r' i) (h_reads (hand r' i))" by (simp add: sends)
  show "\<forall>d\<in>set (r_log r'). d_from d < conns r" using relay_okD(3) [OF ok] log by auto
  assume c: "is_current r' i"
  with current_same [OF same relay_okD(1) [OF ok] i] relay_okD(2) [OF ok] i have "serving (h_place (hand r i))"
    by (simp add: live_ok_def)
  with live c show "serving (h_place (hand r' i))" by blast
qed

text \<open>Handing over to the code after the loop.\<close>

lemma flow_exit:
  assumes "flow_ok pl ds rs"
  shows "flow_ok AtExit ds rs"
proof -
  have all: "list_all d_whole ds \<Longrightarrow> whole_of ds = map d_bytes ds"
    unfolding whole_of_def by (induction ds) auto
  have "whole_of [] = []" by (simp add: whole_of_def)
  with assms show ?thesis
    by (cases pl) (auto simp: flow_ok_def all)
qed

lemma flow_after: "flow_ok AtExit ds rs \<Longrightarrow> flow_ok (AtClose q) ds rs"
  "flow_ok AtExit ds rs \<Longrightarrow> flow_ok (AtClosePeer p) ds rs" "flow_ok AtExit ds rs \<Longrightarrow> flow_ok Returned ds rs"
  by (simp_all add: flow_ok_def)



lemma step_moves_at:
  assumes "relay_ok r" "i < conns r"
  shows "moves i r (serve_close_old i r)" "moves i r (serve_read i p e r)" "moves i r (writePeer_loop i r)"
    "moves i r (write_ok i r)" "moves i r (write_err i n r)" "moves i r (select_change i r)"
    "moves i r (select_deadline i r)" "moves i r (serve_exit i r)" "moves i r (serve_close i r)"
    "moves i r (serve_close_peer i r)" "moves i r (lone_fire i r)" "moves i r (lone_check i r)"
    "moves i r (lone_close i r)"
  using step_moves [OF _ assms(2) slots_okD(1) [OF relay_okD(1) [OF assms(1)] assms(2)]] assms(2)
  by (metis (lifting) actor.simps handler_step.simps relay_step_def option.simps(5))+

lemma close_old_ok:
  assumes ok: "relay_ok r" and i: "i < conns r"
  shows "relay_ok (serve_close_old i r)"
proof (cases "h_place (hand r i)")
  case (Registering old)
  have q: "conns (case old of None \<Rightarrow> r | Some q \<Rightarrow> close_conn q r) = conns r" by (simp split: option.split)
  from relay_okD(6) [OF ok i] show ?thesis
    using step_moves_at(1) [OF ok i] i q
    by (intro relay_ok_still [OF ok i])
      (auto simp: serve_close_old_def Registering place_ok_def flow_ok_def split: option.split)
qed (simp_all add: serve_close_old_def ok)

lemma read_ok:
  assumes ok: "relay_ok r" and i: "i < conns r"
  shows "relay_ok (serve_read i p e r)"
proof (cases "h_place (hand r i) = AtRead \<and> length p \<le> 32 * 1024 \<and> (p \<noteq> [] \<or> e)")
  case True
  from relay_okD(6) [OF ok i] True show ?thesis
    using step_moves_at(2) [OF ok i, of p e] i flow_exit [OF relay_okD(6) [OF ok i]]
    by (intro relay_ok_still [OF ok i]) (auto simp: serve_read_def goto_def place_ok_def flow_ok_def)
next
  case False
  then have "serve_read i p e r = r" by (auto simp: serve_read_def)
  with ok show ?thesis by simp
qed

lemma place_ok_upd:
  "i < conns r \<Longrightarrow> h_place (f (hand r i)) = AtWrite p e q \<Longrightarrow> mates (upd_hand i f r) i q \<Longrightarrow>
     \<forall>d \<in> set (sends r i). d_to d \<le> q \<Longrightarrow> place_ok (upd_hand i f r) i"
  by (simp add: place_ok_def)

lemma peer_loop_ok:
  assumes ok: "relay_ok r" and i: "i < conns r"
  shows "relay_ok (writePeer_loop i r)"
proof (cases "h_place (hand r i)")
  case (AtLoop p e)
  note m = step_moves_at(3) [OF ok i]
  note flow = relay_okD(6) [OF ok i]
  show ?thesis
  proof (cases "is_current r i \<and> (\<exists>q. peer_of r i = Some q)")
    case False
    with m flow_exit [OF flow] flow i show ?thesis
      by (intro relay_ok_still [OF ok i])
        (auto simp: writePeer_loop_def AtLoop goto_def place_ok_def flow_ok_def split: option.split)
  next
    case True
    then obtain q where q: "is_current r i" "peer_of r i = Some q" by blast
    then have step: "writePeer_loop i r = goto i (AtWrite p e q) r" by (simp add: writePeer_loop_def AtLoop)
    have older: "d_to d \<le> q" if "d \<in> set (sends r i)" for d
      using that relay_okD(5) [OF ok i] mates_older [OF relay_okD(1) [OF ok] i, of "d_to d"] q
      by (auto simp: targets_ok_def)
    have mate: "mates r i q" by (rule slot_mates [OF relay_okD(1) [OF ok] i q(2)])
    have mate': "mates (writePeer_loop i r) i q" using mate m mates_same i by (auto simp: moves_def)
    with m flow i older show ?thesis
      by (intro relay_ok_still [OF ok i]) (auto simp: step goto_def AtLoop flow_ok_def intro: place_ok_upd)
  qed
qed (simp_all add: writePeer_loop_def ok)

lemma write_steps_ok:
  assumes ok: "relay_ok r" and i: "i < conns r"
  shows "relay_ok (write_ok i r)" "relay_ok (write_err i n r)"
proof -
  note flow = relay_okD(6) [OF ok i] and place = relay_okD(4) [OF ok i] and targets = relay_okD(5) [OF ok i]
  have "relay_ok r'" if at: "h_place (hand r i) = AtWrite p e q" and m: "moves i r r'"
    and log: "r_log r' = r_log r @ [\<lparr>d_from = i, d_to = q, d_bytes = b, d_whole = w\<rparr>]"
    and p': "h_place (hand r' i) = AtExit \<or> h_place (hand r' i) = AtRead" "h_reads (hand r' i) = h_reads (hand r i)"
    and b: "if w then b = p else prefix b p \<and> h_place (hand r' i) = AtExit" for p e q b w r'
  proof (rule relay_ok_moves [OF ok i m])
    have same: "same_pairing r r'" using m by (simp add: moves_def)
    have sends: "sends r' i = sends r i @ [\<lparr>d_from = i, d_to = q, d_bytes = b, d_whole = w\<rparr>]"
      by (simp add: sends_def log)
    show "serving (h_place (hand r' i))" using p'(1) by auto
    show "\<forall>d\<in>set (r_log r'). d_from d < conns r" using relay_okD(3) [OF ok] i by (auto simp: log)
    show "place_ok r' i" using p'(1) by (auto simp: place_ok_def)
    show "targets_ok r' i"
      using place targets mates_same [OF same i] by (auto simp: targets_ok_def sends place_ok_def at sorted_append)
    have f: "list_all d_whole (sends r i)" "map d_bytes (sends r i) @ [p] = h_reads (hand r i)"
      using flow by (simp_all add: flow_ok_def at)
    have rs: "h_reads (hand r' i) = map d_bytes (sends r i) @ [p]" using p'(2) f(2) by simp
    show "flow_ok (h_place (hand r' i)) (sends r' i) (h_reads (hand r' i))"
    proof (cases w)
      case True
      with b f(1) have "flow_ok AtRead (sends r' i) (h_reads (hand r' i))" by (simp add: flow_ok_def sends rs)
      with p'(1) flow_exit show ?thesis by auto
    next
      case False
      have "filter d_whole (sends r i) = sends r i" using f(1) by (simp add: list_all_iff)
      with False b show ?thesis by (simp add: flow_ok_def sends rs whole_of_def)
    qed
  qed
  note on = this
  show "relay_ok (write_ok i r)"
  proof (cases "h_place (hand r i)")
    case (AtWrite p e q)
    show ?thesis
      using step_moves_at(4) [OF ok i] i by (intro on [OF AtWrite]) (auto simp: write_ok_def AtWrite goto_def)
  qed (simp_all add: write_ok_def ok)
  show "relay_ok (write_err i n r)"
  proof (cases "h_place (hand r i)")
    case (AtWrite p e q)
    show ?thesis
      using step_moves_at(5) [OF ok i] i
      by (intro on [OF AtWrite]) (auto simp: write_err_def AtWrite goto_def take_is_prefix)
  qed (simp_all add: write_err_def ok)
qed


lemma select_ok:
  assumes ok: "relay_ok r" and i: "i < conns r"
  shows "relay_ok (select_change i r)" "relay_ok (select_deadline i r)"
proof -
  note flow = relay_okD(6) [OF ok i] and m = step_moves_at(6,7) [OF ok i]
  show "relay_ok (select_change i r)"
  proof (cases "\<exists>p e ch. h_place (hand r i) = AtSelect p e ch \<and> s_change (sess_of r i) \<noteq> ch")
    case True
    with m(1) flow i show ?thesis
      by (intro relay_ok_still [OF ok i]) (auto simp: select_change_def goto_def place_ok_def flow_ok_def)
  next
    case False
    then have "select_change i r = r" by (auto simp: select_change_def split: place.split)
    with ok show ?thesis by simp
  qed
  show "relay_ok (select_deadline i r)"
  proof (cases "h_place (hand r i)")
    case (AtSelect p e ch)
    with m(2) flow_exit [OF flow] i show ?thesis
      by (intro relay_ok_still [OF ok i]) (auto simp: select_deadline_def goto_def place_ok_def)
  qed (simp_all add: select_deadline_def ok)
qed

lemma goto_parts [simp]:
  "i < conns r \<Longrightarrow> h_place (hand (goto i pl r) i) = pl" "i < conns r \<Longrightarrow> h_reads (hand (goto i pl r) i) = h_reads (hand r i)"
  "i < conns r \<Longrightarrow> h_sid (hand (goto i pl r) i) = h_sid (hand r i)"
  "i < conns r \<Longrightarrow> h_sess (hand (goto i pl r) i) = h_sess (hand r i)"
  "r_sessions (goto i pl r) = r_sessions r" "r_log (goto i pl r) = r_log r" "r_heap (goto i pl r) = r_heap r"
  "conns (goto i pl r) = conns r"
  by (simp_all add: goto_def)

lemma exit_ok:
  assumes ok: "relay_ok r" and i: "i < conns r"
  shows "relay_ok (serve_exit i r)"
proof (cases "h_place (hand r i)")
  case AtExit
  let ?r' = "serve_exit i r"
  note m = step_moves_at(8) [OF ok i]
  have same: "same_pairing r ?r'" using m by (simp add: moves_def)
  have log: "r_log ?r' = r_log r" by (simp add: serve_exit_def AtExit)
  from relay_okD(6) [OF ok i] have flow: "flow_ok AtExit (sends r i) (h_reads (hand r i))" by (simp add: AtExit)
  show ?thesis
  proof (cases "is_current r i")
    case True
    then have parts: "h_place (hand ?r' i) = AtClose (peer_of r i)" "h_reads (hand ?r' i) = h_reads (hand r i)"
      "torn_down ?r' i"
      using i by (simp_all add: serve_exit_def AtExit torn_down_def)
    then have "\<not> is_current ?r' i" by (simp add: is_current_def torn_down_def)
    moreover have "place_ok ?r' i"
      using slot_mates [OF relay_okD(1) [OF ok] i] mates_same [OF same i] parts
      by (simp add: place_ok_def split: option.split)
    ultimately show ?thesis
      using flow_after [OF flow] parts by (intro relay_ok_still [OF ok i m log]) simp_all
  next
    case False
    then have parts: "h_place (hand ?r' i) = AtClose None" "h_reads (hand ?r' i) = h_reads (hand r i)"
      using i by (simp_all add: serve_exit_def AtExit)
    have "\<not> is_current ?r' i" using False current_same [OF same relay_okD(1) [OF ok] i] by blast
    with flow_after [OF flow] parts show ?thesis
      by (intro relay_ok_still [OF ok i m log]) (simp_all add: place_ok_def)
  qed
qed (simp_all add: serve_exit_def ok)

lemma close_steps_ok:
  assumes ok: "relay_ok r" and i: "i < conns r"
  shows "relay_ok (serve_close i r)" "relay_ok (serve_close_peer i r)"
proof -
  note flow = relay_okD(6) [OF ok i] and place = relay_okD(4) [OF ok i] and m = step_moves_at(9,10) [OF ok i]
  show "relay_ok (serve_close i r)"
  proof (cases "h_place (hand r i)")
    case (AtClose po)
    have same: "same_pairing r (serve_close i r)" using m(1) by (simp add: moves_def)
    show ?thesis
    proof (cases po)
      case None
      with m(1) flow i show ?thesis
        by (intro relay_ok_still [OF ok i])
          (simp_all add: serve_close_def AtClose return_from_def place_ok_def flow_ok_def)
    next
      case (Some q)
      have "mates (serve_close i r) i q \<and> torn_down (serve_close i r) i"
        using place mates_same [OF same i] torn_down_same [OF same i] by (simp add: place_ok_def AtClose Some)
      with m(1) flow i Some show ?thesis
        by (intro relay_ok_still [OF ok i]) (simp_all add: serve_close_def AtClose place_ok_def flow_ok_def)
    qed
  qed (simp_all add: serve_close_def ok)
  show "relay_ok (serve_close_peer i r)"
  proof (cases "h_place (hand r i)")
    case (AtClosePeer q)
    with m(2) flow i show ?thesis
      by (intro relay_ok_still [OF ok i]) (simp_all add: serve_close_peer_def return_from_def place_ok_def flow_ok_def)
  qed (simp_all add: serve_close_peer_def ok)
qed

lemma timer_ok:
  assumes ok: "relay_ok r" and i: "i < conns r"
  shows "relay_ok (lone_fire i r)" "relay_ok (lone_check i r)" "relay_ok (lone_close i r)"
proof -
  note flow = relay_okD(6) [OF ok i] and place = relay_okD(4) [OF ok i] and m = step_moves_at(11-13) [OF ok i]
  have "relay_ok r'" if m: "moves i r r'" and log: "r_log r' = r_log r"
    and h: "h_place (hand r' i) = h_place (hand r i)" "h_reads (hand r' i) = h_reads (hand r i)" for r'
  proof (rule relay_ok_still [OF ok i m log])
    have same: "same_pairing r r'" and sends: "sends r' i = sends r i"
      using m log by (simp_all add: moves_def sends_def)
    show "place_ok r' i"
      using place same i torn_down_same [OF same i] mates_same [OF same i]
      by (auto simp: place_ok_def h sends same_pairing_def split: place.splits option.splits)
  qed (use flow h in simp_all)
  then show "relay_ok (lone_fire i r)" "relay_ok (lone_check i r)" "relay_ok (lone_close i r)"
    using m i by (auto simp: lone_fire_def lone_check_def lone_close_def set_timer_def)
qed


text \<open>A new connection.\<close>

lemma find_sess_parts:
  assumes slots: "slots_ok r" and find: "find_sess sid r = (r1, k)"
  shows "r_handlers r1 = r_handlers r" "r_log r1 = r_log r" "r_sessions r1 = (r_sessions r)(sid \<mapsto> k)"
    "k < length (r_heap r1)" "length (r_heap r) \<le> length (r_heap r1)"
    "j < length (r_heap r) \<Longrightarrow> r_heap r1 ! j = r_heap r ! j"
    "j < length (r_heap r1) \<Longrightarrow> \<not> j < length (r_heap r) \<Longrightarrow> j = k \<and> slot ro (r_heap r1 ! j) = None"
    "i < conns r \<Longrightarrow> h_sess (hand r i) = k \<Longrightarrow> h_sid (hand r i) = sid \<and> r_sessions r sid = Some k"
proof -
  have old: "k < length (r_heap r) \<and> (\<forall>i < conns r. h_sess (hand r i) = k \<longrightarrow> h_sid (hand r i) = sid)"
    if "r_sessions r sid = Some k" for k
    using slots_okD(5) [OF slots that] slots_okD(1,4) [OF slots] by metis
  have new: "h_sess (hand r i) \<noteq> length (r_heap r)" if "i < conns r" for i
    using slots_okD(1) [OF slots that] by simp
  have empty: "slot ro \<lparr>s_source = None, s_viewer = None, s_change = 0\<rparr> = None"
    by (simp add: slot_def split: role.split)
  show "r_handlers r1 = r_handlers r" "r_log r1 = r_log r" "r_sessions r1 = (r_sessions r)(sid \<mapsto> k)"
    "k < length (r_heap r1)" "length (r_heap r) \<le> length (r_heap r1)"
    "j < length (r_heap r) \<Longrightarrow> r_heap r1 ! j = r_heap r ! j"
    "j < length (r_heap r1) \<Longrightarrow> \<not> j < length (r_heap r) \<Longrightarrow> j = k \<and> slot ro (r_heap r1 ! j) = None"
    "i < conns r \<Longrightarrow> h_sess (hand r i) = k \<Longrightarrow> h_sid (hand r i) = sid \<and> r_sessions r sid = Some k"
    using find old new empty
    by (auto simp: find_sess_def nth_append fun_upd_idem less_Suc_eq split: option.splits)
qed

lemma register_parts:
  assumes slots: "slots_ok r" and find: "find_sess sid r = (r1, k)" and r'_def: "r' = serve_register sid ro r"
  shows "conns r' = Suc (conns r)" "i < conns r \<Longrightarrow> hand r' i = hand r i"
    "hand r' (conns r) = \<lparr>h_sid = sid, h_role = ro, h_sess = k, h_place = Registering (slot ro (r_heap r1 ! k)),
       h_timer = NoTimer, h_open = True, h_reads = []\<rparr>"
    "length (r_heap r') = length (r_heap r1)" "r_log r' = r_log r" "r_sessions r' = (r_sessions r)(sid \<mapsto> k)"
    "j < length (r_heap r1) \<Longrightarrow> slot ro' (r_heap r' ! j) =
       (if j = k \<and> ro' = ro then Some (conns r) else slot ro' (r_heap r1 ! j))"
proof -
  note f = find_sess_parts [OF slots find]
  let ?se = "r_heap r1 ! k"
  have r': "r' = r1\<lparr>r_heap := (r_heap r1)[k := broadcast (set_slot ro (conns r) ?se)],
      r_handlers := r_handlers r @ [\<lparr>h_sid = sid, h_role = ro, h_sess = k, h_place = Registering (slot ro ?se),
        h_timer = NoTimer, h_open = True, h_reads = []\<rparr>]\<rparr>"
    by (simp add: r'_def serve_register_def find f(1) Let_def)
  show "conns r' = Suc (conns r)" "i < conns r \<Longrightarrow> hand r' i = hand r i"
    "hand r' (conns r) = \<lparr>h_sid = sid, h_role = ro, h_sess = k, h_place = Registering (slot ro ?se),
       h_timer = NoTimer, h_open = True, h_reads = []\<rparr>"
    "length (r_heap r') = length (r_heap r1)" "r_log r' = r_log r" "r_sessions r' = (r_sessions r)(sid \<mapsto> k)"
    by (simp_all add: r' nth_append f(2,3))
  show "slot ro' (r_heap r' ! j) = (if j = k \<and> ro' = ro then Some (conns r) else slot ro' (r_heap r1 ! j))"
    if "j < length (r_heap r1)"
    using that by (cases "j = k"; cases "ro' = ro") (simp_all add: r' nth_list_update)
qed

lemma register_slots_ok:
  assumes slots: "slots_ok r"
  shows "slots_ok (serve_register sid ro r)"
proof -
  obtain r1 k where find: "find_sess sid r = (r1, k)" by (cases "find_sess sid r")
  note f = find_sess_parts [OF slots find]
  let ?r' = "serve_register sid ro r" and ?n = "conns r"
  note p = register_parts [OF slots find refl, where ro = ro]
  have old: "h_sess (hand r i) < length (r_heap r1) \<and> (\<exists>q\<ge>i. slot (h_role (hand r i)) (sess_of ?r' i) = Some q)"
    if i: "i < ?n" for i
  proof -
    from slots_okD(2) [OF slots i] obtain q where q: "slot (h_role (hand r i)) (sess_of r i) = Some q" "i \<le> q" by blast
    have b: "h_sess (hand r i) < length (r_heap r)" by (rule slots_okD(1) [OF slots i])
    then have b': "h_sess (hand r i) < length (r_heap r1)" using f(5) by simp
    then have "slot (h_role (hand r i)) (sess_of ?r' i) = Some q \<or> slot (h_role (hand r i)) (sess_of ?r' i) = Some ?n"
      using q(1) p(2) [OF i] p(7) [OF b'] f(6) [OF b] by (auto simp: sess_of_def)
    with b' q(2) i show ?thesis by (auto intro: less_imp_le)
  qed
  have slot_old: "q < ?n \<and> h_sess (hand r q) = j \<and> h_role (hand r q) = ro'"
    if j: "j < length (r_heap r1)" and q: "slot ro' (r_heap r1 ! j) = Some q" for j ro' q
  proof (cases "j < length (r_heap r)")
    case True
    with q f(6) [OF True] slots_okD(3) [OF slots True] show ?thesis by simp
  qed (use f(7) [OF j, of ro'] q in simp)
  have here: "slot ro (sess_of ?r' ?n) = Some ?n"
    using p(3) p(7) [OF f(4)] by (simp add: sess_of_def)
  show ?thesis
    unfolding slots_ok_def p(1)
  proof (intro conjI)
    show "\<forall>i<Suc ?n. h_sess (hand ?r' i) < length (r_heap ?r') \<and>
        (\<exists>q. slot (h_role (hand ?r' i)) (sess_of ?r' i) = Some q \<and> i \<le> q)"
      using old here p(2,3,4) f(4) by (auto simp: less_Suc_eq)
    show "\<forall>j<length (r_heap ?r'). \<forall>ro' q. slot ro' (r_heap ?r' ! j) = Some q \<longrightarrow>
        q < Suc ?n \<and> h_sess (hand ?r' q) = j \<and> h_role (hand ?r' q) = ro'"
    proof (intro allI impI)
      fix j ro' q assume j: "j < length (r_heap ?r')" and q: "slot ro' (r_heap ?r' ! j) = Some q"
      show "q < Suc ?n \<and> h_sess (hand ?r' q) = j \<and> h_role (hand ?r' q) = ro'"
      proof (cases "j = k \<and> ro' = ro")
        case True
        with q p(7) [of j ro'] j p(3,4) show ?thesis by auto
      next
        case False
        with q p(7) [of j ro'] j p(4) have "slot ro' (r_heap r1 ! j) = Some q" by auto
        with slot_old j p(2,4) show ?thesis by (auto simp: less_Suc_eq)
      qed
    qed
    show "\<forall>i<Suc ?n. \<forall>j<Suc ?n. h_sess (hand ?r' i) = h_sess (hand ?r' j) \<longrightarrow> h_sid (hand ?r' i) = h_sid (hand ?r' j)"
    proof (intro allI impI)
      fix i j assume ij: "i < Suc ?n" "j < Suc ?n" "h_sess (hand ?r' i) = h_sess (hand ?r' j)"
      have "h_sid (hand ?r' i) = sid" if "i < ?n" "h_sess (hand r i) = k" for i using f(8) that p(2) by simp
      with ij slots_okD(4) [OF slots, of i j] p(2,3) show "h_sid (hand ?r' i) = h_sid (hand ?r' j)"
        by (auto simp: less_Suc_eq)
    qed
    show "\<forall>s j. r_sessions ?r' s = Some j \<longrightarrow> (\<exists>i<Suc ?n. h_sess (hand ?r' i) = j \<and> h_sid (hand ?r' i) = s)"
    proof (intro allI impI)
      fix s j assume s: "r_sessions ?r' s = Some j"
      show "\<exists>i<Suc ?n. h_sess (hand ?r' i) = j \<and> h_sid (hand ?r' i) = s"
      proof (cases "s = sid")
        case True
        with s p(3,6) show ?thesis by (intro exI [of _ ?n]) simp
      next
        case False
        with s p(6) have "r_sessions r s = Some j" by simp
        from slots_okD(5) [OF slots this] p(2) show ?thesis by (metis less_SucI)
      qed
    qed
  qed
qed

lemma register_current:
  assumes slots: "slots_ok r" and i: "i < conns r" and c: "is_current (serve_register sid ro r) i"
  shows "is_current r i"
proof -
  obtain r1 k where find: "find_sess sid r = (r1, k)" by (cases "find_sess sid r")
  note f = find_sess_parts [OF slots find]
  note p = register_parts [OF slots find refl, where ro = ro]
  have b: "h_sess (hand r i) < length (r_heap r)" by (rule slots_okD(1) [OF slots i])
  then have b': "h_sess (hand r i) < length (r_heap r1)" using f(5) by simp
  from c have c': "slot (h_role (hand r i)) (r_heap (serve_register sid ro r) ! h_sess (hand r i)) = Some i"
    "((r_sessions r)(sid \<mapsto> k)) (h_sid (hand r i)) = Some (h_sess (hand r i))"
    unfolding is_current_def isCurrentLocked_def sess_of_def p(2) [OF i] p(6) by simp_all
  from c'(1) have "slot (h_role (hand r i)) (sess_of r i) = Some i"
    unfolding p(7) [OF b'] f(6) [OF b] sess_of_def using i by (simp split: if_splits)
  moreover have "r_sessions r (h_sid (hand r i)) = Some (h_sess (hand r i))"
  proof (cases "h_sid (hand r i) = sid")
    case True
    with c'(2) have "h_sess (hand r i) = k" by simp
    with f(8) [OF i this] show ?thesis by simp
  qed (use c'(2) in simp)
  ultimately show ?thesis by (simp add: is_current_def isCurrentLocked_def)
qed

lemma register_ok:
  assumes ok: "relay_ok r"
  shows "relay_ok (serve_register sid ro r)"
proof -
  note slots = relay_okD(1) [OF ok]
  obtain r1 k where find: "find_sess sid r = (r1, k)" by (cases "find_sess sid r")
  note f = find_sess_parts [OF slots find]
  let ?r' = "serve_register sid ro r" and ?n = "conns r"
  note p = register_parts [OF slots find refl, where ro = ro]
  have sends: "sends ?r' i = sends r i" for i by (simp add: sends_def p(5))
  have mates: "mates ?r' i q" if "i < ?n" "mates r i q" for i q
    using that p(1,2) by (simp add: mates_def)
  have torn: "torn_down ?r' i" if "i < ?n" "torn_down r i" for i
    using that p(2,6) f(8) [of i] by (auto simp: torn_down_def)
  have "live_ok ?r'"
    unfolding live_ok_def p(1)
  proof (intro allI impI)
    fix q assume q: "q < Suc ?n" "is_current ?r' q"
    show "serving (h_place (hand ?r' q))"
    proof (cases "q = ?n")
      case False
      with q(1) have n: "q < ?n" by simp
      have "is_current r q" by (rule register_current [OF slots n q(2)])
      with relay_okD(2) [OF ok] n p(2) [OF n] show ?thesis by (simp add: live_ok_def)
    qed (simp add: p(3))
  qed
  moreover have "place_ok ?r' i \<and> targets_ok ?r' i \<and> flow_ok (h_place (hand ?r' i)) (sends ?r' i) (h_reads (hand ?r' i))"
    if i: "i < Suc ?n" for i
  proof (cases "i = ?n")
    case False
    with i have n: "i < ?n" by simp
    from relay_okD(4-6) [OF ok n] mates [OF n] torn [OF n] n show ?thesis
      by (auto simp: place_ok_def targets_ok_def sends p(2) split: place.splits option.splits)
  next
    case True
    have none: "sends r ?n = []" using relay_okD(3) [OF ok] by (force simp: sends_def filter_empty_conv)
    have "q < ?n \<and> h_sess (hand r q) = k \<and> h_role (hand r q) = ro" if "slot ro (r_heap r1 ! k) = Some q" for q
    proof (cases "k < length (r_heap r)")
      case True
      with that f(6) [OF True] slots_okD(3) [OF slots True] show ?thesis by simp
    qed (use f(7) [OF f(4), of ro] that in simp)
    then show ?thesis
      by (auto simp: True place_ok_def targets_ok_def flow_ok_def sends none p(2,3) split: option.split)
  qed
  ultimately show ?thesis
    using register_slots_ok [OF slots] relay_okD(3) [OF ok] by (fastforce simp: relay_ok_def p(1,5))
qed

lemma relay_step_ok:
  assumes "relay_ok r"
  shows "relay_ok (relay_step r a)"
  using assms
  by (cases a) (simp_all add: relay_step_def register_ok close_old_ok read_ok peer_loop_ok write_steps_ok select_ok
    exit_ok close_steps_ok timer_ok)

interpretation relay: guarded_system NewServer relay_step relay_ok
proof
  show "relay_ok NewServer"
    by (simp add: relay_ok_def slots_ok_def live_ok_def NewServer_def)
qed (rule relay_step_ok)


section \<open>What passes through\<close>

text \<open>What connection \<open>q\<close> got from connection \<open>i\<close>, and what \<open>i\<close> has read.\<close>

definition received :: "relay \<Rightarrow> nat \<Rightarrow> nat \<Rightarrow> byte list list" where
  "received r i q = map d_bytes (filter (\<lambda>d. d_to d = q) (sends r i))"

definition reads_of :: "relay \<Rightarrow> nat \<Rightarrow> byte list list" where
  "reads_of r i = (if i < conns r then h_reads (hand r i) else [])"

lemma sorted_block:
  fixes f :: "'a \<Rightarrow> nat"
  assumes "sorted (map f xs)"
  shows "xs = filter (\<lambda>x. f x < q) xs @ filter (\<lambda>x. f x = q) xs @ filter (\<lambda>x. q < f x) xs"
  using assms
proof (induction xs)
  case (Cons x xs)
  then have IH: "xs = filter (\<lambda>x. f x < q) xs @ filter (\<lambda>x. f x = q) xs @ filter (\<lambda>x. q < f x) xs" by simp
  have le: "f x \<le> f y" if "y \<in> set xs" for y using Cons.prems that by simp
  have "filter (\<lambda>x. f x < q) xs = []" if "q \<le> f x"
    using that le by (fastforce simp: filter_empty_conv)
  moreover have "filter (\<lambda>x. f x = q) xs = []" if "q < f x"
    using that le by (fastforce simp: filter_empty_conv)
  ultimately show ?case
    using IH by (cases "f x" q rule: linorder_cases) auto
qed simp

lemma sublist_concat_map: "sublist xs ys \<Longrightarrow> sublist (concat (map f xs)) (concat (map f ys))"
  unfolding sublist_def by (metis concat_append map_append)

lemma received_block:
  assumes ok: "relay_ok r" and i: "i < conns r"
  shows "sublist (concat (received r i q)) (concat (map d_bytes (sends r i)))"
proof -
  from relay_okD(5) [OF ok i] have "sorted (map d_to (sends r i))" by (simp add: targets_ok_def)
  from sorted_block [OF this, of q] have "sublist (filter (\<lambda>d. d_to d = q) (sends r i)) (sends r i)"
    unfolding sublist_def by blast
  then show ?thesis by (simp add: received_def sublist_concat_map)
qed

lemma flow_prefix:
  assumes "flow_ok pl ds rs"
  shows "prefix (concat (map d_bytes ds)) (concat rs)" "prefix (whole_of ds) rs" "length rs \<le> Suc (length (whole_of ds))"
  using flow_exit [OF assms] by (simp_all add: flow_ok_def)

lemma not_sent_beyond: "relay_ok r \<Longrightarrow> \<not> i < conns r \<Longrightarrow> sends r i = []"
  using relay_okD(3) [of r] by (force simp: sends_def filter_empty_conv)

lemma mates_key:
  assumes ok: "relay_ok r" and i: "i < conns r" and m: "mates r i q"
  shows "h_sid (hand r q) = h_sid (hand r i)"
  using slots_okD(4) [OF relay_okD(1) [OF ok] _ i, of q] m by (simp add: mates_def)

section \<open>Who is closed\<close>

lemma torn_not_current:
  assumes ok: "relay_ok r" and i: "i < conns r" and m: "mates r i q" and t: "torn_down r i"
  shows "\<not> is_current r q"
  using mates_key [OF ok i m] m t by (simp add: is_current_def torn_down_def mates_def)

lemma replaced_not_current:
  assumes ok: "relay_ok r" and i: "i < conns r"
    and q: "q < i" "h_sess (hand r q) = h_sess (hand r i)" "h_role (hand r q) = h_role (hand r i)"
  shows "\<not> is_current r q"
  using slots_okD(2) [OF relay_okD(1) [OF ok] i] q by (auto simp: is_current_def isCurrentLocked_def sess_of_def)

lemma upd_open:
  assumes "\<And>h. h_open (f h) = h_open h"
  shows "h_open (hand (upd_hand i f r) q) = h_open (hand r q)"
  using assms by (cases "q = i"; cases "i < conns r") (auto simp: upd_hand_def list_update_beyond)

lemma open_kept [simp]:
  "h_open (hand (goto i pl r) q) = h_open (hand r q)" "h_open (hand (set_timer i t r) q) = h_open (hand r q)"
  "h_open (hand (return_from i r) q) = h_open (hand r q)"
  "h_open (hand (serve_read i p e r) q) = h_open (hand r q)"
  "h_open (hand (writePeer_loop i r) q) = h_open (hand r q)"
  "h_open (hand (write_ok i r) q) = h_open (hand r q)" "h_open (hand (write_err i m r) q) = h_open (hand r q)"
  "h_open (hand (select_change i r) q) = h_open (hand r q)"
  "h_open (hand (select_deadline i r) q) = h_open (hand r q)"
  "h_open (hand (serve_exit i r) q) = h_open (hand r q)"
  "h_open (hand (lone_fire i r) q) = h_open (hand r q)" "h_open (hand (lone_check i r) q) = h_open (hand r q)"
  by (simp_all add: goto_def set_timer_def return_from_def serve_read_def writePeer_loop_def write_ok_def write_err_def
    select_change_def select_deadline_def serve_exit_def lone_fire_def lone_check_def upd_open
    split: place.split option.split)

lemma close_open: "h_open (hand (close_conn i r) q) \<longleftrightarrow> h_open (hand r q) \<and> (q = i \<longrightarrow> \<not> i < conns r)"
  by (cases "q = i"; cases "i < conns r") (simp_all add: close_conn_def upd_hand_def list_update_beyond)

text \<open>A current connection is closed by its own timer only.\<close>

lemma current_stays_open:
  assumes ok: "relay_ok r" and q: "q < conns r" "is_current r q" "h_open (hand r q)" and a: "a \<noteq> LoneClose q"
  shows "h_open (hand (relay_step r a) q)"
proof (cases "actor a")
  case None
  then obtain sid ro where a: "a = Serve sid ro" by (cases a) auto
  obtain r1 k where "find_sess sid r = (r1, k)" by (cases "find_sess sid r")
  from register_parts(2) [OF relay_okD(1) [OF ok] this refl q(1)] q(3) show ?thesis by (simp add: relay_step_def a)
next
  case (Some i)
  show ?thesis
  proof (cases "i < conns r")
    case True
    note place = relay_okD(4) [OF ok True]
    have "h_open (hand (serve_close_old i r) q)"
    proof (cases "h_place (hand r i)")
      case (Registering old)
      have "p \<noteq> q" if "old = Some p" for p
        using place that replaced_not_current [OF ok True, of p] q(2) by (auto simp: place_ok_def Registering)
      with q(3) show ?thesis
        by (auto simp: serve_close_old_def Registering upd_open close_open split: option.split)
    qed (simp_all add: serve_close_old_def q(3))
    moreover have "h_open (hand (serve_close i r) q)"
    proof (cases "h_place (hand r i)")
      case (AtClose po)
      with q(2) True relay_okD(2) [OF ok] have "i \<noteq> q" by (auto simp: live_ok_def)
      with q(3) AtClose show ?thesis by (cases po) (simp_all add: serve_close_def close_open)
    qed (simp_all add: serve_close_def q(3))
    moreover have "h_open (hand (serve_close_peer i r) q)"
    proof (cases "h_place (hand r i)")
      case (AtClosePeer p)
      with place torn_not_current [OF ok True, of p] q(2) have "p \<noteq> q" by (auto simp: place_ok_def)
      with q(3) AtClosePeer show ?thesis by (simp add: serve_close_peer_def close_open)
    qed (simp_all add: serve_close_peer_def q(3))
    moreover have "h_open (hand (lone_close i r) q)" if "i \<noteq> q"
      using that q(3) by (simp add: lone_close_def close_open)
    ultimately show ?thesis
      using Some True a q(3) by (cases a) (auto simp: relay_step_def)
  qed (use q Some in \<open>simp add: relay_step_def\<close>)
qed

section \<open>Who is replaced\<close>

lemma step_keeps_replaced:
  assumes ok: "relay_ok r" and i: "i < conns r" and c: "\<not> is_current r i"
  shows "\<not> is_current (relay_step r a) i" "i < conns (relay_step r a)"
proof -
  note slots = relay_okD(1) [OF ok]
  show "\<not> is_current (relay_step r a) i"
  proof (cases "actor a")
    case None
    then obtain sid ro where a: "a = Serve sid ro" by (cases a) auto
    from register_current [OF slots i] c show ?thesis by (auto simp: relay_step_def a)
  next
    case (Some j)
    show ?thesis
    proof (cases "j < conns r")
      case True
      from step_moves [OF Some True slots_okD(1) [OF slots True]] have "same_pairing r (relay_step r a)"
        by (simp add: moves_def)
      with current_same [OF this slots i] c show ?thesis by blast
    qed (use c Some in \<open>simp add: relay_step_def\<close>)
  qed
  show "i < conns (relay_step r a)"
  proof (cases "actor a")
    case None
    then obtain sid ro where a: "a = Serve sid ro" by (cases a) auto
    obtain r1 k where find: "find_sess sid r = (r1, k)" by (cases "find_sess sid r")
    from register_parts(1) [OF slots find refl] i show ?thesis by (simp add: relay_step_def a)
  next
    case (Some j)
    show ?thesis
    proof (cases "j < conns r")
      case True
      from step_moves [OF Some True slots_okD(1) [OF slots True]] i show ?thesis
        by (simp add: moves_def same_pairing_def)
    qed (use i Some in \<open>simp add: relay_step_def\<close>)
  qed
qed

text \<open>The write that is under way, if there is one.\<close>

definition in_flight :: "relay \<Rightarrow> nat \<Rightarrow> nat" where
  "in_flight r i = (case h_place (hand r i) of AtWrite p e q \<Rightarrow> 1 | _ \<Rightarrow> 0)"

lemma replaced_step:
  assumes ok: "relay_ok r" and i: "i < conns r" and c: "\<not> is_current r i"
  shows "length (sends (relay_step r a) i) + in_flight (relay_step r a) i \<le> length (sends r i) + in_flight r i"
proof (cases "actor a")
  case None
  then obtain sid ro where a: "a = Serve sid ro" by (cases a) auto
  obtain r1 k where find: "find_sess sid r = (r1, k)" by (cases "find_sess sid r")
  from register_parts(2,5) [OF relay_okD(1) [OF ok] find refl] i show ?thesis
    by (simp add: relay_step_def a in_flight_def sends_def)
next
  case (Some j)
  show ?thesis
  proof (cases "j < conns r")
    case True
    show ?thesis
    proof (cases "j = i")
      case False
      with step_moves [OF Some True slots_okD(1) [OF relay_okD(1) [OF ok] True]] i show ?thesis
        by (simp add: moves_def in_flight_def)
    next
      case True
      with Some i c show ?thesis
        by (cases a) (auto simp: relay_step_def relay_step_defs in_flight_def close_conn_def
          split: place.split option.split)
    qed
  qed (use Some in \<open>simp add: relay_step_def\<close>)
qed

lemma replaced_run:
  assumes "relay_ok r" "i < conns r" "\<not> is_current r i"
  shows "length (sends (run relay_step r as) i) \<le> length (sends r i) + in_flight r i"
proof -
  have "length (sends (run relay_step r as) i) + in_flight (run relay_step r as) i \<le> length (sends r i) + in_flight r i"
    using assms
  proof (induction as arbitrary: r)
    case (Cons a as)
    from order_trans [OF Cons.IH [OF relay_step_ok [OF Cons.prems(1)] step_keeps_replaced(2,1) [OF Cons.prems]]
      replaced_step [OF Cons.prems, of a]] show ?case by simp
  qed simp
  then show ?thesis by simp
qed


section \<open>Winding down\<close>

text \<open>A step that is not a new connection and brings no byte.\<close>

fun brings_work :: "relay_action \<Rightarrow> bool" where
  "brings_work (Serve sid ro) = True"
| "brings_work (ReadReturns i p rerr) = (p \<noteq> [])"
| "brings_work a = False"

definition quiet_step :: "relay \<Rightarrow> relay \<Rightarrow> bool" where
  "quiet_step r r' \<longleftrightarrow> (\<exists>a. \<not> brings_work a \<and> r' = relay_step r a \<and> r' \<noteq> r)"

fun place_rank :: "place \<Rightarrow> nat" where
  "place_rank Returned = 0"
| "place_rank (AtClosePeer q) = 1"
| "place_rank (AtClose q) = 2"
| "place_rank AtExit = 3"
| "place_rank AtRead = 4"
| "place_rank (AtWrite p e q) = 5"
| "place_rank (AtLoop p e) = 6"
| "place_rank (AtSelect p e ch) = 6"
| "place_rank (Registering q) = 8"

fun timer_rank :: "lone_timer \<Rightarrow> nat" where
  "timer_rank NoTimer = 0"
| "timer_rank Expired = 1"
| "timer_rank Fired = 2"
| "timer_rank Armed = 3"

definition hand_rank :: "handler \<Rightarrow> nat" where
  "hand_rank h = place_rank (h_place h) + timer_rank (h_timer h)"

text \<open>Around the loop of \<^verbatim>\<open>writePeer\<close>: a waiter that can go on, at the head, a waiter that cannot.\<close>

definition loop_rank :: "sess list \<Rightarrow> handler \<Rightarrow> nat" where
  "loop_rank hp h = (case h_place h of
     AtSelect p e ch \<Rightarrow> if s_change (hp ! h_sess h) \<noteq> ch then 2 else 0
   | AtLoop p e \<Rightarrow> 1
   | _ \<Rightarrow> 0)"

definition relay_measure :: "(relay \<times> relay) set" where
  "relay_measure = measures [\<lambda>r. sum_list (map hand_rank (r_handlers r)),
     \<lambda>r. sum_list (map (loop_rank (r_heap r)) (r_handlers r))]"

lemma sum_list_one:
  fixes f :: "'a \<Rightarrow> nat"
  assumes i: "i < length xs" and len: "length ys = length xs"
    and others: "\<And>j. j < length xs \<Longrightarrow> j \<noteq> i \<Longrightarrow> f (ys ! j) = f (xs ! j)"
  shows "sum_list (map f ys) + f (xs ! i) = sum_list (map f xs) + f (ys ! i)"
proof -
  have "map f ys = (map f xs)[i := f (ys ! i)]"
  proof (rule nth_equalityI)
    fix j assume "j < length (map f ys)"
    with others show "map f ys ! j = (map f xs)[i := f (ys ! i)] ! j" by (cases "j = i") (simp_all add: len i)
  qed (simp add: len)
  moreover have "f (xs ! i) \<le> sum_list (map f xs)"
    using i by (simp add: member_le_sum_list)
  ultimately show ?thesis using i by (simp add: sum_list_update)
qed

lemma measure_place:
  assumes i: "i < conns r" and n: "conns r' = conns r"
    and others: "\<And>j. j < conns r \<Longrightarrow> j \<noteq> i \<Longrightarrow> h_place (hand r' j) = h_place (hand r j) \<and> h_timer (hand r' j) = h_timer (hand r j)"
    and less: "hand_rank (hand r' i) < hand_rank (hand r i)"
  shows "(r', r) \<in> relay_measure"
  using sum_list_one [OF i n, of hand_rank] others less by (simp add: relay_measure_def hand_rank_def)

lemma measure_loop:
  assumes i: "i < conns r" and n: "conns r' = conns r" and hp: "r_heap r' = r_heap r"
    and others: "\<And>j. j < conns r \<Longrightarrow> j \<noteq> i \<Longrightarrow> hand r' j = hand r j"
    and eq: "hand_rank (hand r' i) = hand_rank (hand r i)"
    and less: "loop_rank (r_heap r) (hand r' i) < loop_rank (r_heap r) (hand r i)"
  shows "(r', r) \<in> relay_measure"
  using sum_list_one [OF i n, of hand_rank] sum_list_one [OF i n, of "loop_rank (r_heap r)"] others eq less
  by (simp add: relay_measure_def hp)

lemma quiet_step_measure:
  assumes i: "i < conns r" and a: "actor a = Some i" "\<not> brings_work a" and moved: "relay_step r a \<noteq> r"
  shows "(relay_step r a, r) \<in> relay_measure"
proof (cases "\<exists>p e. h_place (hand r i) = AtLoop p e \<and> a = PeerLoop i \<and> is_current r i \<and> peer_of r i = None \<or>
    (\<exists>ch. h_place (hand r i) = AtSelect p e ch \<and> a = SelectChange i)")
  case True
  then show ?thesis
    using i moved
    by (intro measure_loop [OF i])
      (auto simp: relay_step_def writePeer_loop_def select_change_def goto_def hand_rank_def loop_rank_def sess_of_def
        split: if_splits)
next
  case False
  have other: "conns (relay_step r a) = conns r"
    "j \<noteq> i \<Longrightarrow> h_place (hand (relay_step r a) j) = h_place (hand r j) \<and>
      h_timer (hand (relay_step r a) j) = h_timer (hand r j)" for j
    using i a by (cases a; auto simp: relay_step_def serve_close_old_def serve_read_def writePeer_loop_def write_ok_def
        write_err_def select_change_def select_deadline_def serve_exit_def serve_close_def serve_close_peer_def
        lone_fire_def lone_check_def lone_close_def return_from_def goto_def set_timer_def split: place.split option.split)+
  have "hand_rank (hand (relay_step r a) i) < hand_rank (hand r i)"
    using i a moved False
    by (cases a; cases "h_place (hand r i)")
      (auto simp: relay_step_def serve_close_old_def serve_read_def writePeer_loop_def write_ok_def
        write_err_def select_change_def select_deadline_def serve_exit_def serve_close_def serve_close_peer_def
        lone_fire_def lone_check_def lone_close_def return_from_def goto_def set_timer_def hand_rank_def
        split: option.splits if_splits)
  with other show ?thesis by (intro measure_place [OF i]) simp_all
qed

lemma quiet_steps_end: "wf {(r', r). quiet_step r r'}"
proof (rule wf_subset)
  show "wf relay_measure" unfolding relay_measure_def by simp
  show "{(r', r). quiet_step r r'} \<subseteq> relay_measure"
  proof (clarsimp simp: quiet_step_def)
    fix r a assume a: "\<not> brings_work a" "relay_step r a \<noteq> r"
    then obtain i where i: "actor a = Some i" by (cases a) auto
    with a(2) have "i < conns r" by (auto simp: relay_step_def split: if_splits)
    with i a show "(relay_step r a, r) \<in> relay_measure" by (intro quiet_step_measure)
  qed
qed


text \<open>What is left to do as long as somebody has not returned.\<close>

fun settling_action :: "nat \<Rightarrow> handler \<Rightarrow> relay_action" where
  "settling_action i h = (case h_place h of
     Registering old \<Rightarrow> CloseOld i
   | AtRead \<Rightarrow> ReadReturns i [] True
   | AtLoop p e \<Rightarrow> PeerLoop i
   | AtSelect p e ch \<Rightarrow> SelectDeadline i
   | AtWrite p e q \<Rightarrow> WriteErr i 0
   | AtExit \<Rightarrow> Exit i
   | AtClose q \<Rightarrow> CloseSelf i
   | AtClosePeer q \<Rightarrow> ClosePeer i
   | Returned \<Rightarrow> (case h_timer h of Armed \<Rightarrow> LoneFire i | Fired \<Rightarrow> LoneCheck i | _ \<Rightarrow> LoneClose i))"

definition finished :: "handler \<Rightarrow> bool" where
  "finished h \<longleftrightarrow> h_place h = Returned \<and> h_timer h = NoTimer"

lemma settling_action_moves:
  assumes i: "i < conns r" and h: "\<not> finished (hand r i)"
  shows "\<not> brings_work (settling_action i (hand r i))" "relay_step r (settling_action i (hand r i)) \<noteq> r"
proof -
  let ?a = "settling_action i (hand r i)"
  show "\<not> brings_work ?a" by (simp split: place.split lone_timer.split)
  have "h_place (hand (relay_step r ?a) i) \<noteq> h_place (hand r i) \<or> h_timer (hand (relay_step r ?a) i) \<noteq> h_timer (hand r i)"
  proof (cases "h_place (hand r i)")
    case Returned
    with i h show ?thesis
      by (cases "h_timer (hand r i)")
        (simp_all add: finished_def relay_step_def lone_fire_def lone_check_def lone_close_def set_timer_def)
  qed (use i in \<open>auto simp: relay_step_def serve_close_old_def serve_read_def writePeer_loop_def
      write_err_def select_deadline_def serve_exit_def serve_close_def serve_close_peer_def
      return_from_def goto_def split: option.split\<close>)
  then show "relay_step r ?a \<noteq> r" by auto
qed

lemma entry_current:
  assumes ok: "relay_ok r" and k: "r_sessions r sid = Some k"
  shows "\<exists>i < conns r. h_sid (hand r i) = sid \<and> is_current r i"
proof -
  note slots = relay_okD(1) [OF ok]
  from slots_okD(5) [OF slots k] obtain j where j: "j < conns r" "h_sess (hand r j) = k" "h_sid (hand r j) = sid" by blast
  from slots_okD(2) [OF slots j(1)] obtain q where q: "slot (h_role (hand r j)) (sess_of r j) = Some q" by blast
  from slots_okD(3) [OF slots slots_okD(1) [OF slots j(1)] q [unfolded sess_of_def]]
  have m: "q < conns r" "h_sess (hand r q) = h_sess (hand r j)" "h_role (hand r q) = h_role (hand r j)" by blast+
  from slots_okD(4) [OF slots m(1) j(1) m(2)] have "h_sid (hand r q) = sid" using j(3) by simp
  moreover from this have "is_current r q"
    using q k j(2) m by (simp add: is_current_def isCurrentLocked_def sess_of_def)
  ultimately show ?thesis using m(1) by blast
qed

lemma stuck_means_finished:
  assumes ok: "relay_ok r" and stuck: "\<nexists>r'. quiet_step r r'"
  shows "list_all finished (r_handlers r)" "r_sessions r = Map.empty"
proof -
  have fin: "finished (hand r i)" if "i < conns r" for i
    using settling_action_moves [OF that] stuck unfolding quiet_step_def by blast
  then show "list_all finished (r_handlers r)" by (simp add: list_all_length)
  show "r_sessions r = Map.empty"
  proof (rule ext, rule ccontr)
    fix sid assume "r_sessions r sid \<noteq> None"
    then obtain k where "r_sessions r sid = Some k" by blast
    from entry_current [OF ok this] obtain i where i: "i < conns r" "is_current r i" by blast
    with relay_okD(2) [OF ok] fin [OF i(1)] show False by (auto simp: live_ok_def finished_def)
  qed
qed

section \<open>Properties\<close>

text \<open>C4. No gaps. What a connection gets from another is a run of bytes that the other has read
  without a break, whoever connects, is replaced, times out or fails in between; every chunk
  read is passed on whole and in order, the last one at most excepted; and bytes only go to
  the other role of the same session key.\<close>

theorem relay_no_gaps:
  "let r = run relay_step NewServer as in
     sublist (concat (received r i q)) (concat (reads_of r i)) \<and>
     prefix (whole_of (sends r i)) (reads_of r i) \<and>
     length (reads_of r i) \<le> Suc (length (whole_of (sends r i))) \<and>
     list_all (\<lambda>d. d_to d < conns r \<and> h_sid (hand r (d_to d)) = h_sid (hand r i) \<and>
       h_role (hand r (d_to d)) = other_role (h_role (hand r i))) (sends r i)"
proof -
  let ?r = "run relay_step NewServer as"
  have ok: "relay_ok ?r" by (rule relay.inv_run)
  show ?thesis
  proof (cases "i < conns ?r")
    case True
    note f = flow_prefix [OF relay_okD(6) [OF ok True]]
    have "sublist (concat (received ?r i q)) (concat (h_reads (hand ?r i)))"
      by (rule sublist_order.order.trans [OF received_block [OF ok True] prefix_imp_sublist [OF f(1)]])
    moreover have "\<forall>d \<in> set (sends ?r i). mates ?r i (d_to d)"
      using relay_okD(5) [OF ok True] by (simp add: targets_ok_def)
    ultimately show ?thesis
      using f(2,3) mates_key [OF ok True] True by (simp add: reads_of_def list_all_iff mates_def Let_def)
  next
    case False
    with not_sent_beyond [OF ok] show ?thesis
      by (simp add: received_def reads_of_def whole_of_def)
  qed
qed

text \<open>C22. A connection that has been replaced, or whose session has ended, is through: of what it
  still reads nothing is passed on, and only a write that was already under way arrives.\<close>

theorem replaced_sends_nothing_more:
  assumes "i < conns (run relay_step NewServer as)" "\<not> is_current (run relay_step NewServer as) i"
  shows "let r = run relay_step NewServer as in
    length (sends (run relay_step r bs) i) \<le> length (sends r i) + in_flight r i"
  using replaced_run [OF relay.inv_run assms] by (simp add: Let_def)

text \<open>Nobody closes a connection that is current, but its own timer: the exit of one
  connection, and the failure of a replaced one, never close a pair that is in the map.\<close>

lemma current_closed_by_own_timer_only:
  assumes "q < conns (run relay_step NewServer as)" "is_current (run relay_step NewServer as) q"
    and "h_open (hand (run relay_step NewServer as) q)"
    and "\<not> h_open (hand (relay_step (run relay_step NewServer as) a) q)"
  shows "a = LoneClose q"
  using current_stays_open [OF relay.inv_run assms(1-3)] assms(4) by blast

text \<open>C20. The relay cannot hang or leak. Without new connections and new bytes, its goroutines make
  finitely many steps whatever their order, also around the loop of \<^verbatim>\<open>writePeer\<close>; they only stop
  when every \<^verbatim>\<open>serve\<close> has returned, and then no session is left in the map.\<close>

theorem relay_winds_down:
  "wf {(r', r). quiet_step r r'} \<and>
   (let r = run relay_step NewServer as in (\<exists>r'. quiet_step r r') \<or>
      list_all finished (r_handlers r) \<and> r_sessions r = Map.empty)"
  using quiet_steps_end stuck_means_finished [OF relay.inv_run, of as] by (auto simp: Let_def)

text \<open>Every entry of the map is held by a connection that is current in it and whose \<^verbatim>\<open>serve\<close> still
  has its last section before it, where it takes the entry out.\<close>

lemma sessions_have_handlers:
  assumes "r_sessions (run relay_step NewServer as) sid = Some k"
  shows "let r = run relay_step NewServer as in
    \<exists>i < conns r. h_sid (hand r i) = sid \<and> is_current r i \<and> serving (h_place (hand r i))"
  using entry_current [OF relay.inv_run assms] relay_okD(2) [OF relay.inv_run, of as]
  by (auto simp: live_ok_def Let_def)


section \<open>Runs\<close>

lemmas run_defs = relay_step_def serve_register_def find_sess_def relay_step_defs NewServer_def upd_hand_def
  is_current_def isCurrentLocked_def sess_of_def peer_of_def slot_def set_slot_def broadcast_def

text \<open>A source, a viewer; the source reads a chunk and is about to write it to the viewer.\<close>

definition pair_up :: "relay_action list" where
  "pair_up = [Serve ''s'' Source, CloseOld 0, Serve ''s'' Viewer, CloseOld 1, ReadReturns 0 [0x41] False, PeerLoop 0]"

text \<open>
  A viewer is replaced (connection 2 for 1) while the source's write to the old viewer is under way.
  Closing the old viewer makes that write fail, the source leaves its loop, it is still the
  current one, and so it takes the session down and closes the new viewer.
\<close>

lemma replaced_viewer_takes_the_pair_down:
  "let r = run relay_step NewServer (pair_up @ [Serve ''s'' Viewer, CloseOld 2]);
       r' = run relay_step r [WriteErr 0 0, Exit 0, CloseSelf 0, ClosePeer 0]
   in is_current r 0 \<and> is_current r 2 \<and> h_open (hand r 0) \<and> h_open (hand r 2) \<and> \<not> h_open (hand r 1) \<and>
      \<not> h_open (hand r' 0) \<and> \<not> h_open (hand r' 2) \<and> r_sessions r' ''s'' = None"
  by (simp add: pair_up_def run_defs Let_def)

text \<open>A replaced source's last chunk can arrive after the first one of its successor.\<close>

lemma late_chunk_of_the_old_source:
  "let r = run relay_step NewServer (pair_up @ [Serve ''s'' Source, CloseOld 2, ReadReturns 2 [0x42] False, PeerLoop 2,
         WriteOk 2, WriteOk 0])
   in map (\<lambda>d. (d_from d, d_to d, d_bytes d)) (r_log r) = [(2, 1, [0x42]), (0, 1, [0x41])] \<and> \<not> is_current r 0"
  by (simp add: pair_up_def run_defs Let_def)

text \<open>The timer finds no peer; one arrives before it closes.\<close>

definition late_peer :: "relay_action list" where
  "late_peer = [Serve ''s'' Source, CloseOld 0, LoneFire 0, LoneCheck 0, Serve ''s'' Viewer]"

lemma lone_timer_closes_a_pair:
  "let r = run relay_step NewServer late_peer; r' = relay_step r (LoneClose 0)
   in is_current r 0 \<and> peer_of r 0 = Some 1 \<and> is_current r' 0 \<and> \<not> h_open (hand r' 0)"
  by (simp add: late_peer_def run_defs Let_def)

section \<open>Witnesses\<close>

theorem replaced_sends_nothing_more_witness:
  "let r = run relay_step NewServer (pair_up @ [Serve ''s'' Source])
   in in_flight r 0 = 1 \<and> length (sends (run relay_step r [WriteOk 0, ReadReturns 0 [0x42] False, PeerLoop 0]) 0) \<le> 1"
proof -
  let ?as = "pair_up @ [Serve ''s'' Source]"
  let ?r = "run relay_step NewServer ?as"
  have r: "0 < conns ?r" "\<not> is_current ?r 0" "in_flight ?r 0 = 1" "sends ?r 0 = []"
    by (simp_all add: pair_up_def run_defs in_flight_def sends_def Let_def)
  from replaced_sends_nothing_more [OF r(1,2), of "[WriteOk 0, ReadReturns 0 [0x42] False, PeerLoop 0]"] r(3,4)
  show ?thesis by (simp add: Let_def)
qed

lemma current_closed_by_own_timer_only_witness:
  "let r = run relay_step NewServer late_peer
   in is_current r 0 \<and> {a. \<not> h_open (hand (relay_step r a) 0)} = {LoneClose 0}"
proof -
  let ?r = "run relay_step NewServer late_peer"
  have r: "0 < conns ?r" "is_current ?r 0" "h_open (hand ?r 0)" "\<not> h_open (hand (relay_step ?r (LoneClose 0)) 0)"
    by (simp_all add: late_peer_def run_defs Let_def)
  with current_closed_by_own_timer_only [OF r(1-3)] show ?thesis unfolding Let_def by blast
qed

lemma sessions_have_handlers_witness:
  "let r = run relay_step NewServer pair_up in \<exists>i < conns r. h_sid (hand r i) = ''s'' \<and> serving (h_place (hand r i))"
proof -
  have "r_sessions (run relay_step NewServer pair_up) ''s'' = Some 0" by (simp add: pair_up_def run_defs Let_def)
  from sessions_have_handlers [OF this] show ?thesis unfolding Let_def by blast
qed

end
