(* ===== verification/RelayPage.thy ===== *)
theory RelayPage
  imports Relay Wire Startup
begin

text \<open>
  The page behind the relay (\<^verbatim>\<open>relay/relay.go\<close> with \<^verbatim>\<open>web/static/term.js\<close>). Each \<^verbatim>\<open>Write\<close> on a connection
  is one WebSocket message, so the chunks a viewer gets are the page's message events, cut where the
  relay's reads happened to cut; what the page sends comes back out of the relay's reads in
  pieces of any length.
\<close>

section \<open>A pair as a pipe\<close>

text \<open>The messages that reach connection \<open>q\<close> from anywhere.\<close>

definition messages :: "relay \<Rightarrow> nat \<Rightarrow> byte list list" where
  "messages r q = map d_bytes (filter (\<lambda>d. d_to d = q \<and> d_whole d) (r_log r))"

text \<open>A source and a viewer that have a session key for themselves.\<close>

definition only_pair :: "relay \<Rightarrow> nat \<Rightarrow> nat \<Rightarrow> bool" where
  "only_pair r i q \<longleftrightarrow> i < conns r \<and> q < conns r \<and> h_role (hand r i) = Source \<and> h_role (hand r q) = Viewer \<and>
     h_sid (hand r q) = h_sid (hand r i) \<and>
     list_all (\<lambda>j. h_sid (hand r j) = h_sid (hand r i) \<longrightarrow> j = i \<or> j = q) [0..<conns r]"

lemma mates_of_pair:
  assumes ok: "relay_ok r" and pair: "only_pair r i q" and j: "j < conns r" and m: "mates r j t"
  shows "j = i \<longleftrightarrow> t = q" "j = q \<longleftrightarrow> t = i"
proof -
  have t: "t < conns r" "h_sid (hand r t) = h_sid (hand r j)" "h_role (hand r t) = other_role (h_role (hand r j))"
    using m mates_key [OF ok j m] by (simp_all add: mates_def)
  have only: "h_sid (hand r x) = h_sid (hand r i) \<Longrightarrow> x = i \<or> x = q" if "x < conns r" for x
    using pair that by (auto simp: only_pair_def list_all_iff)
  have roles: "h_role (hand r i) = Source" "h_role (hand r q) = Viewer" "h_sid (hand r q) = h_sid (hand r i)"
    using pair by (simp_all add: only_pair_def)
  show "j = i \<longleftrightarrow> t = q" "j = q \<longleftrightarrow> t = i"
    using only [OF t(1)] only [OF j] t(2,3) roles by auto
qed

lemma pair_log:
  assumes ok: "relay_ok r" and pair: "only_pair r i q" and d: "d \<in> set (r_log r)"
  shows "d_to d = q \<longleftrightarrow> d_from d = i" "d_to d = i \<longleftrightarrow> d_from d = q"
proof -
  have sender: "d_from d < conns r" by (rule relay_okD(3) [OF ok d])
  have "d \<in> set (sends r (d_from d))" using d by (simp add: sends_def)
  with relay_okD(5) [OF ok sender] have "mates r (d_from d) (d_to d)" by (simp add: targets_ok_def)
  from mates_of_pair [OF ok pair sender this] show "d_to d = q \<longleftrightarrow> d_from d = i" "d_to d = i \<longleftrightarrow> d_from d = q" by auto
qed

lemma messages_of_pair:
  assumes ok: "relay_ok r" and pair: "only_pair r i q"
  shows "messages r q = map d_bytes (filter d_whole (sends r i))"
    "messages r i = map d_bytes (filter d_whole (sends r q))"
  using pair_log [OF ok pair]
  by (auto simp: messages_def sends_def conj_commute intro!: arg_cong [where f = "map d_bytes"] filter_cong)

text \<open>When a reader is back at \<^verbatim>\<open>nc.Read\<close>, all it has read has arrived, chunk by chunk.\<close>

lemma idle_reader:
  assumes ok: "relay_ok r" and i: "i < conns r" and idle: "h_place (hand r i) = AtRead"
  shows "map d_bytes (filter d_whole (sends r i)) = reads_of r i"
proof -
  from relay_okD(6) [OF ok i] have "list_all d_whole (sends r i)" "map d_bytes (sends r i) = h_reads (hand r i)"
    by (simp_all add: flow_ok_def idle)
  moreover from this(1) have "filter d_whole (sends r i) = sends r i" by (simp add: list_all_iff)
  ultimately show ?thesis using i by (simp add: reads_of_def)
qed

lemma pair_is_a_pipe:
  assumes ok: "relay_ok r" and pair: "only_pair r i q"
  shows "h_place (hand r i) = AtRead \<Longrightarrow> messages r q = reads_of r i"
    "h_place (hand r q) = AtRead \<Longrightarrow> messages r i = reads_of r q"
  using messages_of_pair [OF ok pair] idle_reader [OF ok] pair by (simp_all add: only_pair_def)

section \<open>Properties\<close>

text \<open>From the producer to the terminal, through the relay: when the relay has passed on what a source
  sent, and that is a stream of wire v2, the page shows exactly what \<^verbatim>\<open>connection_shows_stream\<close>
  says, whatever the relay's reads, the other sessions and the goroutines' order.\<close>

lemma relayed_stream_shows:
  fixes g :: page_env and now :: rat and d :: data_path
  assumes "s = run relay_step NewServer as" "only_pair s i q" "h_place (hand s i) = AtRead"
    and "concat (reads_of s i) = v2_stream v hs l" "greets v c r" "plain hs" "plain l"
  shows "let e = snd (snd d); e' = snd (snd (run (on_data g now) (new_path d) (messages s q))) in
    flatten op_symbols (e_log e') = flatten op_symbols (e_log e) @
      map Inr ((if e_v2 e then [] else [TScrollback 5000]) @ resize_op e c r @ reset_op e v) @
      map Inl (sync_spec ((if m_histDone (fst d) then [] else hs) @ l)) \<and>
    e_v2 e' \<and> e_cols e' = c \<and> e_rows e' = r \<and> e_histGot e' = (e_histGot e \<or> brings_history v)"
proof -
  have "concat (messages s q) = v2_stream v hs l"
    using pair_is_a_pipe(1) [OF relay.inv_run, of as i q] assms(1-4) by simp
  from connection_ops [OF assms(5-7) this, of g now d] show ?thesis by (simp add: Let_def)
qed

text \<open>From the user to the producer, through the relay: when the page has accepted these inputs and the
  relay has read and passed on what one of its sockets sent, the source can take its messages
  apart, as one stream, into the greeting, the page's size and a consecutive part of the inputs.\<close>

lemma relayed_input_decodes:
  assumes "s = run relay_step NewServer as" "only_pair s i q" "h_place (hand s q) = AtRead"
    and "c = page_run g (clampNum qrows 500) (clampNum qcols 160) d now vs" "n < length (c_socks c)"
    and "k_opened (c_socks c ! n)" "concat (reads_of s q) = concat (k_sent (c_socks c ! n))"
    and "list_all input_ok us" "c_accepted c = map input_bytes us"
  shows "\<exists>got ks. sublist ks us \<and> decode_stream (concat (messages s i)) =
    Some (greeting_items (clampNum qrows 500) (clampNum qcols 160) got @ concat (map input_items ks))"
proof -
  from sockets_decode [OF assms(8), of g qrows qcols d now vs] assms(4,9) obtain uss w where us: "us = concat uss @ w"
    and all: "list_all2 (\<lambda>k ks. \<exists>got. decode_stream (concat (k_sent k)) =
        Some ((if k_opened k then greeting_items (clampNum qrows 500) (clampNum qcols 160) got else []) @
          concat (map input_items ks))) (c_socks c) uss"
    unfolding Let_def by blast
  from all assms(5) have n: "n < length uss" by (simp add: list_all2_lengthD)
  from list_all2_nthD [OF all assms(5)] assms(6) obtain got where
    "decode_stream (concat (k_sent (c_socks c ! n))) =
      Some (greeting_items (clampNum qrows 500) (clampNum qcols 160) got @ concat (map input_items (uss ! n)))" by auto
  moreover have "sublist (uss ! n) us"
    using id_take_nth_drop [OF n] unfolding us sublist_def by (metis append.assoc concat.simps(2) concat_append)
  moreover have "messages s i = reads_of s q"
    using pair_is_a_pipe(2) [OF relay.inv_run, of as i q] assms(1-3) by simp
  ultimately show ?thesis using assms(7) by metis
qed

section \<open>Witnesses\<close>

text \<open>The relay reads the producer's stream in two pieces and the page's frames in two.\<close>

definition joined :: "byte list \<Rightarrow> byte list \<Rightarrow> byte list \<Rightarrow> byte list \<Rightarrow> relay_action list" where
  "joined a b x y = [Serve ''s'' Source, CloseOld 0, Serve ''s'' Viewer, CloseOld 1,
     ReadReturns 1 x False, PeerLoop 1, WriteOk 1, ReadReturns 0 a False, PeerLoop 0, ReadReturns 1 y False, PeerLoop 1,
     WriteOk 0, WriteOk 1, ReadReturns 0 b False, PeerLoop 0, WriteOk 0]"

lemma joined_state:
  assumes "a \<noteq> []" "b \<noteq> []" "x \<noteq> []" "y \<noteq> []"
    "length a \<le> 32768" "length b \<le> 32768" "length x \<le> 32768" "length y \<le> 32768"
    and s: "s = run relay_step NewServer (joined a b x y)"
  shows "only_pair s 0 1" "h_place (hand s 0) = AtRead" "h_place (hand s 1) = AtRead"
    "reads_of s 0 = [a, b]" "reads_of s 1 = [x, y]"
  using assms(1-8) by (simp_all add: s joined_def run_defs only_pair_def reads_of_def upt_rec Let_def)


lemma relayed_stream_shows_witness:
  "let st = v2_stream demo_greeting [0x41, 0x42] [0x43];
       s = run relay_step NewServer (joined (take 1 st) (drop 1 st) HELLO_V2 [0x6c]);
       e = snd (snd (run (on_data demo_env 0) (new_path (page_init 160 500 600)) (messages s 1)))
   in e_cols e = 80 \<and> e_histGot e \<and>
      flatten op_symbols (e_log e) = [Inr (TScrollback 5000), Inr (TResize 80 24),
        Inl (Byte 0x41), Inl (Byte 0x42), Inl (Byte 0x43)]"
proof -
  let ?st = "v2_stream demo_greeting [0x41, 0x42] [0x43]"
  let ?s = "run relay_step NewServer (joined (take 1 ?st) (drop 1 ?st) HELLO_V2 [0x6c])"
  have len: "2 \<le> length ?st" "length ?st \<le> 100" by (simp_all add: v2_stream_def osc_def OSC_def ST_def)
  have "take 1 ?st \<noteq> []" "drop 1 ?st \<noteq> []" "HELLO_V2 \<noteq> []" "[0x6c] \<noteq> ([] :: byte list)"
    "length (take 1 ?st) \<le> 32768" "length (drop 1 ?st) \<le> 32768" "length HELLO_V2 \<le> 32768"
    "length [0x6c :: byte] \<le> 32768"
    using len by (auto simp: HELLO_V2_def simp del: One_nat_def)
  note s = joined_state [OF this refl]
  have "concat (reads_of ?s 0) = ?st" unfolding s(4) by simp
  note T = relayed_stream_shows [OF refl s(1,2) this demo_greets(1) plain_A plain_B, where g = demo_env and now = 0 and d = "page_init 160 500 600"]
  have "sync_spec [0x41, 0x42, 0x43] = [Byte 0x41, Byte 0x42, Byte 0x43]" by code_simp
  moreover have "resize_op (term_init 160 500 600) 80 24 = [TResize 80 24]" "reset_op (term_init 160 500 600) demo_greeting = []"
    by (simp_all add: resize_op_def reset_op_def term_init_def)
  ultimately show ?thesis
    using T demo_greets(2) by (simp add: Let_def page_init_def term_init_def meta_init_def del: run.simps)
qed

lemma demo_typed:
  "let c = page_run demo_env 500 160 (page_init 160 500 0) 0 [SockOpen 0, Input [0x6c, 0x73]]
   in c_accepted c = [[0x6c, 0x73]] \<and> length (c_socks c) = 1 \<and> k_opened (c_socks c ! 0) \<and>
     k_sent (c_socks c ! 0) = [HELLO_V2, resizeFrame 500 160, [0x6c, 0x73]]"
  by (simp add: conn_init_def connect_def new_socket_def has_ready_def set_ready_def upd_sock_def onopen_def
      sock_send_def flushQ.simps set_stat_def histGot_def path_parts page_init_def term_init_def sendBytes_def
      wsState_def send_input_def Let_def)

lemma relayed_input_decodes_witness:
  "\<exists>got ks. sublist ks [Typed ''ls''] \<and>
     decode_stream (concat (messages (run relay_step NewServer
       (joined [0x41] [0x42] HELLO_V2 (resizeFrame 500 160 @ [0x6c, 0x73]))) 0)) =
     Some (greeting_items 500 160 got @ concat (map input_items ks))"
proof -
  let ?s = "run relay_step NewServer (joined [0x41] [0x42] HELLO_V2 (resizeFrame 500 160 @ [0x6c, 0x73]))"
  let ?c = "page_run demo_env (clampNum None 500) (clampNum None 160) (page_init 160 500 0) 0 [SockOpen 0, Input [0x6c, 0x73]]"
  have grid: "clampNum None 500 = 500" "clampNum None 160 = 160" by code_simp+
  have "[0x41] \<noteq> ([] :: byte list)" "[0x42] \<noteq> ([] :: byte list)" "HELLO_V2 \<noteq> []" "resizeFrame 500 160 @ [0x6c, 0x73] \<noteq> []"
    "length [0x41 :: byte] \<le> 32768" "length [0x42 :: byte] \<le> 32768" "length HELLO_V2 \<le> 32768"
    "length (resizeFrame 500 160 @ [0x6c, 0x73]) \<le> 32768"
    by (simp_all add: HELLO_V2_def resizeFrame_def)
  note s = joined_state [OF this refl]
  have c: "0 < length (c_socks ?c)" "k_opened (c_socks ?c ! 0)" "c_accepted ?c = map input_bytes [Typed ''ls'']"
    "concat (reads_of ?s 1) = concat (k_sent (c_socks ?c ! 0))"
    using demo_typed s(5) by (simp_all add: grid Let_def byte_of_char_def del: run.simps)
  have "list_all input_ok [Typed ''ls'']" by simp
  from relayed_input_decodes [OF refl s(1,3) refl c(1,2,4) this c(3)] show ?thesis by (simp add: grid del: run.simps)
qed

end
