(* ===== verification/Access.thy ===== *)
theory Access
  imports Relay JsRuntime
begin

text \<open>
  Who may connect to the relay, and under which key (\<^verbatim>\<open>relay/relay.go\<close> \<^verbatim>\<open>ServeHTTP\<close>, \<^verbatim>\<open>web/slave.go\<close>,
  \<^verbatim>\<open>web/slavetoken.go\<close>, \<^verbatim>\<open>web/web.go\<close> \<^verbatim>\<open>wsViewer\<close>, \<^verbatim>\<open>state/slave.go\<close>, \<^verbatim>\<open>state/state.go\<close>): the owner's
  machines by grants, shared machines (\<open>slave\<close>) by bearer tokens, browsers by their cookie. The
  documents of the database are maps; a read can fail, and what the code makes of a failure is
  in each reader. Time is in nanoseconds, as \<^verbatim>\<open>RFC3339Nano\<close> keeps it.
\<close>

section \<open>Names and keys\<close>

text \<open>\<^verbatim>\<open>^[A-Za-z0-9._-]{1,128}$\<close>\<close>

definition pc_char :: "char \<Rightarrow> bool" where
  "pc_char c \<longleftrightarrow> c \<in> set ''ABCDEFGHIJKLMNOPQRSTUVWXYZabcdefghijklmnopqrstuvwxyz0123456789._-''"

definition ValidPCName :: "string \<Rightarrow> bool" where
  "ValidPCName pc \<longleftrightarrow> 1 \<le> length pc \<and> length pc \<le> 128 \<and> list_all pc_char pc"

definition slaveSessionKey :: "string \<Rightarrow> string \<Rightarrow> string" where
  "slaveSessionKey pc sid = pc @ CHR 0x00 # sid"

definition slaveGrantDocID :: "string \<Rightarrow> string \<Rightarrow> string" where
  "slaveGrantDocID pc sid = pc @ CHR '':'' # sid"

definition relayGrantID :: "string \<Rightarrow> string \<Rightarrow> string" where
  "relayGrantID sid ro = sid @ '':'' @ ro"

text \<open>\<^verbatim>\<open>strings.Cut\<close>, and the session behind a derived id \<^verbatim>\<open>sid#inj\<close> or \<^verbatim>\<open>sid#inj@pc\<close>.\<close>

definition str_cut :: "string \<Rightarrow> string \<Rightarrow> (string \<times> string) option" where
  "str_cut sep s = map_option (\<lambda>i. (take i s, drop (i + length sep) s)) (str_indexOf s sep)"

definition injBaseSID :: "string \<Rightarrow> string" where
  "injBaseSID sid = (case str_cut ''#inj'' sid of
     Some (base, rest) \<Rightarrow> if base \<noteq> [] \<and> (rest = [] \<or> prefix ''@'' rest) then base else sid
   | None \<Rightarrow> sid)"

section \<open>Bearer tokens\<close>

text \<open>
  The signing key and the library around it: whether there is a key and it can be read, the
  encoded header and claims, the signature of a message; and back: base64, the check of a
  signature, the claims \<^verbatim>\<open>exp\<close> and \<^verbatim>\<open>uid\<close>.
\<close>

record signing =
  g_enabled :: bool
  g_key_ok :: bool
  g_head :: string
  g_claims :: "string \<Rightarrow> nat \<Rightarrow> string"
  g_sign :: "string \<Rightarrow> string"
  g_b64 :: "string \<Rightarrow> string option"
  g_verify :: "string \<Rightarrow> string \<Rightarrow> bool"
  g_json :: "string \<Rightarrow> (int \<times> string) option"

definition unix :: "nat \<Rightarrow> nat" where
  "unix t = t div 1000000000"

definition seconds :: "nat \<Rightarrow> nat" where
  "seconds n = n * 1000000000"

definition mintSlaveToken :: "signing \<Rightarrow> string \<Rightarrow> nat \<Rightarrow> string option" where
  "mintSlaveToken g pc now =
     (if \<not> g_key_ok g then None
      else let signing = g_head g @ ''.'' @ g_claims g (''slave:'' @ pc) (unix (now + seconds 3600))
           in Some (signing @ ''.'' @ g_sign g signing))"

definition verifySlaveToken :: "signing \<Rightarrow> string \<Rightarrow> nat \<Rightarrow> string option" where
  "verifySlaveToken g tok now =
     (if \<not> g_key_ok g then None
      else (case str_split CHR ''.'' tok of
          [h, c, s] \<Rightarrow> (case g_b64 g s of
              None \<Rightarrow> None
            | Some sig \<Rightarrow>
                if \<not> g_verify g (h @ ''.'' @ c) sig then None
                else (case g_b64 g c of
                    None \<Rightarrow> None
                  | Some cb \<Rightarrow> (case g_json g cb of
                        None \<Rightarrow> None
                      | Some (exp, uid) \<Rightarrow>
                          if exp = 0 \<or> int (unix now) \<ge> exp then None
                          else if \<not> prefix ''slave:'' uid then None
                          else if drop 6 uid = [] then None
                          else Some (drop 6 uid))))
        | _ \<Rightarrow> None))"

section \<open>The documents\<close>

text \<open>
  \<open>w_up\<close> says of which collections a read (or a write) succeeds now. \<open>w_pcs\<close> has the field
  \<^verbatim>\<open>role\<close> of \<^verbatim>\<open>pcs/{pc}\<close>, \<open>w_slaves\<close> the fields \<^verbatim>\<open>secret_hash\<close> and \<^verbatim>\<open>revoked\<close>, the grants their \<^verbatim>\<open>exp\<close>.
\<close>

record world =
  w_now :: nat
  w_up :: "string \<Rightarrow> bool"
  w_pcs :: "string \<rightharpoonup> string"
  w_slaves :: "string \<rightharpoonup> string \<times> bool"
  w_revoked :: "string \<Rightarrow> bool"
  w_sessions :: "string \<Rightarrow> string \<Rightarrow> bool"
  w_slavegrants :: "string \<rightharpoonup> nat"
  w_relaygrants :: "string \<rightharpoonup> string \<times> nat"

definition IsRevoked :: "world \<Rightarrow> string \<Rightarrow> bool" where
  "IsRevoked w pc \<longleftrightarrow> pc \<noteq> [] \<and> w_up w ''revoked'' \<and> w_revoked w pc"

definition SlaveRevoked :: "world \<Rightarrow> string \<Rightarrow> bool" where
  "SlaveRevoked w pc \<longleftrightarrow> pc \<noteq> [] \<and> w_up w ''slaves'' \<and> (case w_slaves w pc of None \<Rightarrow> False | Some (h, rv) \<Rightarrow> rv)"

definition SessionOwnedBy :: "world \<Rightarrow> string \<Rightarrow> string \<Rightarrow> bool" where
  "SessionOwnedBy w pc sid \<longleftrightarrow> pc \<noteq> [] \<and> sid \<noteq> [] \<and> w_up w ''sessions'' \<and> w_sessions w pc sid"

text \<open>A failed read is no role at all.\<close>

definition PCRole :: "world \<Rightarrow> string \<Rightarrow> string" where
  "PCRole w pc = (if w_up w ''pcs'' then (case w_pcs w pc of None \<Rightarrow> '''' | Some ro \<Rightarrow> ro) else '''')"

definition SlaveGrantValid :: "world \<Rightarrow> string \<Rightarrow> string \<Rightarrow> bool" where
  "SlaveGrantValid w pc sid \<longleftrightarrow> pc \<noteq> [] \<and> sid \<noteq> [] \<and> w_up w ''slavegrants'' \<and>
     (case w_slavegrants w (slaveGrantDocID pc sid) of None \<Rightarrow> False | Some exp \<Rightarrow> w_now w < exp)"

text \<open>\<open>None\<close>: the write failed. \<^verbatim>\<open>PutSlaveGrant\<close> without a name or an id writes nothing.\<close>

definition PutSlaveGrant :: "string \<Rightarrow> string \<Rightarrow> nat \<Rightarrow> world \<Rightarrow> world option" where
  "PutSlaveGrant pc sid ttl w =
     (if pc = [] \<or> sid = [] then Some w
      else if w_up w ''slavegrants''
      then Some (w\<lparr>w_slavegrants := (w_slavegrants w)(slaveGrantDocID pc sid \<mapsto> w_now w + ttl)\<rparr>)
      else None)"

definition CheckRelayGrant :: "world \<Rightarrow> string \<Rightarrow> string \<Rightarrow> bool" where
  "CheckRelayGrant w sid ro \<longleftrightarrow> sid \<noteq> [] \<and> ro \<in> {''source'', ''viewer''} \<and> w_up w ''relaygrants'' \<and>
     (case w_relaygrants w (relayGrantID sid ro) of
        None \<Rightarrow> False
      | Some (pc, exp) \<Rightarrow> w_now w < exp \<and> \<not> (pc \<noteq> [] \<and> IsRevoked w pc))"

definition PutRelayGrant :: "string \<Rightarrow> string \<Rightarrow> string \<Rightarrow> nat \<Rightarrow> world \<Rightarrow> world" where
  "PutRelayGrant pc sid ro ttl w =
     (if sid = [] \<or> ro \<notin> {''source'', ''viewer''} \<or> \<not> w_up w ''relaygrants'' then w
      else w\<lparr>w_relaygrants := (w_relaygrants w)(relayGrantID sid ro \<mapsto> (pc, w_now w + ttl))\<rparr>)"

text \<open>A name that is taken by another kind of machine is not bound.\<close>

definition BindSlave :: "string \<Rightarrow> string \<Rightarrow> world \<Rightarrow> bool \<times> world" where
  "BindSlave pc hash w =
     (if \<not> ValidPCName pc then (False, w)
      else if w_up w ''pcs'' \<and> (case w_pcs w pc of None \<Rightarrow> False | Some ro \<Rightarrow> ro \<noteq> ''slave'') then (False, w)
      else (True, w\<lparr>w_slaves := (w_slaves w)(pc \<mapsto> (hash, False))\<rparr>))"

section \<open>The shared machines' API\<close>

text \<open>The refresh secret for a token: a status code, or the token.\<close>

definition slaveToken :: "signing \<Rightarrow> (string \<Rightarrow> string) \<Rightarrow> world \<Rightarrow> string \<Rightarrow> string \<Rightarrow> nat + string" where
  "slaveToken g sha256Hex w pc secret =
     (if \<not> g_enabled g then Inl 404
      else if pc = [] \<or> secret = [] then Inl 400
      else (case (if w_up w ''slaves'' then w_slaves w pc else None) of
          None \<Rightarrow> Inl 401
        | Some (hash, rv) \<Rightarrow>
            if hash = [] \<or> hash \<noteq> sha256Hex secret then Inl 401
            else if IsRevoked w pc \<or> SlaveRevoked w pc then Inl 403
            else (case mintSlaveToken g pc (w_now w) of None \<Rightarrow> Inl 500 | Some tok \<Rightarrow> Inr tok)))"

definition slaveGuard :: "signing \<Rightarrow> world \<Rightarrow> string \<Rightarrow> nat + string" where
  "slaveGuard g w tok =
     (if \<not> g_enabled g then Inl 404
      else (case verifySlaveToken g tok (w_now w) of
          None \<Rightarrow> Inl 401
        | Some pc \<Rightarrow> if pc = [] then Inl 401 else if IsRevoked w pc \<or> SlaveRevoked w pc then Inl 403 else Inr pc))"

text \<open>\<^verbatim>\<open>POST /slave/grant\<close> with a session id and a time in seconds: the status, and the documents after.\<close>

definition clamp_ttl :: "int \<Rightarrow> nat" where
  "clamp_ttl ttl = (let ttl = (if ttl < 1 then 1 else ttl) in nat (if ttl > 300 then 300 else ttl))"

definition slaveGrant :: "string \<Rightarrow> string \<Rightarrow> int \<Rightarrow> world \<Rightarrow> nat \<times> world" where
  "slaveGrant pc sid ttl w =
     (if sid = [] then (400, w)
      else if \<not> SessionOwnedBy w pc (injBaseSID sid) then (403, w)
      else (case PutSlaveGrant pc sid (seconds (clamp_ttl ttl)) w of None \<Rightarrow> (500, w) | Some w' \<Rightarrow> (200, w')))"

definition slaveRegister :: "string \<Rightarrow> world \<Rightarrow> nat \<times> world" where
  "slaveRegister pc w =
     (if w_up w ''pcs'' then (200, w\<lparr>w_pcs := (w_pcs w)(pc \<mapsto> ''slave'')\<rparr>) else (500, w))"

section \<open>Admission\<close>

text \<open>What a request to \<^verbatim>\<open>/session\<close> carries; \<open>q_bearer\<close> is what \<^verbatim>\<open>bearer(r)\<close> finds in its header.\<close>

record session_request =
  q_sid :: string
  q_role :: string
  q_bearer :: string
  q_spc :: string

text \<open>Not handled, refused, or the key to accept under.\<close>

datatype gate = NotHandled | Refused | Allowed string

definition NewSlaveGate :: "signing \<Rightarrow> world \<Rightarrow> session_request \<Rightarrow> gate" where
  "NewSlaveGate g w q =
     (if \<not> g_enabled g then NotHandled
      else if q_bearer q = [] then NotHandled
      else (case verifySlaveToken g (q_bearer q) (w_now w) of
          None \<Rightarrow> Refused
        | Some pc \<Rightarrow>
            if pc = [] then Refused
            else if q_role q \<noteq> ''source'' then Refused
            else if IsRevoked w pc \<or> SlaveRevoked w pc then Refused
            else if \<not> SlaveGrantValid w pc (q_sid q) then Refused
            else Allowed (slaveSessionKey pc (q_sid q))))"

definition NewViewerKey :: "world \<Rightarrow> session_request \<Rightarrow> string" where
  "NewViewerKey w q =
     (if q_role q \<noteq> ''viewer'' then q_sid q
      else if q_spc q = [] then q_sid q
      else if PCRole w (q_spc q) = ''slave'' then slaveSessionKey (q_spc q) (q_sid q)
      else q_sid q)"

definition role_of :: "string \<Rightarrow> role" where
  "role_of ro = (if ro = ''source'' then Source else Viewer)"

text \<open>A status code, or the key and the role that \<^verbatim>\<open>Accept\<close> gets.\<close>

definition ServeHTTP :: "signing \<Rightarrow> world \<Rightarrow> session_request \<Rightarrow> nat + string \<times> role" where
  "ServeHTTP g w q =
     (if q_sid q = [] \<or> q_role q \<noteq> ''source'' \<and> q_role q \<noteq> ''viewer'' then Inl 400
      else (case NewSlaveGate g w q of
          Refused \<Rightarrow> Inl 403
        | Allowed key \<Rightarrow> Inr (key, role_of (q_role q))
        | NotHandled \<Rightarrow>
            if \<not> CheckRelayGrant w (q_sid q) (q_role q) then Inl 403
            else Inr (NewViewerKey w q, role_of (q_role q))))"

text \<open>A browser: the scope its cookie proves, the parameters \<^verbatim>\<open>pc\<close> and \<^verbatim>\<open>sid\<close>. The relay upstream is in \<open>Dial\<close>.\<close>

definition accountScope :: string where
  "accountScope = ''*''"

definition allows :: "string \<Rightarrow> string \<Rightarrow> bool" where
  "allows scope pc \<longleftrightarrow> scope = accountScope \<or> scope = pc"

definition viewer_pc :: "string \<Rightarrow> string \<Rightarrow> string" where
  "viewer_pc scope pc = (if pc = [] \<and> scope \<noteq> accountScope then scope else pc)"

definition wsViewer :: "world \<Rightarrow> string option \<Rightarrow> string \<Rightarrow> string \<Rightarrow> nat + string" where
  "wsViewer w cookie pc sid = (case cookie of
     None \<Rightarrow> Inl 401
   | Some scope \<Rightarrow>
       let pc = viewer_pc scope pc in
       if sid = [] \<or> pc = [] \<or> \<not> allows scope pc then Inl 400
       else Inr (if PCRole w pc = ''slave'' then slaveSessionKey pc sid else sid))"

section \<open>The server as a whole\<close>

text \<open>
  What a connection asked for: a session of the owner's machines, or a session of a shared
  machine. This is history, beside the keys the relay gets.
\<close>

datatype target = Own string | Shared string string

fun key_of :: "target \<Rightarrow> string" where
  "key_of (Own sid) = sid"
| "key_of (Shared pc sid) = slaveSessionKey pc sid"

record admission =
  ad_bearer :: bool
  ad_role :: role
  ad_target :: target
  ad_at :: nat

text \<open>A grant that was written: for whom, when, and whether the session was the machine's own then.\<close>

record granted =
  gr_pc :: string
  gr_sid :: string
  gr_at :: nat
  gr_owned :: bool

definition request_target :: "signing \<Rightarrow> world \<Rightarrow> session_request \<Rightarrow> target" where
  "request_target g w q =
     (if g_enabled g \<and> q_bearer q \<noteq> []
      then Shared (case verifySlaveToken g (q_bearer q) (w_now w) of None \<Rightarrow> [] | Some pc \<Rightarrow> pc) (q_sid q)
      else if q_role q = ''viewer'' \<and> q_spc q \<noteq> [] \<and> PCRole w (q_spc q) = ''slave'' then Shared (q_spc q) (q_sid q)
      else Own (q_sid q))"

definition browser_target :: "world \<Rightarrow> string \<Rightarrow> string \<Rightarrow> target" where
  "browser_target w pc sid = (if PCRole w pc = ''slave'' then Shared pc sid else Own sid)"

record cloud =
  cl_world :: world
  cl_relay :: relay
  cl_admitted :: "admission list"
  cl_grants :: "granted list"

definition cloud_init :: "world \<Rightarrow> cloud" where
  "cloud_init w = \<lparr>cl_world = w, cl_relay = NewServer, cl_admitted = [], cl_grants = []\<rparr>"

definition accept :: "admission \<Rightarrow> string \<Rightarrow> cloud \<Rightarrow> cloud" where
  "accept ad key c = c\<lparr>cl_relay := relay_step (cl_relay c) (Serve key (ad_role ad)),
     cl_admitted := cl_admitted c @ [ad]\<rparr>"

text \<open>
  Requests, the goroutines of the relay, and what happens to the documents elsewhere: machines
  of the owner register, leave and write grants, machines are revoked and cleared, sessions
  come and go, reads start or stop to succeed, time passes.
\<close>

datatype cloud_action =
    Connect session_request
  | Browse "string option" string string
  | Goroutine relay_action
  | PostGrant string string int
  | PostRegister string
  | Enroll string string
  | OwnerRegisters string
  | OwnerDeletes string
  | OwnerGrants string string string nat
  | SetRevoked string bool
  | SetSlaveRevoked string bool
  | SetSession string string bool
  | SetUp "string \<Rightarrow> bool"
  | Pass nat

definition on_world :: "(world \<Rightarrow> world) \<Rightarrow> cloud \<Rightarrow> cloud" where
  "on_world f c = c\<lparr>cl_world := f (cl_world c)\<rparr>"

fun cloud_step :: "signing \<Rightarrow> cloud \<Rightarrow> cloud_action \<Rightarrow> cloud" where
  "cloud_step g c (Connect q) = (case ServeHTTP g (cl_world c) q of
     Inl status \<Rightarrow> c
   | Inr (key, ro) \<Rightarrow> accept \<lparr>ad_bearer = (g_enabled g \<and> q_bearer q \<noteq> []), ad_role = ro,
       ad_target = request_target g (cl_world c) q, ad_at = w_now (cl_world c)\<rparr> key c)"
| "cloud_step g c (Browse cookie pc sid) = (case wsViewer (cl_world c) cookie pc sid of
     Inl status \<Rightarrow> c
   | Inr key \<Rightarrow> accept \<lparr>ad_bearer = False, ad_role = Viewer,
       ad_target = browser_target (cl_world c) (viewer_pc (the cookie) pc) sid, ad_at = w_now (cl_world c)\<rparr> key c)"
| "cloud_step g c (Goroutine a) =
     (if actor a = None then c else c\<lparr>cl_relay := relay_step (cl_relay c) a\<rparr>)"
| "cloud_step g c (PostGrant tok sid ttl) = (case slaveGuard g (cl_world c) tok of
     Inl status \<Rightarrow> c
   | Inr pc \<Rightarrow>
       let (status, w) = slaveGrant pc sid ttl (cl_world c) in
       if status = 200
       then c\<lparr>cl_world := w, cl_grants := cl_grants c @ [\<lparr>gr_pc = pc, gr_sid = sid, gr_at = w_now (cl_world c),
         gr_owned = w_sessions (cl_world c) pc (injBaseSID sid)\<rparr>]\<rparr>
       else c\<lparr>cl_world := w\<rparr>)"
| "cloud_step g c (PostRegister tok) = (case slaveGuard g (cl_world c) tok of
     Inl status \<Rightarrow> c
   | Inr pc \<Rightarrow> on_world (\<lambda>w. snd (slaveRegister pc w)) c)"
| "cloud_step g c (Enroll pc hash) = on_world (\<lambda>w. snd (BindSlave pc hash w)) c"
| "cloud_step g c (OwnerRegisters pc) = on_world (\<lambda>w. w\<lparr>w_pcs := (w_pcs w)(pc \<mapsto> '''')\<rparr>) c"
| "cloud_step g c (OwnerDeletes pc) = on_world (\<lambda>w. w\<lparr>w_pcs := (w_pcs w)(pc := None)\<rparr>) c"
| "cloud_step g c (OwnerGrants pc sid ro ttl) = on_world (PutRelayGrant pc sid ro ttl) c"
| "cloud_step g c (SetRevoked pc b) = on_world (\<lambda>w. w\<lparr>w_revoked := (w_revoked w)(pc := b)\<rparr>) c"
| "cloud_step g c (SetSlaveRevoked pc b) = on_world (\<lambda>w. w\<lparr>w_slaves := (w_slaves w)(pc \<mapsto>
     ((case w_slaves w pc of None \<Rightarrow> '''' | Some (h, rv) \<Rightarrow> h), b))\<rparr>) c"
| "cloud_step g c (SetSession pc sid b) =
     on_world (\<lambda>w. w\<lparr>w_sessions := (w_sessions w)(pc := (w_sessions w pc)(sid := b))\<rparr>) c"
| "cloud_step g c (SetUp f) = on_world (\<lambda>w. w\<lparr>w_up := f\<rparr>) c"
| "cloud_step g c (Pass n) = on_world (\<lambda>w. w\<lparr>w_now := w_now w + n\<rparr>) c"

text \<open>A database in which no machine is known yet.\<close>

definition fresh_world :: "world \<Rightarrow> bool" where
  "fresh_world w \<longleftrightarrow> w_pcs w = Map.empty \<and> w_slavegrants w = Map.empty"

text \<open>The name in a signed token is one that \<^verbatim>\<open>BindSlave\<close> has accepted: the key signs no other.\<close>

definition signs_valid_names :: "signing \<Rightarrow> bool" where
  "signs_valid_names g \<longleftrightarrow> (\<forall>tok now pc. verifySlaveToken g tok now = Some pc \<longrightarrow> ValidPCName pc)"



section \<open>Keys and names are unambiguous\<close>

lemma valid_name_chars: "ValidPCName pc \<Longrightarrow> CHR 0x00 \<notin> set pc \<and> CHR '':'' \<notin> set pc"
proof -
  have "\<not> pc_char (CHR 0x00)" "\<not> pc_char CHR '':''" by code_simp+
  then show "ValidPCName pc \<Longrightarrow> CHR 0x00 \<notin> set pc \<and> CHR '':'' \<notin> set pc"
    by (auto simp: ValidPCName_def list_all_iff)
qed

lemma split_unique:
  "x \<notin> set a \<Longrightarrow> x \<notin> set b \<Longrightarrow> a @ x # c = b @ x # d \<longleftrightarrow> a = b \<and> c = d"
proof (induction a arbitrary: b)
  case Nil
  then show ?case by (cases b) auto
next
  case (Cons y a)
  then show ?case by (cases b) auto
qed


lemma slaveGrantDocID_inj:
  "ValidPCName pc \<Longrightarrow> ValidPCName pc' \<Longrightarrow> slaveGrantDocID pc sid = slaveGrantDocID pc' sid' \<longleftrightarrow> pc = pc' \<and> sid = sid'"
  by (simp add: slaveGrantDocID_def split_unique valid_name_chars)


fun valid_target :: "target \<Rightarrow> bool" where
  "valid_target (Own sid) = True"
| "valid_target (Shared pc sid) = ValidPCName pc"



section \<open>What holds of every run\<close>

text \<open>An unexpired grant for a machine and a session, and the admissions that rest on grants.\<close>

definition granted_at :: "granted list \<Rightarrow> string \<Rightarrow> string \<Rightarrow> nat \<Rightarrow> bool" where
  "granted_at grs pc sid t \<longleftrightarrow> list_ex (\<lambda>gr. gr_pc gr = pc \<and> gr_sid gr = sid \<and> gr_owned gr \<and>
     gr_at gr \<le> t \<and> t < gr_at gr + seconds 300) grs"

definition admission_ok :: "granted list \<Rightarrow> admission \<Rightarrow> bool" where
  "admission_ok grs ad \<longleftrightarrow> (case ad_target ad of
     Own sid \<Rightarrow> \<not> ad_bearer ad
   | Shared pc sid \<Rightarrow>
       if ad_role ad = Source then ad_bearer ad \<and> granted_at grs pc sid (ad_at ad) else \<not> ad_bearer ad)"

definition names_ok :: "world \<Rightarrow> bool" where
  "names_ok w \<longleftrightarrow> (\<forall>pc. w_pcs w pc = Some ''slave'' \<longrightarrow> ValidPCName pc)"

definition grants_ok :: "world \<Rightarrow> granted list \<Rightarrow> bool" where
  "grants_ok w grs \<longleftrightarrow> (\<forall>gr \<in> set grs. gr_at gr \<le> w_now w \<and> gr_owned gr \<and> ValidPCName (gr_pc gr)) \<and>
     (\<forall>d e. w_slavegrants w d = Some e \<longrightarrow>
        (\<exists>gr \<in> set grs. d = slaveGrantDocID (gr_pc gr) (gr_sid gr) \<and> e \<le> gr_at gr + seconds 300))"

definition admitted_ok :: "relay \<Rightarrow> admission list \<Rightarrow> bool" where
  "admitted_ok r ads \<longleftrightarrow> relay_ok r \<and> length ads = conns r \<and>
     (\<forall>i < conns r. h_sid (hand r i) = key_of (ad_target (ads ! i)) \<and> h_role (hand r i) = ad_role (ads ! i) \<and>
        valid_target (ad_target (ads ! i)))"

definition cloud_ok :: "cloud \<Rightarrow> bool" where
  "cloud_ok c \<longleftrightarrow> names_ok (cl_world c) \<and> grants_ok (cl_world c) (cl_grants c) \<and>
     admitted_ok (cl_relay c) (cl_admitted c) \<and> list_all (admission_ok (cl_grants c)) (cl_admitted c)"

lemma cloud_okD:
  assumes "cloud_ok c"
  shows "names_ok (cl_world c)" "grants_ok (cl_world c) (cl_grants c)" "admitted_ok (cl_relay c) (cl_admitted c)"
    "list_all (admission_ok (cl_grants c)) (cl_admitted c)"
  using assms by (simp_all add: cloud_ok_def)

lemma PCRole_slave: "names_ok w \<Longrightarrow> PCRole w pc = ''slave'' \<Longrightarrow> ValidPCName pc"
  by (auto simp: PCRole_def names_ok_def split: if_splits option.splits)

lemma role_of_simps [simp]: "role_of ''source'' = Source" "role_of ''viewer'' = Viewer"
  by (simp_all add: role_of_def)

text \<open>A valid grant is one that was written for this machine and this session.\<close>

lemma SlaveGrantValid_granted:
  assumes grs: "grants_ok w grs" and pc: "ValidPCName pc" and valid: "SlaveGrantValid w pc sid"
  shows "granted_at grs pc sid (w_now w)"
proof -
  from valid obtain e where e: "w_slavegrants w (slaveGrantDocID pc sid) = Some e" "w_now w < e"
    by (auto simp: SlaveGrantValid_def split: option.splits)
  with grs obtain gr where gr: "gr \<in> set grs" "slaveGrantDocID pc sid = slaveGrantDocID (gr_pc gr) (gr_sid gr)"
    "e \<le> gr_at gr + seconds 300" "gr_at gr \<le> w_now w" "gr_owned gr" "ValidPCName (gr_pc gr)"
    unfolding grants_ok_def by blast
  with slaveGrantDocID_inj [OF pc gr(6)] e(2) show ?thesis
    by (auto simp: granted_at_def list_ex_iff)
qed

text \<open>What \<^verbatim>\<open>ServeHTTP\<close> lets in.\<close>

lemma ServeHTTP_admits:
  assumes g: "signs_valid_names g" and names: "names_ok w" and grs: "grants_ok w grs"
    and ok: "ServeHTTP g w q = Inr (key, ro)"
  defines "ad \<equiv> \<lparr>ad_bearer = (g_enabled g \<and> q_bearer q \<noteq> []), ad_role = ro,
    ad_target = request_target g w q, ad_at = w_now w\<rparr>"
  shows "key = key_of (ad_target ad)" "valid_target (ad_target ad)" "admission_ok grs ad"
proof -
  from ok have ro: "q_role q = ''source'' \<and> ro = Source \<or> q_role q = ''viewer'' \<and> ro = Viewer"
    by (auto simp: ServeHTTP_def split: if_splits gate.splits)
  have "key = key_of (ad_target ad) \<and> valid_target (ad_target ad) \<and> admission_ok grs ad"
  proof (cases "g_enabled g \<and> q_bearer q \<noteq> []")
    case True
    with ok obtain pc where pc: "verifySlaveToken g (q_bearer q) (w_now w) = Some pc" "q_role q = ''source''"
      "SlaveGrantValid w pc (q_sid q)" "key = slaveSessionKey pc (q_sid q)"
      by (auto simp: ServeHTTP_def NewSlaveGate_def split: if_splits option.splits)
    with g have "ValidPCName pc" by (auto simp: signs_valid_names_def)
    with pc True ro SlaveGrantValid_granted [OF grs this pc(3)] show ?thesis
      by (auto simp: ad_def request_target_def admission_ok_def)
  next
    case False
    then have "NewSlaveGate g w q = NotHandled" by (auto simp: NewSlaveGate_def)
    with ok have "key = NewViewerKey w q" by (auto simp: ServeHTTP_def split: if_splits)
    with False ro PCRole_slave [OF names, of "q_spc q"] show ?thesis
      by (auto simp: ad_def request_target_def NewViewerKey_def admission_ok_def)
  qed
  then show "key = key_of (ad_target ad)" "valid_target (ad_target ad)" "admission_ok grs ad" by blast+
qed

lemma wsViewer_admits:
  assumes names: "names_ok w" and ok: "wsViewer w cookie pc sid = Inr key"
  defines "ad \<equiv> \<lparr>ad_bearer = False, ad_role = Viewer,
    ad_target = browser_target w (viewer_pc (the cookie) pc) sid, ad_at = w_now w\<rparr>"
  shows "key = key_of (ad_target ad)" "valid_target (ad_target ad)" "admission_ok grs ad"
  using ok PCRole_slave [OF names]
  by (auto simp: wsViewer_def browser_target_def ad_def admission_ok_def Let_def split: option.splits if_splits)


text \<open>The relay's part.\<close>

lemma serve_admitted:
  assumes adm: "admitted_ok r ads" and key: "key = key_of (ad_target ad)" and valid: "valid_target (ad_target ad)"
  shows "admitted_ok (relay_step r (Serve key (ad_role ad))) (ads @ [ad])"
proof -
  have ok: "relay_ok r" using adm by (simp add: admitted_ok_def)
  obtain r1 k where find: "find_sess key r = (r1, k)" by (cases "find_sess key r")
  note p = register_parts [OF relay_okD(1) [OF ok] find refl, where ro = "ad_role ad"]
  have step: "relay_step r (Serve key (ad_role ad)) = serve_register key (ad_role ad) r" by (simp add: relay_step_def)
  have "h_sid (hand (serve_register key (ad_role ad) r) i) = key_of (ad_target ((ads @ [ad]) ! i)) \<and>
      h_role (hand (serve_register key (ad_role ad) r) i) = ad_role ((ads @ [ad]) ! i) \<and>
      valid_target (ad_target ((ads @ [ad]) ! i))" if i: "i < Suc (conns r)" for i
  proof (cases "i = conns r")
    case True
    with adm p(3) key valid show ?thesis by (simp add: admitted_ok_def nth_append)
  next
    case False
    with i have "i < conns r" by simp
    with adm p(2) [OF this] show ?thesis by (simp add: admitted_ok_def nth_append)
  qed
  then show ?thesis
    using adm relay_step_ok [OF ok, of "Serve key (ad_role ad)"] by (simp add: admitted_ok_def step p(1))
qed

lemma goroutine_admitted:
  assumes adm: "admitted_ok r ads" and a: "actor a \<noteq> None"
  shows "admitted_ok (relay_step r a) ads"
proof -
  have ok: "relay_ok r" using adm by (simp add: admitted_ok_def)
  from a obtain i where i: "actor a = Some i" by blast
  have "same_pairing r (relay_step r a)"
  proof (cases "i < conns r")
    case True
    from step_moves [OF i True slots_okD(1) [OF relay_okD(1) [OF ok] True]] show ?thesis by (simp add: moves_def)
  next
    case False
    with moves_refl [of 0 r] i show ?thesis by (simp add: relay_step_def moves_def)
  qed
  with adm relay_step_ok [OF ok, of a] show ?thesis by (simp add: admitted_ok_def same_pairing_def)
qed

text \<open>A change of the documents that only adds time, or takes grants away.\<close>

lemma on_world_ok:
  assumes c: "cloud_ok c" and names: "names_ok (f (cl_world c))"
    and "w_slavegrants (f (cl_world c)) = w_slavegrants (cl_world c)" "w_now (cl_world c) \<le> w_now (f (cl_world c))"
  shows "cloud_ok (on_world f c)"
  using assms by (force simp: cloud_ok_def on_world_def grants_ok_def)

lemma accept_ok:
  assumes c: "cloud_ok c" and "key = key_of (ad_target ad)" "valid_target (ad_target ad)" "admission_ok (cl_grants c) ad"
  shows "cloud_ok (accept ad key c)"
  using serve_admitted [OF cloud_okD(3) [OF c] assms(2,3)] cloud_okD [OF c] assms(4)
  by (simp add: cloud_ok_def accept_def)

lemma slaveGuard_valid: "signs_valid_names g \<Longrightarrow> slaveGuard g w tok = Inr pc \<Longrightarrow> ValidPCName pc"
  by (auto simp: slaveGuard_def signs_valid_names_def split: if_splits option.splits)

lemma granted_at_more: "granted_at grs pc sid t \<Longrightarrow> granted_at (grs @ grs') pc sid t"
  by (simp add: granted_at_def)

lemma admission_ok_more: "admission_ok grs ad \<Longrightarrow> admission_ok (grs @ grs') ad"
  by (auto simp: admission_ok_def granted_at_more split: target.splits)

lemma clamp_ttl_range: "1 \<le> clamp_ttl ttl" "clamp_ttl ttl \<le> 300"
  by (auto simp: clamp_ttl_def Let_def)

lemma slaveGrant_status:
  assumes "slaveGrant pc sid ttl w = (status, w')"
  shows "status \<noteq> 200 \<Longrightarrow> w' = w"
    "status = 200 \<Longrightarrow> w_sessions w pc (injBaseSID sid) \<and> sid \<noteq> [] \<and> pc \<noteq> [] \<and>
      w' = w\<lparr>w_slavegrants := (w_slavegrants w)(slaveGrantDocID pc sid \<mapsto> w_now w + seconds (clamp_ttl ttl))\<rparr>"
  using assms by (auto simp: slaveGrant_def SessionOwnedBy_def PutSlaveGrant_def split: if_splits option.splits)

lemma post_grant_ok:
  assumes g: "signs_valid_names g" and c: "cloud_ok c"
  shows "cloud_ok (cloud_step g c (PostGrant tok sid ttl))"
proof (cases "slaveGuard g (cl_world c) tok")
  case (Inr pc)
  let ?w = "cl_world c"
  obtain status w' where sg: "slaveGrant pc sid ttl ?w = (status, w')" by (cases "slaveGrant pc sid ttl ?w")
  note st = slaveGrant_status [OF sg]
  have valid: "ValidPCName pc" by (rule slaveGuard_valid [OF g Inr])
  show ?thesis
  proof (cases "status = 200")
    case True
    let ?gr = "\<lparr>gr_pc = pc, gr_sid = sid, gr_at = w_now ?w, gr_owned = w_sessions ?w pc (injBaseSID sid)\<rparr>"
    from st(2) [OF True] have w': "w' = ?w\<lparr>w_slavegrants := (w_slavegrants ?w)(slaveGrantDocID pc sid \<mapsto>
        w_now ?w + seconds (clamp_ttl ttl))\<rparr>" and owned: "w_sessions ?w pc (injBaseSID sid)" by blast+
    have ttl: "seconds (clamp_ttl ttl) \<le> seconds 300" using clamp_ttl_range(2) by (simp add: seconds_def)
    have "grants_ok w' (cl_grants c @ [?gr])"
      using cloud_okD(2) [OF c] valid owned ttl by (auto simp: grants_ok_def w')
    moreover have "names_ok w'" using cloud_okD(1) [OF c] by (simp add: names_ok_def w')
    moreover have "list_all (admission_ok (cl_grants c @ [?gr])) (cl_admitted c)"
      using cloud_okD(4) [OF c] by (auto simp: list_all_iff admission_ok_more)
    ultimately show ?thesis
      using cloud_okD(3) [OF c] by (simp add: Inr sg True cloud_ok_def)
  next
    case False
    with st(1) have "w' = ?w" by blast
    with False c show ?thesis by (simp add: Inr sg)
  qed
qed (simp add: c)

lemma cloud_step_ok:
  assumes g: "signs_valid_names g" and c: "cloud_ok c"
  shows "cloud_ok (cloud_step g c a)"
proof (cases a)
  case (Connect q)
  show ?thesis
  proof (cases "ServeHTTP g (cl_world c) q")
    case (Inr kr)
    then obtain key ro where ok: "ServeHTTP g (cl_world c) q = Inr (key, ro)" by (cases kr) auto
    from accept_ok [OF c ServeHTTP_admits [OF g cloud_okD(1,2) [OF c] ok]] show ?thesis
      by (simp add: Connect ok)
  qed (simp add: Connect c)
next
  case (Browse cookie pc sid)
  show ?thesis
  proof (cases "wsViewer (cl_world c) cookie pc sid")
    case (Inr key)
    from accept_ok [OF c wsViewer_admits [OF cloud_okD(1) [OF c] Inr]] show ?thesis
      by (simp add: Browse Inr)
  qed (simp add: Browse c)
next
  case (Goroutine b)
  with c goroutine_admitted [OF cloud_okD(3) [OF c], of b] show ?thesis by (simp add: cloud_ok_def)
next
  case (PostGrant tok sid ttl)
  with post_grant_ok [OF g c] show ?thesis by blast
next
  case (PostRegister tok)
  show ?thesis
  proof (cases "slaveGuard g (cl_world c) tok")
    case (Inr pc)
    have "names_ok (snd (slaveRegister pc (cl_world c)))"
      using slaveGuard_valid [OF g Inr] cloud_okD(1) [OF c] by (simp add: names_ok_def slaveRegister_def)
    with c show ?thesis
      by (auto simp: PostRegister Inr slaveRegister_def intro!: on_world_ok)
  qed (simp add: PostRegister c)
next
  case (OwnerGrants pc sid ro ttl)
  have "w_pcs (PutRelayGrant pc sid ro ttl w) = w_pcs w" "w_now (PutRelayGrant pc sid ro ttl w) = w_now w"
    "w_slavegrants (PutRelayGrant pc sid ro ttl w) = w_slavegrants w" for w
    by (simp_all add: PutRelayGrant_def)
  with cloud_okD(1) [OF c] OwnerGrants show ?thesis by (auto simp: names_ok_def intro!: on_world_ok [OF c])
next
  case (Enroll pc hash)
  have "w_pcs (snd (BindSlave pc hash w)) = w_pcs w" "w_now (snd (BindSlave pc hash w)) = w_now w"
    "w_slavegrants (snd (BindSlave pc hash w)) = w_slavegrants w" for w
    by (simp_all add: BindSlave_def)
  with cloud_okD(1) [OF c] Enroll show ?thesis by (auto simp: names_ok_def intro!: on_world_ok [OF c])
qed (use cloud_okD(1) [OF c] in \<open>auto simp: names_ok_def intro!: on_world_ok [OF c]\<close>)

lemma cloud_run_ok:
  assumes g: "signs_valid_names g" and w: "fresh_world w"
  shows "cloud_ok (run (cloud_step g) (cloud_init w) as)"
proof -
  have start: "cloud_ok (cloud_init w)"
    using w relay.inv_start by (simp add: cloud_ok_def cloud_init_def names_ok_def grants_ok_def admitted_ok_def
      fresh_world_def NewServer_def)
  have "cloud_ok c \<Longrightarrow> cloud_ok (run (cloud_step g) c as)" for c
    by (induction as arbitrary: c) (simp_all add: cloud_step_ok [OF g] del: cloud_step.simps)
  with start show ?thesis by blast
qed

section \<open>Plain session ids\<close>





section \<open>Properties\<close>


text \<open>C11. A token of a shared machine never makes a viewer, and as a source it only gets under its own
  name, with a grant that this machine was given for this very session id less than five minutes
  before, at a moment when the session was its own. Nothing else is a source of such a session.\<close>

theorem shared_sources_hold_a_grant:
  assumes "signs_valid_names g" "fresh_world w"
  shows "let c = run (cloud_step g) (cloud_init w) as in
    list_all (\<lambda>ad. case ad_target ad of
        Own sid \<Rightarrow> \<not> ad_bearer ad
      | Shared pc sid \<Rightarrow>
          if ad_role ad = Source
          then ad_bearer ad \<and> list_ex (\<lambda>gr. gr_pc gr = pc \<and> gr_sid gr = sid \<and> gr_owned gr \<and>
            gr_at gr \<le> ad_at ad \<and> ad_at ad < gr_at gr + seconds 300) (cl_grants c)
          else \<not> ad_bearer ad) (cl_admitted c)"
  using cloud_okD(4) [OF cloud_run_ok [OF assms, of as]]
  unfolding Let_def admission_ok_def [abs_def] granted_at_def .


section \<open>Tokens\<close>

text \<open>
  What the library does with the claims of one machine: the parts of the token have no dot, the
  signature of a message passes its check, and the claims can be read back.
\<close>

definition signs :: "signing \<Rightarrow> string \<Rightarrow> nat \<Rightarrow> bool" where
  "signs g uid exp \<longleftrightarrow> (let claims = g_claims g uid exp; msg = g_head g @ ''.'' @ claims in
     g_key_ok g \<and> CHR ''.'' \<notin> set (g_head g) \<and> CHR ''.'' \<notin> set claims \<and> CHR ''.'' \<notin> set (g_sign g msg) \<and>
     (case g_b64 g (g_sign g msg) of None \<Rightarrow> False | Some sig \<Rightarrow> g_verify g msg sig) \<and>
     (case g_b64 g claims of None \<Rightarrow> False | Some cb \<Rightarrow> g_json g cb = Some (int exp, uid)))"

text \<open>A token is good until its hour is over, to the second, and names the machine it was made for.\<close>

lemma token_round_trip:
  assumes signs: "signs g (''slave:'' @ pc) (unix (now + seconds 3600))" and pc: "pc \<noteq> []"
  shows "\<exists>tok. mintSlaveToken g pc now = Some tok \<and>
    verifySlaveToken g tok t = (if unix t < unix now + 3600 then Some pc else None)"
proof -
  let ?exp = "unix (now + seconds 3600)"
  let ?claims = "g_claims g (''slave:'' @ pc) ?exp"
  let ?msg = "g_head g @ ''.'' @ ?claims"
  let ?tok = "?msg @ ''.'' @ g_sign g ?msg"
  have exp: "?exp = unix now + 3600" by (simp add: unix_def seconds_def)
  from signs have dots: "CHR ''.'' \<notin> set (g_head g)" "CHR ''.'' \<notin> set ?claims" "CHR ''.'' \<notin> set (g_sign g ?msg)"
    and ok: "g_key_ok g" by (simp_all add: signs_def Let_def)
  have "str_split CHR ''.'' ?tok = [g_head g, ?claims, g_sign g ?msg]"
    using str_split_append [OF dots(1), of "?claims @ CHR ''.'' # g_sign g ?msg"]
      str_split_append [OF dots(2), of "g_sign g ?msg"] str_split_no_sep [OF dots(3)] by simp
  with signs pc have "verifySlaveToken g ?tok t = (if int (unix t) < int ?exp then Some pc else None)"
    by (auto simp: verifySlaveToken_def signs_def exp Let_def split: option.splits)
  then show ?thesis by (simp add: mintSlaveToken_def ok exp Let_def)
qed

section \<open>Two gaps\<close>

text \<open>
  A NUL does get into a session id, as \<^verbatim>\<open>%00\<close> in the query: the owner's key for such an id is the key
  of a shared machine's session.
\<close>

lemma nul_in_a_session_id:
  assumes "q_sid q = slaveSessionKey pc sid" "q_role q = ''source''" "q_bearer q = []"
    and "CheckRelayGrant w (q_sid q) ''source''"
  shows "ServeHTTP g w q = Inr (slaveSessionKey pc sid, Source)" "request_target g w q = Own (slaveSessionKey pc sid)"
  using assms by (auto simp: ServeHTTP_def NewSlaveGate_def NewViewerKey_def request_target_def CheckRelayGrant_def)

text \<open>
  When the role of a shared machine cannot be read, a browser that asks for one of its sessions is
  paired under the bare session id, with a machine of the owner.
\<close>

lemma unreadable_role:
  assumes "\<not> w_up w ''pcs''" "pc \<noteq> []" "sid \<noteq> []"
  shows "wsViewer w (Some accountScope) pc sid = Inr sid"
  using assms by (simp add: wsViewer_def viewer_pc_def allows_def PCRole_def Let_def)

section \<open>Witnesses\<close>

text \<open>A key that signs for one machine.\<close>

definition demo_signing :: signing where
  "demo_signing = \<lparr>g_enabled = True, g_key_ok = True, g_head = ''h'', g_claims = (\<lambda>uid exp. ''c''),
     g_sign = (\<lambda>m. ''s''), g_b64 = Some, g_verify = (\<lambda>m s. m = ''h.c'' \<and> s = ''s''),
     g_json = (\<lambda>cb. Some (100, ''slave:p1''))\<rparr>"

lemma demo_verifies: "unix now < 100 \<Longrightarrow> verifySlaveToken demo_signing ''h.c.s'' now = Some ''p1''"
  by (simp add: verifySlaveToken_def demo_signing_def)

lemma p1_valid: "ValidPCName ''p1''"
  by code_simp

lemma demo_signs: "signs_valid_names demo_signing"
  using p1_valid
  by (auto simp: signs_valid_names_def verifySlaveToken_def demo_signing_def split: list.splits if_splits)

definition demo_world :: world where
  "demo_world = \<lparr>w_now = 0, w_up = (\<lambda>coll. True), w_pcs = Map.empty, w_slaves = Map.empty, w_revoked = (\<lambda>pc. False),
     w_sessions = (\<lambda>pc sid. False), w_slavegrants = Map.empty, w_relaygrants = Map.empty\<rparr>"

text \<open>The machine is enrolled, pushes a session, gets a grant and connects; a browser watches.\<close>

definition demo_setup :: "cloud_action list" where
  "demo_setup = [PostRegister ''h.c.s'', SetSession ''p1'' ''s1'' True, PostGrant ''h.c.s'' ''s1'' 60]"

definition demo_relay :: "relay_action list" where
  "demo_relay = [CloseOld 0, CloseOld 1, ReadReturns 0 [0x41] False, PeerLoop 0, WriteOk 0]"

definition demo_actions :: "cloud_action list" where
  "demo_actions = demo_setup @ [Connect \<lparr>q_sid = ''s1'', q_role = ''source'', q_bearer = ''h.c.s'', q_spc = []\<rparr>,
     Browse (Some accountScope) ''p1'' ''s1''] @ map Goroutine demo_relay"

lemma demo_base: "injBaseSID ''s1'' = ''s1''" "injBaseSID ''s1#inj@p2'' = ''s1''"
  by code_simp+

lemma run_goroutines:
  "list_all (\<lambda>a. actor a \<noteq> None) as \<Longrightarrow>
   run (cloud_step g) c (map Goroutine as) = c\<lparr>cl_relay := run relay_step (cl_relay c) as\<rparr>"
  by (induction as arbitrary: c) auto

definition demo_world' :: world where
  "demo_world' = demo_world\<lparr>w_pcs := [''p1'' \<mapsto> ''slave''], w_sessions := (\<lambda>pc sid. pc = ''p1'' \<and> sid = ''s1''),
     w_slavegrants := [slaveGrantDocID ''p1'' ''s1'' \<mapsto> seconds 60]\<rparr>"

lemma demo_guard: "w_now w = 0 \<Longrightarrow> w_revoked w ''p1'' = False \<Longrightarrow> w_slaves w = Map.empty \<Longrightarrow>
    slaveGuard demo_signing w ''h.c.s'' = Inr ''p1''"
  using demo_verifies [of 0] by (simp add: slaveGuard_def demo_signing_def IsRevoked_def SlaveRevoked_def unix_def)

lemma demo_set_up:
  "run (cloud_step demo_signing) (cloud_init demo_world) demo_setup =
     (cloud_init demo_world)\<lparr>cl_world := demo_world',
       cl_grants := [\<lparr>gr_pc = ''p1'', gr_sid = ''s1'', gr_at = 0, gr_owned = True\<rparr>]\<rparr>"
proof -
  let ?w1 = "demo_world\<lparr>w_pcs := [''p1'' \<mapsto> ''slave'']\<rparr>"
  let ?w2 = "?w1\<lparr>w_sessions := (\<lambda>pc sid. pc = ''p1'' \<and> sid = ''s1'')\<rparr>"
  have 1: "cloud_step demo_signing (cloud_init demo_world) (PostRegister ''h.c.s'') = (cloud_init demo_world)\<lparr>cl_world := ?w1\<rparr>"
    using demo_guard [of demo_world] by (simp add: cloud_init_def on_world_def slaveRegister_def demo_world_def)
  have "(w_sessions ?w1)(''p1'' := (w_sessions ?w1 ''p1'')(''s1'' := True)) = (\<lambda>pc sid. pc = ''p1'' \<and> sid = ''s1'')"
    by (rule ext)+ (simp add: demo_world_def)
  then have 2: "cloud_step demo_signing ((cloud_init demo_world)\<lparr>cl_world := ?w1\<rparr>) (SetSession ''p1'' ''s1'' True) =
      (cloud_init demo_world)\<lparr>cl_world := ?w2\<rparr>"
    by (simp add: on_world_def)
  have "slaveGrant ''p1'' ''s1'' 60 ?w2 = (200, demo_world')"
    by (simp add: slaveGrant_def SessionOwnedBy_def demo_base PutSlaveGrant_def demo_world'_def demo_world_def clamp_ttl_def Let_def)
  then have 3: "cloud_step demo_signing ((cloud_init demo_world)\<lparr>cl_world := ?w2\<rparr>) (PostGrant ''h.c.s'' ''s1'' 60) =
      (cloud_init demo_world)\<lparr>cl_world := demo_world', cl_grants := [\<lparr>gr_pc = ''p1'', gr_sid = ''s1'', gr_at = 0, gr_owned = True\<rparr>]\<rparr>"
    using demo_guard [of ?w2] by (simp add: demo_base cloud_init_def demo_world_def)
  show ?thesis unfolding demo_setup_def by (simp only: run.simps 1 2 3)
qed

lemma demo_cloud:
  "let c = run (cloud_step demo_signing) (cloud_init demo_world) demo_actions in
    cl_admitted c = [\<lparr>ad_bearer = True, ad_role = Source, ad_target = Shared ''p1'' ''s1'', ad_at = 0\<rparr>,
      \<lparr>ad_bearer = False, ad_role = Viewer, ad_target = Shared ''p1'' ''s1'', ad_at = 0\<rparr>] \<and>
    length (r_log (cl_relay c)) = 1"
proof -
  let ?q = "\<lparr>q_sid = ''s1'', q_role = ''source'', q_bearer = ''h.c.s'', q_spc = []\<rparr>" and ?k = "slaveSessionKey ''p1'' ''s1''"
  have v: "verifySlaveToken demo_signing ''h.c.s'' 0 = Some ''p1''" by (rule demo_verifies) (simp add: unix_def)
  have on: "g_enabled demo_signing" by (simp add: demo_signing_def)
  have w: "w_now demo_world' = 0" "\<not> w_revoked demo_world' pc" "w_slaves demo_world' = Map.empty" "w_up demo_world' coll"
    "w_pcs demo_world' ''p1'' = Some ''slave''"
    "w_slavegrants demo_world' (slaveGrantDocID ''p1'' ''s1'') = Some (seconds 60)" for pc coll
    by (simp_all add: demo_world'_def demo_world_def)
  have valid: "SlaveGrantValid demo_world' ''p1'' ''s1''" by (simp add: SlaveGrantValid_def w seconds_def)
  have source: "ServeHTTP demo_signing demo_world' ?q = Inr (?k, Source)"
    "request_target demo_signing demo_world' ?q = Shared ''p1'' ''s1''"
    by (simp_all add: ServeHTTP_def NewSlaveGate_def request_target_def v on w valid IsRevoked_def SlaveRevoked_def role_of_def)
  have viewer: "wsViewer demo_world' (Some accountScope) ''p1'' ''s1'' = Inr ?k"
    "browser_target demo_world' (viewer_pc accountScope ''p1'') ''s1'' = Shared ''p1'' ''s1''"
    by (simp_all add: wsViewer_def viewer_pc_def allows_def PCRole_def browser_target_def w Let_def)
  have "list_all (\<lambda>a. actor a \<noteq> None) demo_relay" by (simp add: demo_relay_def)
  note go = run_goroutines [OF this]
  have "length (r_log (run relay_step NewServer ([Serve k Source, Serve k Viewer] @ demo_relay))) = 1" for k
    by (simp add: demo_relay_def run_defs Let_def)
  then have "length (r_log (run relay_step (relay_step (relay_step NewServer (Serve ?k Source)) (Serve ?k Viewer)) demo_relay)) = 1"
    by (simp only: append_Cons append_Nil run.simps)
  then show ?thesis
    unfolding demo_actions_def run_append demo_set_up
    by (simp add: go accept_def cloud_init_def source viewer w on)
qed


theorem shared_sources_hold_a_grant_witness:
  "let c = run (cloud_step demo_signing) (cloud_init demo_world) demo_actions in
    list_ex (\<lambda>gr. gr_pc gr = ''p1'' \<and> gr_sid gr = ''s1'' \<and> gr_owned gr) (cl_grants c)"
proof -
  have "fresh_world demo_world" by (simp add: fresh_world_def demo_world_def)
  from shared_sources_hold_a_grant [OF demo_signs this, of demo_actions] demo_cloud
  show ?thesis unfolding Let_def by (auto simp: list_ex_iff)
qed

end
