(* ===== verification/CommandQueue.thy ===== *)
theory CommandQueue
  imports Commands DevicesPage Access
begin

text \<open>
  The remote commands of the pages on their way to the machines (\<^verbatim>\<open>web/web.go\<close> \<^verbatim>\<open>apiCommand\<close>,
  \<^verbatim>\<open>state/commands.go\<close>, \<^verbatim>\<open>web/slave.go\<close>): what the server reads from the form the page posts, the
  checks, the document in the queue of the machine, and how a machine takes it from there. Any
  number of watchers and pollers may look at a queue at the same time, each through its own,
  perhaps old, answers.
\<close>

section \<open>The form\<close>

text \<open>\<^verbatim>\<open>url.ParseQuery\<close>: pieces between \<^verbatim>\<open>&\<close>; a piece with a semicolon or a bad escape is left out.\<close>

fun go_unescape :: "string \<Rightarrow> string option" where
  "go_unescape [] = Some []"
| "go_unescape (c # s) =
     (if c = CHR ''%''
      then (case s of
          a # b # s' \<Rightarrow> (case (hex_value a, hex_value b) of
              (Some x, Some y) \<Rightarrow> map_option (Cons (char_of (16 * x + y))) (go_unescape s')
            | _ \<Rightarrow> None)
        | _ \<Rightarrow> None)
      else map_option (Cons (if c = CHR ''+'' then CHR '' '' else c)) (go_unescape s))"

definition go_pair :: "string \<Rightarrow> (string \<times> string) option" where
  "go_pair p =
     (if p = [] \<or> CHR '';'' \<in> set p then None
      else (let (k, v) = (case str_cut ''='' p of None \<Rightarrow> (p, []) | Some kv \<Rightarrow> kv) in
        case (go_unescape k, go_unescape v) of (Some k, Some v) \<Rightarrow> Some (k, v) | _ \<Rightarrow> None))"

definition go_form :: "string \<Rightarrow> (string \<times> string) list" where
  "go_form body = List.map_filter go_pair (str_split CHR ''&'' body)"

text \<open>\<^verbatim>\<open>r.FormValue\<close>\<close>

definition FormValue :: "string \<Rightarrow> string \<Rightarrow> string" where
  "FormValue body k = (case map_of (go_form body) k of None \<Rightarrow> [] | Some v \<Rightarrow> v)"

lemma go_unescape_pct: "go_unescape (pct c @ s) = map_option (Cons c) (go_unescape s)"
proof -
  have "of_char c div 16 < (16::nat)" using of_char_less_256 [of c] by linarith
  then show ?thesis by (simp add: pct_def hex_value_digit mult.commute [of 16])
qed

lemma go_unescape_form: "go_unescape (form_encode s) = Some s"
proof (induction s)
  case (Cons c s)
  have step: "form_encode (c # s) =
      (if c = CHR '' '' then ''+'' else if c \<in> set form_kept then [c] else pct c) @ form_encode s"
    by (simp add: form_encode_def)
  have "c \<noteq> CHR ''%''" "c \<noteq> CHR ''+''" if "c \<in> set form_kept"
    using that form_kept_uri plus_kept by auto
  with Cons show ?case by (auto simp: step go_unescape_pct)
qed (simp add: form_encode_def)

lemma form_no_semicolon: "CHR '';'' \<notin> set (form_encode s)"
proof -
  have "CHR '';'' \<notin> set enc_chars" by (simp add: enc_chars_def uri_kept_def alnum_def)
  with encoded_chars(2) [of s] show ?thesis by blast
qed

lemma go_pair_form: "go_pair (form_encode k @ CHR ''='' # form_encode v) = Some (k, v)"
  by (simp add: go_pair_def form_no_semicolon str_cut_def str_indexOf_char encoded_plain go_unescape_form)

lemma go_form_body: "kvs \<noteq> [] \<Longrightarrow> go_form (form_body kvs) = kvs"
proof -
  assume "kvs \<noteq> []"
  then have "str_split CHR ''&'' (form_body kvs) = map (\<lambda>kv. form_encode (fst kv) @ CHR ''='' # form_encode (snd kv)) kvs"
    unfolding form_body_def by (intro str_split_join) (auto simp: encoded_plain)
  then show ?thesis
    by (simp add: go_form_def map_filter_map_filter List.map_filter_def go_pair_form comp_def)
qed

section \<open>The checks\<close>

definition ValidCommands :: "string list" where
  "ValidCommands = [''restart-agent'', ''self-update'', ''restart-proxy'', ''restart-claude'', ''update-claude'',
     ''update-all'', ''semi-auto'', ''restart-agent-session'', ''update-agent-cli'', ''restart-daemon'', ''read-pane'',
     ''send-input'', ''interrupt'', ''start-agent-session'', ''close-pane'', ''organize'']"

definition ValidAgents :: "string list" where
  "ValidAgents = [''agy'', ''amp'', ''claude'', ''cline'', ''codex'', ''copilot'', ''cursor'', ''devin'', ''droid'',
     ''gemini'', ''grok'', ''hermes'', ''kilo'', ''kimi'', ''kiro'', ''maki'', ''mastracode'', ''omp'', ''opencode'',
     ''pi'', ''qodercli'']"

definition argsMaxBytes :: nat where
  "argsMaxBytes = 16 * 1024"

definition validateArgs :: "(string \<times> string) list \<Rightarrow> bool" where
  "validateArgs args \<longleftrightarrow> list_all (\<lambda>kv. fst kv \<noteq> []) args \<and>
     sum_list (map (\<lambda>kv. length (fst kv) + length (snd kv)) args) \<le> argsMaxBytes"

text \<open>A document of \<^verbatim>\<open>commands/{pc}/q\<close>, as far as it bears on what is run.\<close>

record command_doc =
  cd_cmd :: string
  cd_sid :: string
  cd_agent :: string
  cd_requested_by :: string
  cd_source :: string
  cd_args :: "(string \<times> string) list"
  cd_status :: string

type_synonym command_queue = "string \<times> string \<rightharpoonup> command_doc"

text \<open>\<open>cid\<close> is the random number drawn, \<open>stored\<close> says whether the write succeeds.\<close>

definition PushCommandArgs :: "string \<Rightarrow> bool \<Rightarrow> string \<Rightarrow> string \<Rightarrow> string \<Rightarrow> string \<Rightarrow> string \<Rightarrow> string \<Rightarrow>
    (string \<times> string) list \<Rightarrow> command_queue \<Rightarrow> bool \<times> command_queue" where
  "PushCommandArgs cid stored pc cmd sid agent requestedBy source args q =
     (if cmd \<notin> set ValidCommands then (False, q)
      else if agent \<noteq> [] \<and> agent \<notin> set ValidAgents then (False, q)
      else if \<not> validateArgs args then (False, q)
      else if \<not> stored then (False, q)
      else (True, q((pc, cid) \<mapsto> \<lparr>cd_cmd = cmd, cd_sid = sid, cd_agent = agent, cd_requested_by = requestedBy,
        cd_source = source, cd_args = args, cd_status = ''pending''\<rparr>)))"

definition PushCommand :: "string \<Rightarrow> bool \<Rightarrow> string \<Rightarrow> string \<Rightarrow> string \<Rightarrow> string \<Rightarrow> string \<Rightarrow>
    command_queue \<Rightarrow> bool \<times> command_queue" where
  "PushCommand cid stored pc cmd sid agent requestedBy =
     PushCommandArgs cid stored pc cmd sid agent requestedBy [] []"

text \<open>The handler behind \<^verbatim>\<open>apiGuard\<close>: scope and address of the cookie, the method, the body.\<close>

definition apiCommand :: "string \<Rightarrow> string \<Rightarrow> bool \<Rightarrow> string \<Rightarrow> string \<Rightarrow> bool \<Rightarrow> command_queue \<Rightarrow> nat \<times> command_queue" where
  "apiCommand scope email post body cid stored q =
     (if \<not> post then (405, q)
      else let pc = FormValue body ''pc''; cmd = FormValue body ''cmd''; sid = FormValue body ''sid'';
               agent = FormValue body ''agent''; on = FormValue body ''on'' in
        if pc = [] \<or> \<not> allows scope pc then (403, q)
        else if cmd \<notin> set ValidCommands then (400, q)
        else if on \<noteq> [] \<and> (cmd \<noteq> ''semi-auto'' \<or> on \<noteq> ''1'' \<and> on \<noteq> ''0'') then (400, q)
        else let (ok, q') = (if on \<noteq> [] then PushCommandArgs cid stored pc cmd sid agent email ''web'' [(''on'', on)] q
                             else PushCommand cid stored pc cmd sid agent email q)
             in if ok then (200, q') else (500, q'))"

text \<open>\<^verbatim>\<open>apiGuard\<close>: no cookie, no handler.\<close>

definition post_command :: "(string \<times> string) option \<Rightarrow> bool \<Rightarrow> string \<Rightarrow> string \<Rightarrow> bool \<Rightarrow> command_queue \<Rightarrow> nat \<times> command_queue" where
  "post_command cookie post body cid stored q = (case cookie of
     None \<Rightarrow> (401, q)
   | Some (scope, email) \<Rightarrow> apiCommand scope email post body cid stored q)"

section \<open>What the pages post\<close>

text \<open>
  The restart and the restart of an agent of the terminal page, its semi-auto switch, the update of
  a whole machine and the return of a session on the list of devices.
\<close>

datatype page_command =
    RestartSession string string
  | RestartAgent string string string
  | SwitchSemiAuto string string bool
  | UpdateAll string
  | ReturnSession string string

fun page_body :: "page_command \<Rightarrow> string" where
  "page_body (RestartSession pc sid) = restart_body pc sid"
| "page_body (RestartAgent pc sid ag) = restart_agent_body pc sid ag"
| "page_body (SwitchSemiAuto pc sid on) = semi_auto_body pc sid (v_next (cmSemiAutoView on False))"
| "page_body (UpdateAll pc) = postCmd_body pc ''update-all'' (Some []) None"
| "page_body (ReturnSession pc key) = postCmd_body pc ''restart-proxy'' (Some key) None"

fun page_pc :: "page_command \<Rightarrow> string" where
  "page_pc (RestartSession pc sid) = pc"
| "page_pc (RestartAgent pc sid ag) = pc"
| "page_pc (SwitchSemiAuto pc sid on) = pc"
| "page_pc (UpdateAll pc) = pc"
| "page_pc (ReturnSession pc key) = pc"

fun page_agent :: "page_command \<Rightarrow> string" where
  "page_agent (RestartAgent pc sid ag) = ag"
| "page_agent c = []"

text \<open>The document it is to become.\<close>

fun page_doc :: "string \<Rightarrow> page_command \<Rightarrow> command_doc" where
  "page_doc email (RestartSession pc sid) = \<lparr>cd_cmd = ''restart-proxy'', cd_sid = sid, cd_agent = [],
     cd_requested_by = email, cd_source = [], cd_args = [], cd_status = ''pending''\<rparr>"
| "page_doc email (RestartAgent pc sid ag) = \<lparr>cd_cmd = ''restart-agent-session'', cd_sid = sid, cd_agent = ag,
     cd_requested_by = email, cd_source = [], cd_args = [], cd_status = ''pending''\<rparr>"
| "page_doc email (SwitchSemiAuto pc sid on) = \<lparr>cd_cmd = ''semi-auto'', cd_sid = sid, cd_agent = [],
     cd_requested_by = email, cd_source = ''web'', cd_args = [(''on'', if on then ''0'' else ''1'')],
     cd_status = ''pending''\<rparr>"
| "page_doc email (UpdateAll pc) = \<lparr>cd_cmd = ''update-all'', cd_sid = [], cd_agent = [],
     cd_requested_by = email, cd_source = [], cd_args = [], cd_status = ''pending''\<rparr>"
| "page_doc email (ReturnSession pc key) = \<lparr>cd_cmd = ''restart-proxy'', cd_sid = key, cd_agent = [],
     cd_requested_by = email, cd_source = [], cd_args = [], cd_status = ''pending''\<rparr>"

lemma page_form:
  "go_form (page_body (RestartSession pc sid)) = [(''pc'', pc), (''cmd'', ''restart-proxy''), (''sid'', sid)]"
  "go_form (page_body (RestartAgent pc sid ag)) =
     [(''pc'', pc), (''cmd'', ''restart-agent-session''), (''sid'', sid), (''agent'', ag)]"
  "go_form (page_body (SwitchSemiAuto pc sid on)) =
     [(''pc'', pc), (''cmd'', ''semi-auto''), (''sid'', sid), (''on'', if on then ''0'' else ''1'')]"
  "go_form (page_body (UpdateAll pc)) = [(''pc'', pc), (''cmd'', ''update-all''), (''sid'', []), (''agent'', [])]"
  "go_form (page_body (ReturnSession pc key)) =
     [(''pc'', pc), (''cmd'', ''restart-proxy''), (''sid'', key), (''agent'', [])]"
  by (simp_all add: restart_body_def restart_agent_body_def semi_auto_body_def postCmd_body_def go_form_body
      cmSemiAutoView_def or_str_def)

lemma page_commands_valid:
  "''restart-proxy'' \<in> set ValidCommands" "''restart-agent-session'' \<in> set ValidCommands"
  "''semi-auto'' \<in> set ValidCommands" "''update-all'' \<in> set ValidCommands"
  by (simp_all add: ValidCommands_def)

lemma on_valid: "validateArgs [(''on'', ''0'')]" "validateArgs [(''on'', ''1'')]" "validateArgs []"
  by (simp_all add: validateArgs_def argsMaxBytes_def)

lemma page_command_queued:
  assumes "page_pc c \<noteq> []" "allows scope (page_pc c)" "page_agent c = [] \<or> page_agent c \<in> set ValidAgents"
  shows "apiCommand scope email True (page_body c) cid True q = (200, q((page_pc c, cid) \<mapsto> page_doc email c))"
  using assms
  by (cases c) (simp_all add: apiCommand_def FormValue_def page_form page_commands_valid PushCommand_def
      PushCommandArgs_def on_valid Let_def del: page_body.simps)

section \<open>From the queue to the machine\<close>

text \<open>
  \<open>qs_seen\<close> holds what queries and subscriptions have answered: documents that were pending at some
  time. \<open>qs_delivered\<close> is what a machine got to run; \<open>qs_posted\<close> is history.
\<close>

type_synonym queued = "(string \<times> string) \<times> command_doc"

record queue_state =
  qs_docs :: command_queue
  qs_seen :: "queued list"
  qs_delivered :: "queued list"
  qs_posted :: "queued list"

definition commands_init :: queue_state where
  "commands_init = \<lparr>qs_docs = Map.empty, qs_seen = [], qs_delivered = [], qs_posted = []\<rparr>"

text \<open>A transaction does not commit; or it does; or it does and its caller is told that it did not.\<close>

datatype commit = Rejected | Committed | Unheard

datatype queue_event =
    Post "(string \<times> string) option" bool string string bool
  | See string string
  | Claim nat commit
  | Acknowledge string string string

definition set_status :: "string \<Rightarrow> command_doc \<Rightarrow> command_doc" where
  "set_status st d = d\<lparr>cd_status := st\<rparr>"

text \<open>\<^verbatim>\<open>claimCommandFor\<close>: pending becomes running, in a transaction.\<close>

definition claimCommandFor :: "string \<times> string \<Rightarrow> commit \<Rightarrow> command_queue \<Rightarrow> bool \<times> command_queue" where
  "claimCommandFor k o' q = (case q k of
     None \<Rightarrow> (False, q)
   | Some d \<Rightarrow>
       if cd_status d \<noteq> ''pending'' \<or> o' = Rejected then (False, q)
       else (o' = Committed, q(k \<mapsto> set_status ''running'' d)))"

text \<open>\<^verbatim>\<open>AckCommandFor\<close> merges the status in, and makes the document when there is none.\<close>

definition AckCommandFor :: "string \<times> string \<Rightarrow> string \<Rightarrow> command_queue \<Rightarrow> command_queue" where
  "AckCommandFor k st q = q(k \<mapsto> set_status st (case q k of
     Some d \<Rightarrow> d
   | None \<Rightarrow> \<lparr>cd_cmd = [], cd_sid = [], cd_agent = [], cd_requested_by = [], cd_source = [], cd_args = [], cd_status = []\<rparr>))"

text \<open>
  What a post stores is read off the queue afterwards. A watcher (\<^verbatim>\<open>WatchCommands\<close>) or a poller
  (\<^verbatim>\<open>ClaimPendingCommands\<close>) runs the document it has seen once its claim has gone through.
\<close>

fun commands_step :: "queue_state \<Rightarrow> queue_event \<Rightarrow> queue_state" where
  "commands_step s (Post cookie post body cid stored) =
     (let (status, q) = post_command cookie post body cid stored (qs_docs s);
          k = (FormValue body ''pc'', cid) in
      s\<lparr>qs_docs := q, qs_posted := qs_posted s @ (if status = 200 then [(k, the (q k))] else [])\<rparr>)"
| "commands_step s (See pc cid) = (case qs_docs s (pc, cid) of
     None \<Rightarrow> s
   | Some d \<Rightarrow> if cd_status d = ''pending'' then s\<lparr>qs_seen := qs_seen s @ [((pc, cid), d)]\<rparr> else s)"
| "commands_step s (Claim i o') =
     (if i < length (qs_seen s)
      then let (k, cm) = qs_seen s ! i; (ok, q) = claimCommandFor k o' (qs_docs s) in
        s\<lparr>qs_docs := q, qs_delivered := qs_delivered s @ (if ok then [(k, set_status ''running'' cm)] else [])\<rparr>
      else s)"
| "commands_step s (Acknowledge pc cid st) = s\<lparr>qs_docs := AckCommandFor (pc, cid) st (qs_docs s)\<rparr>"






lemma set_status_simps [simp]:
  "cd_status (set_status st d) = st" "set_status st (set_status st' d) = set_status st d"
  "cd_status d = st \<Longrightarrow> set_status st d = d"
  by (cases d; simp add: set_status_def)+







section \<open>Properties\<close>

text \<open>C27. Every command a page posts arrives in the queue as it was meant: whatever bytes the names of
  the machine, the session and the agent are made of, the server reads the posted form back,
  accepts it within the scope of the cookie and stores it for that machine, with that
  session, that agent, that value of the switch and the address of the user, waiting to be run.\<close>

theorem page_command_reaches_the_queue:
  assumes "page_pc c \<noteq> []" "allows scope (page_pc c)" "page_agent c = [] \<or> page_agent c \<in> set ValidAgents"
  shows "post_command (Some (scope, email)) True (page_body c) cid True q =
    (200, q((page_pc c, cid) \<mapsto> page_doc email c))"
  using page_command_queued [OF assms] by (simp add: post_command_def)



text \<open>
  The server does not check the status a machine sends: one that acknowledges with \<^verbatim>\<open>pending\<close> gets its
  command again.
\<close>

definition redelivery :: "queue_event list" where
  "redelivery = [Post (Some (accountScope, ''me'')) True (page_body (UpdateAll ''p'')) ''1'' True, See ''p'' ''1'',
     Claim 0 Committed, Acknowledge ''p'' ''1'' ''pending'', Claim 0 Committed]"

lemma update_all_posted:
  "post_command (Some (accountScope, ''me'')) True (page_body (UpdateAll ''p'')) ''1'' True q =
     (200, q((''p'', ''1'') \<mapsto> page_doc ''me'' (UpdateAll ''p'')))" "FormValue (page_body (UpdateAll ''p'')) ''pc'' = ''p''"
  using page_command_queued [of "UpdateAll ''p''" accountScope "''me''" "''1''" q]
  by (simp_all add: post_command_def allows_def FormValue_def page_form del: page_body.simps)

lemma pending_ack_runs_twice:
  "map fst (qs_delivered (run commands_step commands_init redelivery)) = [(''p'', ''1''), (''p'', ''1'')]"
  by (simp add: redelivery_def commands_init_def update_all_posted claimCommandFor_def AckCommandFor_def Let_def
      del: page_body.simps)

section \<open>Witnesses\<close>

theorem page_command_reaches_the_queue_witness:
  "post_command (Some (accountScope, ''me'')) True (page_body (RestartAgent ''a b'' ''&='' ''claude'')) ''1'' True Map.empty =
    (200, [(''a b'', ''1'') \<mapsto> page_doc ''me'' (RestartAgent ''a b'' ''&='' ''claude'')])"
  using page_command_reaches_the_queue [of "RestartAgent ''a b'' ''&='' ''claude''" accountScope "''me''" "''1''" Map.empty]
  by (simp add: allows_def ValidAgents_def del: page_body.simps page_doc.simps)




end
