(* ===== verification/Pump.thy ===== *)
theory Pump
  imports Prelude
begin

text \<open>
  The two-way pumps between a connection of the relay and another stream (\<^verbatim>\<open>pump\<close> and
  \<^verbatim>\<open>idlePump\<close> in \<^verbatim>\<open>relayclient/relayclient.go\<close> and, the same, \<^verbatim>\<open>relay/relay.go\<close>; the copy loops of
  \<^verbatim>\<open>proxyViewer\<close> in \<^verbatim>\<open>web/web.go\<close>). Two copying goroutines and the one that waits for them are the
  steps of one machine, taken in any order; the ends of the pump and the clock are the network and
  the system, which answer as they like. Times are nanoseconds of the wall clock: \<^verbatim>\<open>time.Unix\<close>
  drops the monotonic reading.
\<close>

section \<open>State\<close>

text \<open>\<^verbatim>\<open>cp(a, b)\<close> copies to \<open>a\<close> what it reads from \<open>b\<close>.\<close>

datatype way = ToA | ToB

text \<open>
  Where a copier is: at \<^verbatim>\<open>Read\<close>; with a chunk before \<^verbatim>\<open>bump\<close>; at \<^verbatim>\<open>Write\<close>; gone, with its token in
  \<^verbatim>\<open>d\<close>. The flag says whether the \<^verbatim>\<open>Read\<close> returned an error beside the chunk.
\<close>

datatype copier = Reading | Got "byte list" bool | Writing "byte list" bool | Stopped

datatype waiter = Waiting | Draining | Gone

text \<open>
  \<open>p_a\<close> and \<open>p_b\<close>: the end is open. \<open>p_done\<close>: tokens in the channel \<^verbatim>\<open>d\<close>. History: the chunks read and
  those written whole, what of the last chunk a failed write has put out, the calls of \<^verbatim>\<open>bump\<close>
  and, once the pump has closed a quiet line, when it did and the calls until then.
\<close>

record pumping =
  p_idle :: int
  p_last :: int
  p_a :: bool
  p_b :: bool
  p_copier :: "way \<Rightarrow> copier"
  p_done :: nat
  p_main :: waiter
  p_in :: "way \<Rightarrow> byte list list"
  p_out :: "way \<Rightarrow> byte list list"
  p_torn :: "way \<Rightarrow> byte list"
  p_bumps :: "(way \<times> int) list"
  p_quiet :: "(int \<times> (way \<times> int) list) option"

definition dst_open :: "way \<Rightarrow> pumping \<Rightarrow> bool" where
  "dst_open w s = (case w of ToA \<Rightarrow> p_a s | ToB \<Rightarrow> p_b s)"

definition src_open :: "way \<Rightarrow> pumping \<Rightarrow> bool" where
  "src_open w s = (case w of ToA \<Rightarrow> p_b s | ToB \<Rightarrow> p_a s)"

section \<open>Start\<close>

definition pump_start :: "int \<Rightarrow> int \<Rightarrow> pumping" where
  "pump_start idle now = \<lparr>p_idle = idle, p_last = now, p_a = True, p_b = True, p_copier = (\<lambda>w. Reading),
     p_done = 0, p_main = Waiting, p_in = (\<lambda>w. []), p_out = (\<lambda>w. []), p_torn = (\<lambda>w. []), p_bumps = [],
     p_quiet = None\<rparr>"

definition pump :: "int \<Rightarrow> pumping" where
  "pump now = pump_start 0 now"

text \<open>\<open>None\<close>: \<^verbatim>\<open>time.NewTicker\<close> panics on an interval that is not positive.\<close>

definition idlePump :: "int \<Rightarrow> int \<Rightarrow> pumping option" where
  "idlePump idle now =
     (if idle \<le> 0 then Some (pump now)
      else if idle div 2 \<le> 0 then None
      else Some (pump_start idle now))"

section \<open>Steps\<close>

definition set_copier :: "way \<Rightarrow> copier \<Rightarrow> pumping \<Rightarrow> pumping" where
  "set_copier w c s = s\<lparr>p_copier := (p_copier s)(w := c)\<rparr>"

text \<open>\<^verbatim>\<open>d <- struct{}{}\<close>; the channel has room for both.\<close>

definition cp_stop :: "way \<Rightarrow> pumping \<Rightarrow> pumping" where
  "cp_stop w s = set_copier w Stopped (s\<lparr>p_done := Suc (p_done s)\<rparr>)"

text \<open>A \<^verbatim>\<open>Read\<close> returns at most the 32 KB of the buffer, and an error when its end is closed.\<close>

definition cp_read :: "way \<Rightarrow> byte list \<Rightarrow> bool \<Rightarrow> pumping \<Rightarrow> pumping" where
  "cp_read w p err s =
     (if p_copier s w \<noteq> Reading \<or> 32 * 1024 < length p \<or> (\<not> src_open w s \<and> \<not> err) then s
      else if p = [] then (if err then cp_stop w s else s)
      else set_copier w (if 0 < p_idle s then Got p err else Writing p err)
        (s\<lparr>p_in := (p_in s)(w := p_in s w @ [p])\<rparr>))"

definition cp_bump :: "way \<Rightarrow> int \<Rightarrow> pumping \<Rightarrow> pumping" where
  "cp_bump w now s = (case p_copier s w of
     Got p err \<Rightarrow> set_copier w (Writing p err) (s\<lparr>p_last := now, p_bumps := p_bumps s @ [(w, now)]\<rparr>)
   | _ \<Rightarrow> s)"

definition cp_write :: "way \<Rightarrow> pumping \<Rightarrow> pumping" where
  "cp_write w s = (case p_copier s w of
     Writing p err \<Rightarrow>
       if \<not> dst_open w s then s
       else let s = s\<lparr>p_out := (p_out s)(w := p_out s w @ [p])\<rparr> in
         if err then cp_stop w s else set_copier w Reading s
   | _ \<Rightarrow> s)"

text \<open>A \<^verbatim>\<open>Write\<close> fails after \<open>n\<close> bytes.\<close>

definition cp_fail :: "way \<Rightarrow> nat \<Rightarrow> pumping \<Rightarrow> pumping" where
  "cp_fail w n s = (case p_copier s w of
     Writing p err \<Rightarrow> cp_stop w (s\<lparr>p_torn := (p_torn s)(w := take n p)\<rparr>)
   | _ \<Rightarrow> s)"

text \<open>\<^verbatim>\<open>case <-d\<close>. After \<^verbatim>\<open>pump\<close> itself its callers close both ends.\<close>

definition main_done :: "pumping \<Rightarrow> pumping" where
  "main_done s =
     (if p_main s = Waiting \<and> 0 < p_done s
      then s\<lparr>p_done := p_done s - 1, p_a := False, p_b := False, p_main := Gone\<rparr> else s)"

text \<open>\<^verbatim>\<open>case <-tick.C\<close>\<close>

definition main_tick :: "int \<Rightarrow> pumping \<Rightarrow> pumping" where
  "main_tick now s =
     (if p_main s = Waiting \<and> 0 < p_idle s \<and> p_idle s \<le> now - p_last s
      then s\<lparr>p_a := False, p_b := False, p_main := Draining, p_quiet := Some (now, p_bumps s)\<rparr> else s)"

definition main_drain :: "pumping \<Rightarrow> pumping" where
  "main_drain s =
     (if p_main s = Draining \<and> 0 < p_done s then s\<lparr>p_done := p_done s - 1, p_main := Gone\<rparr> else s)"

datatype pump_event = Read way "byte list" bool | Bumped way int | Written way | WriteFails way nat
  | GetDone | Tick int | Drain

fun pump_step :: "pumping \<Rightarrow> pump_event \<Rightarrow> pumping" where
  "pump_step s (Read w p err) = cp_read w p err s"
| "pump_step s (Bumped w now) = cp_bump w now s"
| "pump_step s (Written w) = cp_write w s"
| "pump_step s (WriteFails w n) = cp_fail w n s"
| "pump_step s GetDone = main_done s"
| "pump_step s (Tick now) = main_tick now s"
| "pump_step s Drain = main_drain s"

lemmas pump_defs = set_copier_def cp_stop_def cp_read_def cp_bump_def cp_write_def cp_fail_def main_done_def
  main_tick_def main_drain_def dst_open_def src_open_def

section \<open>Invariant\<close>

text \<open>What one copier has read against what it has written.\<close>

fun copied_ok :: "copier \<Rightarrow> byte list list \<Rightarrow> byte list list \<Rightarrow> byte list \<Rightarrow> bool" where
  "copied_ok Reading rs ws torn \<longleftrightarrow> rs = ws \<and> torn = []"
| "copied_ok (Got p err) rs ws torn \<longleftrightarrow> rs = ws @ [p] \<and> torn = []"
| "copied_ok (Writing p err) rs ws torn \<longleftrightarrow> rs = ws @ [p] \<and> torn = []"
| "copied_ok Stopped rs ws torn \<longleftrightarrow> rs = ws \<and> torn = [] \<or> (\<exists>p. rs = ws @ [p] \<and> prefix torn p)"

definition stopped :: "pumping \<Rightarrow> way \<Rightarrow> nat" where
  "stopped s w = (if p_copier s w = Stopped then 1 else 0)"

lemma stopped_upd [simp]:
  "stopped (s\<lparr>p_done := n\<rparr>) = stopped s" "stopped (s\<lparr>p_a := x\<rparr>) = stopped s" "stopped (s\<lparr>p_b := x\<rparr>) = stopped s"
  "stopped (s\<lparr>p_main := m\<rparr>) = stopped s" "stopped (s\<lparr>p_quiet := q\<rparr>) = stopped s"
  by (simp_all add: stopped_def fun_eq_iff)

definition pump_ok :: "pumping \<Rightarrow> bool" where
  "pump_ok s \<longleftrightarrow>
     (\<forall>w. copied_ok (p_copier s w) (p_in s w) (p_out s w) (p_torn s w)) \<and>
     p_done s + (if p_main s = Gone then 1 else 0) = stopped s ToA + stopped s ToB \<and>
     p_a s = (p_main s = Waiting) \<and> p_b s = (p_main s = Waiting) \<and>
     (\<forall>w p err. p_copier s w = Got p err \<longrightarrow> 0 < p_idle s)"

lemma pump_okD:
  assumes "pump_ok s"
  shows "copied_ok (p_copier s w) (p_in s w) (p_out s w) (p_torn s w)"
    "p_done s + (if p_main s = Gone then 1 else 0) = stopped s ToA + stopped s ToB"
    "p_a s = (p_main s = Waiting)" "p_b s = (p_main s = Waiting)"
  using assms by (auto simp: pump_ok_def)

lemma pump_start_ok: "pump_ok (pump_start idle now)"
  by (simp add: pump_ok_def pump_start_def stopped_def)

text \<open>A step of one copier leaves the other one and the waiter alone.\<close>

definition copier_moves :: "way \<Rightarrow> pumping \<Rightarrow> pumping \<Rightarrow> bool" where
  "copier_moves w s s' \<longleftrightarrow> p_copier s w \<noteq> Stopped \<and>
     (\<forall>v. v \<noteq> w \<longrightarrow> p_copier s' v = p_copier s v \<and> p_in s' v = p_in s v \<and> p_out s' v = p_out s v \<and> p_torn s' v = p_torn s v) \<and>
     p_done s' = p_done s + stopped s' w \<and> p_main s' = p_main s \<and> p_a s' = p_a s \<and> p_b s' = p_b s \<and>
     p_idle s' = p_idle s"

lemma copier_moves_ok:
  assumes ok: "pump_ok s" and m: "copier_moves w s s'"
    and c: "copied_ok (p_copier s' w) (p_in s' w) (p_out s' w) (p_torn s' w)"
    and g: "\<And>p err. p_copier s' w = Got p err \<Longrightarrow> 0 < p_idle s"
  shows "pump_ok s'"
proof -
  have old: "stopped s w = 0" using m by (simp add: copier_moves_def stopped_def)
  have other: "p_copier s' v = p_copier s v" "p_in s' v = p_in s v" "p_out s' v = p_out s v" "p_torn s' v = p_torn s v"
    if "v \<noteq> w" for v using m that by (simp_all add: copier_moves_def)
  have "copied_ok (p_copier s' v) (p_in s' v) (p_out s' v) (p_torn s' v)" for v
    using c pump_okD(1) [OF ok, of v] other [of v] by (cases "v = w") simp_all
  moreover have "stopped s' v = stopped s v" if "v \<noteq> w" for v using other [OF that] by (simp add: stopped_def)
  then have "stopped s' ToA + stopped s' ToB = stopped s ToA + stopped s ToB + stopped s' w"
    using old by (cases w) simp_all
  then have "p_done s' + (if p_main s' = Gone then 1 else 0) = stopped s' ToA + stopped s' ToB"
    using m pump_okD(2) [OF ok] by (simp add: copier_moves_def)
  moreover have "0 < p_idle s'" if "p_copier s' v = Got p err" for v p err
    using that g other [of v] ok m by (cases "v = w") (auto simp: pump_ok_def copier_moves_def)
  ultimately show ?thesis using m pump_okD(3,4) [OF ok] by (auto simp: pump_ok_def copier_moves_def)
qed

lemma cp_read_ok: "pump_ok s \<Longrightarrow> pump_ok (cp_read w p err s)"
proof -
  assume ok: "pump_ok s"
  show ?thesis
  proof (cases "cp_read w p err s = s")
    case False
    then have at: "p_copier s w = Reading" unfolding cp_read_def by presburger
    with pump_okD(1) [OF ok, of w] False show ?thesis
      by (intro copier_moves_ok [OF ok, of w])
        (auto simp: cp_read_def cp_stop_def set_copier_def copier_moves_def stopped_def split: if_splits)
  qed (simp add: ok)
qed

lemma cp_bump_ok: "pump_ok s \<Longrightarrow> pump_ok (cp_bump w now s)"
proof -
  assume ok: "pump_ok s"
  show ?thesis
  proof (cases "\<exists>p err. p_copier s w = Got p err")
    case True
    then obtain p err where at: "p_copier s w = Got p err" by blast
    with pump_okD(1) [OF ok, of w] show ?thesis
      by (intro copier_moves_ok [OF ok, of w])
        (simp_all add: cp_bump_def set_copier_def copier_moves_def stopped_def)
  next
    case False
    then have "cp_bump w now s = s" by (auto simp: cp_bump_def split: copier.split)
    with ok show ?thesis by simp
  qed
qed

lemma cp_write_ok: "pump_ok s \<Longrightarrow> pump_ok (cp_write w s)"
proof -
  assume ok: "pump_ok s"
  show ?thesis
  proof (cases "cp_write w s = s")
    case False
    then obtain p err where at: "p_copier s w = Writing p err" "dst_open w s"
      by (auto simp: cp_write_def split: copier.splits if_splits)
    with pump_okD(1) [OF ok, of w] show ?thesis
      by (intro copier_moves_ok [OF ok, of w])
        (auto simp: cp_write_def cp_stop_def set_copier_def copier_moves_def stopped_def Let_def split: if_splits)
  qed (simp add: ok)
qed

lemma cp_fail_ok: "pump_ok s \<Longrightarrow> pump_ok (cp_fail w n s)"
proof -
  assume ok: "pump_ok s"
  show ?thesis
  proof (cases "cp_fail w n s = s")
    case False
    then obtain p err where at: "p_copier s w = Writing p err"
      by (auto simp: cp_fail_def split: copier.splits)
    with pump_okD(1) [OF ok, of w] show ?thesis
      by (intro copier_moves_ok [OF ok, of w])
        (auto simp: cp_fail_def cp_stop_def set_copier_def copier_moves_def stopped_def take_is_prefix)
  qed (simp add: ok)
qed

lemma waiter_ok: "pump_ok s \<Longrightarrow> pump_ok (main_done s)" "pump_ok s \<Longrightarrow> pump_ok (main_tick now s)"
  "pump_ok s \<Longrightarrow> pump_ok (main_drain s)"
  by (auto simp: main_done_def main_tick_def main_drain_def pump_ok_def split: if_splits)

lemma pump_step_ok: "pump_ok s \<Longrightarrow> pump_ok (pump_step s e)"
  by (cases e) (simp_all add: cp_read_ok cp_bump_ok cp_write_ok cp_fail_ok waiter_ok)

interpretation pumped: guarded_system "pump_start idle now" pump_step pump_ok
  by unfold_locales (auto intro: pump_start_ok pump_step_ok)

section \<open>Bytes\<close>

text \<open>What has come out of one way is a prefix of what has gone in, also in the middle of a failed write.\<close>

definition came_out :: "pumping \<Rightarrow> way \<Rightarrow> byte list" where
  "came_out s w = concat (p_out s w) @ p_torn s w"

definition went_in :: "pumping \<Rightarrow> way \<Rightarrow> byte list" where
  "went_in s w = concat (p_in s w)"

lemma copied_prefix: "copied_ok c rs ws torn \<Longrightarrow> prefix (concat ws @ torn) (concat rs)"
  by (cases c) auto

lemma pump_prefix: "pump_ok s \<Longrightarrow> prefix (came_out s w) (went_in s w)"
  unfolding came_out_def went_in_def by (rule copied_prefix [OF pump_okD(1)])

lemma pump_idle_copier:
  assumes "pump_ok s" "p_copier s w = Reading"
  shows "p_out s w = p_in s w" "came_out s w = went_in s w"
  using pump_okD(1) [OF assms(1), of w] assms(2) by (simp_all add: came_out_def went_in_def)

section \<open>Time\<close>












section \<open>Winding down\<close>

text \<open>A step that brings no bytes and changes something.\<close>

definition brings_bytes :: "pump_event \<Rightarrow> bool" where
  "brings_bytes e = (case e of Read w p err \<Rightarrow> p \<noteq> [] | _ \<Rightarrow> False)"

definition winding :: "pumping \<Rightarrow> pumping \<Rightarrow> bool" where
  "winding s s' \<longleftrightarrow> (\<exists>e. \<not> brings_bytes e \<and> s' = pump_step s e \<and> s' \<noteq> s)"

fun copier_rank :: "copier \<Rightarrow> nat" where
  "copier_rank (Got p err) = 3"
| "copier_rank (Writing p err) = 2"
| "copier_rank Reading = 1"
| "copier_rank Stopped = 0"

fun main_rank :: "waiter \<Rightarrow> nat" where
  "main_rank Waiting = 2"
| "main_rank Draining = 1"
| "main_rank Gone = 0"

definition pump_rank :: "pumping \<Rightarrow> nat" where
  "pump_rank s = copier_rank (p_copier s ToA) + copier_rank (p_copier s ToB) + main_rank (p_main s)"

lemma rank_at:
  "p_main s' = p_main s \<Longrightarrow> (\<And>v. v \<noteq> w \<Longrightarrow> p_copier s' v = p_copier s v) \<Longrightarrow>
     copier_rank (p_copier s' w) < copier_rank (p_copier s w) \<Longrightarrow> pump_rank s' < pump_rank s"
  by (cases w) (simp_all add: pump_rank_def)

lemma winding_rank: "winding s s' \<Longrightarrow> pump_rank s' < pump_rank s"
proof (unfold winding_def, elim exE conjE)
  fix e assume quiet: "\<not> brings_bytes e" and s': "s' = pump_step s e" "s' \<noteq> s"
  show ?thesis
  proof (cases e)
    case (Read w p err)
    with quiet s' show ?thesis
      by (intro rank_at [where w = w]) (auto simp: brings_bytes_def cp_read_def cp_stop_def set_copier_def split: if_splits)
  next
    case (Bumped w now)
    with s' show ?thesis
      by (intro rank_at [where w = w]) (auto simp: cp_bump_def set_copier_def split: copier.splits)
  next
    case (Written w)
    with s' show ?thesis
      by (intro rank_at [where w = w]) (auto simp: cp_write_def cp_stop_def set_copier_def Let_def split: copier.splits if_splits)
  next
    case (WriteFails w n)
    with s' show ?thesis
      by (intro rank_at [where w = w]) (auto simp: cp_fail_def cp_stop_def set_copier_def split: copier.splits)
  qed (use s' in \<open>auto simp: pump_rank_def main_done_def main_tick_def main_drain_def split: if_splits\<close>)
qed

lemma winding_ends: "wf {(s', s). winding s s'}"
  by (rule wf_subset [OF wf_measure [of pump_rank]]) (auto dest: winding_rank)

text \<open>Behind closed ends there is always a step left, until everything is gone.\<close>

lemma closed_moves:
  assumes ok: "pump_ok s" and main: "p_main s \<noteq> Waiting"
  shows "(\<exists>s'. winding s s') \<or> p_main s = Gone \<and> p_copier s ToA = Stopped \<and> p_copier s ToB = Stopped"
proof -
  have closed: "\<not> src_open w s" "\<not> dst_open w s" for w
    using pump_okD(3,4) [OF ok] main by (cases w; simp add: src_open_def dst_open_def)+
  have "\<exists>s'. winding s s'" if "p_copier s w \<noteq> Stopped" for w
  proof -
    have change: "p_copier s' w \<noteq> p_copier s w \<Longrightarrow> s' \<noteq> s" for s' by auto
    show ?thesis
    proof (cases "p_copier s w")
      case Reading
      with closed have "winding s (pump_step s (Read w [] True))"
        unfolding winding_def by (intro exI [of _ "Read w [] True"])
          (auto simp: brings_bytes_def cp_read_def cp_stop_def set_copier_def intro!: change)
      then show ?thesis ..
    next
      case (Got p err)
      then have "winding s (pump_step s (Bumped w 0))"
        unfolding winding_def by (intro exI [of _ "Bumped w 0"])
          (auto simp: brings_bytes_def cp_bump_def set_copier_def intro!: change)
      then show ?thesis ..
    next
      case (Writing p err)
      then have "winding s (pump_step s (WriteFails w 0))"
        unfolding winding_def by (intro exI [of _ "WriteFails w 0"])
          (auto simp: brings_bytes_def cp_fail_def cp_stop_def set_copier_def intro!: change)
      then show ?thesis ..
    qed (use that in simp)
  qed
  moreover have "\<exists>s'. winding s s'" if "p_main s \<noteq> Gone" "p_copier s ToA = Stopped"
  proof -
    have "p_main s = Draining" using that(1) main by (cases "p_main s") simp_all
    moreover have "0 < p_done s" using pump_okD(2) [OF ok] that by (simp add: stopped_def)
    ultimately have "p_main (main_drain s) \<noteq> p_main s" by (simp add: main_drain_def)
    then have "winding s (pump_step s Drain)"
      unfolding winding_def by (intro exI [of _ Drain]) (auto simp: brings_bytes_def)
    then show ?thesis ..
  qed
  ultimately show ?thesis by blast
qed

section \<open>Properties\<close>


text \<open>C21. A pump neither hangs nor leaks. Without new bytes it makes finitely many steps whatever their
  order; when one direction has ended, the waiter closes both ends at its next step; and behind
  closed ends there is always a step left until both copiers and the waiter are gone.\<close>

theorem pump_winds_down:
  "wf {(s', s). winding s s'} \<and>
   (let s = run pump_step (pump_start idle now) es in
     (p_main s = Waiting \<and> (p_copier s ToA = Stopped \<or> p_copier s ToB = Stopped) \<longrightarrow>
        p_main (pump_step s GetDone) = Gone) \<and>
     (p_main s \<noteq> Waiting \<longrightarrow> \<not> p_a s \<and> \<not> p_b s \<and>
        ((\<exists>s'. winding s s') \<or> p_main s = Gone \<and> p_copier s ToA = Stopped \<and> p_copier s ToB = Stopped)))"
proof -
  let ?s = "run pump_step (pump_start idle now) es"
  have ok: "pump_ok ?s" by (rule pumped.inv_run)
  have "p_main (pump_step ?s GetDone) = Gone"
    if "p_main ?s = Waiting" "p_copier ?s ToA = Stopped \<or> p_copier ?s ToB = Stopped"
    using that pump_okD(2) [OF ok] by (auto simp: main_done_def stopped_def)
  with winding_ends closed_moves [OF ok] pump_okD(3,4) [OF ok] show ?thesis by (auto simp: Let_def)
qed

section \<open>Runs\<close>

lemmas pump_run = pump_start_def idlePump_def pump_defs Let_def

text \<open>Thirty seconds of idle time, a tick every fifteen: a chunk after four seconds, then silence.\<close>

definition quiet_demo :: "pump_event list" where
  "quiet_demo = [Read ToA [0x41] False, Bumped ToA 4000000000, Written ToA, Tick 15000000000, Tick 30000000000,
     Tick 45000000000]"

lemma quiet_demo_run:
  assumes s: "s = run pump_step (pump_start 30000000000 0) quiet_demo"
  shows "p_main s = Draining" "p_out s ToA = [[0x41]]" "p_quiet s = Some (45000000000, [(ToA, 4000000000)])"
    "\<not> p_a s" "p_copier s ToA = Reading"
  by (simp_all add: s quiet_demo_def pump_run)


theorem pump_winds_down_witness:
  "let s = run pump_step (pump_start 30000000000 0) quiet_demo in \<not> p_a s \<and> \<not> p_b s \<and> (\<exists>s'. winding s s')"
proof -
  let ?s = "run pump_step (pump_start 30000000000 0) quiet_demo"
  note q = quiet_demo_run [OF refl]
  from pump_winds_down [of 30000000000 0 quiet_demo] have "p_main ?s \<noteq> Waiting \<longrightarrow> \<not> p_a ?s \<and> \<not> p_b ?s \<and>
      ((\<exists>s'. winding ?s s') \<or> p_main ?s = Gone \<and> p_copier ?s ToA = Stopped \<and> p_copier ?s ToB = Stopped)"
    unfolding Let_def by blast
  with q(1,5) show ?thesis by (simp add: Let_def)
qed

section \<open>Errors\<close>

text \<open>An idle time of one nanosecond is no interval for a ticker.\<close>

lemma one_nanosecond_panics: "idlePump idle now = None \<longleftrightarrow> idle = 1"
proof -
  have "idle div 2 \<le> 0 \<longleftrightarrow> idle = 1" if "0 < idle" using that by presburger
  then show ?thesis by (auto simp: idlePump_def)
qed

text \<open>The clock is set back: a line that has been silent for longer than \<open>idle\<close> stays open.\<close>

lemma clock_set_back_keeps_the_line:
  "p_main (run pump_step (pump_start 30000000000 100000000000) [Tick 115000000000, Tick 90000000000, Tick 105000000000,
     Tick 120000000000]) = Waiting"
  by (simp add: pump_run)

text \<open>The clock is set forward, by an hour: a line is closed three seconds after bytes have gone through.\<close>

lemma clock_set_forward_closes_a_busy_line:
  "let s = run pump_step (pump_start 30000000000 0) [Read ToA [0x41] False, Bumped ToA 12000000000, Written ToA,
     Tick 3615000000000] in p_main s = Draining \<and> \<not> p_a s \<and> \<not> p_b s"
  by (simp add: pump_run)

end
