(* ===== verification/Dial.thy ===== *)
theory Dial
  imports CommandQueue Pump
begin

text \<open>
  The client side of the relay (\<^verbatim>\<open>relayclient/relayclient.go\<close>, \<^verbatim>\<open>relay/relay.go\<close>, \<^verbatim>\<open>web/web.go\<close>):
  the URLs that are dialled and what the relay reads from them, the bridges of the machines, and the
  viewer that the web server hands on to a relay upstream. The answers of the network are arguments.
\<close>

section \<open>URLs\<close>

text \<open>\<^verbatim>\<open>url.QueryEscape\<close>\<close>

definition go_kept :: string where
  "go_kept = alnum @ ''-_.~''"

definition go_escape :: "string \<Rightarrow> string" where
  "go_escape s =
     concat (map (\<lambda>c. if c = CHR '' '' then ''+'' else if c \<in> set go_kept then [c] else pct c) s)"

text \<open>\<open>Dial_raw\<close> is the \<^verbatim>\<open>Dial\<close> of \<^verbatim>\<open>relay/relay.go\<close>, the other two that of \<^verbatim>\<open>relayclient\<close>.\<close>

definition Dial_raw :: "string \<Rightarrow> string \<Rightarrow> string \<Rightarrow> string" where
  "Dial_raw baseURL sid ro = baseURL @ ''/session?sid='' @ sid @ ''&role='' @ ro"

definition Dial :: "string \<Rightarrow> string \<Rightarrow> string \<Rightarrow> string" where
  "Dial baseURL sid ro = baseURL @ ''/session?sid='' @ go_escape sid @ ''&role='' @ ro"

definition DialSource :: "string \<Rightarrow> string \<Rightarrow> string" where
  "DialSource baseURL sid = Dial baseURL sid ''source''"

definition DialViewerFrom :: "string \<Rightarrow> string \<Rightarrow> string \<Rightarrow> string" where
  "DialViewerFrom baseURL sid sourcePC =
     baseURL @ ''/session?sid='' @ go_escape sid @ ''&role=viewer'' @
       (if sourcePC \<noteq> [] then ''&spc='' @ go_escape sourcePC else [])"

text \<open>The query that goes out: behind the first \<^verbatim>\<open>?\<close>, without the fragment.\<close>

definition url_query :: "string \<Rightarrow> string" where
  "url_query u = drop 1 (dropWhile (\<lambda>c. c \<noteq> CHR ''?'') (takeWhile (\<lambda>c. c \<noteq> CHR ''#'') u))"

text \<open>\<^verbatim>\<open>r.URL.Query().Get\<close>, and the request of a client that sends this bearer token.\<close>

definition Query_Get :: "string \<Rightarrow> string \<Rightarrow> string" where
  "Query_Get q k = (case map_of (go_form q) k of None \<Rightarrow> [] | Some v \<Rightarrow> v)"

definition request_of :: "string \<Rightarrow> string \<Rightarrow> session_request" where
  "request_of u tok = (let q = url_query u in
     \<lparr>q_sid = Query_Get q ''sid'', q_role = Query_Get q ''role'', q_bearer = tok, q_spc = Query_Get q ''spc''\<rparr>)"

section \<open>Bridges\<close>

text \<open>Returned with an error, with or without an open connection and an open local end; a panic; or pumping.\<close>

datatype bridge = Unconnected bool bool | Crashed | Bridged pumping

definition idle_bridge :: "int \<Rightarrow> int \<Rightarrow> bridge" where
  "idle_bridge quiet now = (case idlePump quiet now of None \<Rightarrow> Crashed | Some s \<Rightarrow> Bridged s)"

text \<open>\<^verbatim>\<open>relay/relay.go\<close> dials the local socket itself, \<^verbatim>\<open>relayclient\<close> is given an open local end.\<close>

definition BridgeSource :: "bool \<Rightarrow> bool \<Rightarrow> int \<Rightarrow> bridge" where
  "BridgeSource dialled local_ok now =
     (if \<not> dialled then Unconnected False False
      else if \<not> local_ok then Unconnected False False
      else Bridged (pump now))"

definition BridgeSourceIdle_unix :: "bool \<Rightarrow> bool \<Rightarrow> int \<Rightarrow> int \<Rightarrow> bridge" where
  "BridgeSourceIdle_unix dialled local_ok quiet now =
     (if \<not> dialled then Unconnected False False
      else if \<not> local_ok then Unconnected False False
      else idle_bridge quiet now)"

definition BridgeSourceIdle :: "bool \<Rightarrow> int \<Rightarrow> int \<Rightarrow> bridge" where
  "BridgeSourceIdle dialled quiet now = (if \<not> dialled then Unconnected False True else idle_bridge quiet now)"

section \<open>A relay upstream\<close>

text \<open>The environment variable, else the setting; \<open>None\<close> when that cannot be read.\<close>

definition relayUpstream :: "string \<Rightarrow> string option \<Rightarrow> string" where
  "relayUpstream env setting = (if env \<noteq> [] then env else case setting of None \<Rightarrow> [] | Some u \<Rightarrow> u)"

text \<open>A failed dial is answered with 502; a browser that does not upgrade ends it (\<open>None\<close>).\<close>

definition proxyViewer :: "string \<Rightarrow> string \<Rightarrow> string \<Rightarrow> string \<Rightarrow> (world \<Rightarrow> string \<Rightarrow> bool) \<Rightarrow> bool \<Rightarrow> int \<Rightarrow> world \<Rightarrow>
    world \<times> (nat + pumping option)" where
  "proxyViewer self upstream sid pc dial accepted now w =
     (let w = PutRelayGrant self sid ''viewer'' (seconds 120) w in
      (w, if \<not> dial w (DialViewerFrom upstream sid pc) then Inl 502
          else Inr (if accepted then Some (pump now) else None)))"

text \<open>\<^verbatim>\<open>wsViewer\<close> with its last lines: a status, the relay of this server under a key, or the proxy.\<close>

datatype viewing = Refuse nat | OwnRelay string | Proxied "pumping option"

definition wsViewer_any :: "string \<Rightarrow> string option \<Rightarrow> string \<Rightarrow> (world \<Rightarrow> string \<Rightarrow> bool) \<Rightarrow> bool \<Rightarrow> int \<Rightarrow> world \<Rightarrow>
    string option \<Rightarrow> string \<Rightarrow> string \<Rightarrow> world \<times> viewing" where
  "wsViewer_any env setting self dial accepted now w cookie pc sid = (case cookie of
     None \<Rightarrow> (w, Refuse 401)
   | Some scope \<Rightarrow> (case wsViewer w cookie pc sid of
       Inl status \<Rightarrow> (w, Refuse status)
     | Inr key \<Rightarrow>
         let up = relayUpstream env setting in
         if up \<noteq> []
         then (let (w', r) = proxyViewer self up sid (viewer_pc scope pc) dial accepted now w in
           (w', case r of Inl status \<Rightarrow> Refuse status | Inr p \<Rightarrow> Proxied p))
         else (w, OwnRelay key)))"

section \<open>What the relay reads\<close>

lemma go_kept_uri: "set go_kept \<subseteq> set uri_kept"
  by (simp add: go_kept_def uri_kept_def alnum_def)

lemma go_escape_chars: "set (go_escape s) \<subseteq> set enc_chars"
  using pct_chars go_kept_uri
  by (fastforce simp: go_escape_def enc_chars_def uri_kept_def split: if_splits)

lemma go_escape_plain:
  "CHR ''&'' \<notin> set (go_escape s)" "CHR ''='' \<notin> set (go_escape s)" "CHR ''?'' \<notin> set (go_escape s)"
  "CHR ''#'' \<notin> set (go_escape s)" "CHR '';'' \<notin> set (go_escape s)"
proof -
  have "CHR '';'' \<notin> set enc_chars" by (simp add: enc_chars_def uri_kept_def alnum_def)
  with go_escape_chars [of s] enc_chars_plain
  show "CHR ''&'' \<notin> set (go_escape s)" "CHR ''='' \<notin> set (go_escape s)" "CHR ''?'' \<notin> set (go_escape s)"
    "CHR ''#'' \<notin> set (go_escape s)" "CHR '';'' \<notin> set (go_escape s)" by blast+
qed

lemma go_unescape_escape: "go_unescape (go_escape s) = Some s"
proof (induction s)
  case (Cons c s)
  have step: "go_escape (c # s) =
      (if c = CHR '' '' then ''+'' else if c \<in> set go_kept then [c] else pct c) @ go_escape s"
    by (simp add: go_escape_def)
  have "c \<noteq> CHR ''%''" "c \<noteq> CHR ''+''" if "c \<in> set go_kept"
    using that go_kept_uri plus_kept by auto
  with Cons show ?case by (auto simp: step go_unescape_pct)
qed (simp add: go_escape_def)

lemma go_escape_kept: "list_all (\<lambda>c. c \<in> set alnum) s \<Longrightarrow> go_escape s = s"
proof (induction s)
  case (Cons c s)
  then have "c \<in> set go_kept" "c \<noteq> CHR '' ''" by (auto simp: go_kept_def alnum_def)
  with Cons show ?case by (simp add: go_escape_def)
qed (simp add: go_escape_def)

text \<open>A query of escaped pairs.\<close>

definition go_query :: "(string \<times> string) list \<Rightarrow> string" where
  "go_query kvs = str_join (CHR ''&'') (map (\<lambda>kv. go_escape (fst kv) @ CHR ''='' # go_escape (snd kv)) kvs)"

lemma go_pair_escape: "go_pair (go_escape k @ CHR ''='' # go_escape v) = Some (k, v)"
  by (simp add: go_pair_def go_escape_plain str_cut_def str_indexOf_char go_unescape_escape)

lemma go_form_query: "kvs \<noteq> [] \<Longrightarrow> go_form (go_query kvs) = kvs"
proof -
  assume "kvs \<noteq> []"
  then have "str_split CHR ''&'' (go_query kvs) = map (\<lambda>kv. go_escape (fst kv) @ CHR ''='' # go_escape (snd kv)) kvs"
    unfolding go_query_def by (intro str_split_join) (auto simp: go_escape_plain)
  then show ?thesis
    by (simp add: go_form_def map_filter_map_filter List.map_filter_def go_pair_escape comp_def)
qed

definition plain_base :: "string \<Rightarrow> bool" where
  "plain_base b \<longleftrightarrow> CHR ''?'' \<notin> set b \<and> CHR ''#'' \<notin> set b"

lemma url_query_of:
  assumes "plain_base b" "CHR ''#'' \<notin> set q"
  shows "url_query (b @ ''/session?'' @ q) = q"
proof -
  have hash: "takeWhile (\<lambda>c. c \<noteq> CHR ''#'') (b @ ''/session?'' @ q) = b @ ''/session?'' @ q"
    using assms by (intro takeWhile_eq_all_conv [THEN iffD2]) (auto simp: plain_base_def)
  have "dropWhile (\<lambda>c. c \<noteq> CHR ''?'') (b @ ''/session?'' @ q) = dropWhile (\<lambda>c. c \<noteq> CHR ''?'') (''/session?'' @ q)"
    using assms(1) by (intro dropWhile_append2) (auto simp: plain_base_def)
  then show ?thesis unfolding url_query_def hash by simp
qed

lemma names_kept: "go_escape ''sid'' = ''sid''" "go_escape ''role'' = ''role''" "go_escape ''spc'' = ''spc''"
  "go_escape ''viewer'' = ''viewer''" "go_escape ''source'' = ''source''"
  by (intro go_escape_kept; simp add: alnum_def)+

lemma Dial_query: "ro \<in> {''source'', ''viewer''} \<Longrightarrow> Dial b sid ro = b @ ''/session?'' @ go_query [(''sid'', sid), (''role'', ro)]"
  by (auto simp: Dial_def go_query_def names_kept)

lemma DialViewerFrom_query: "DialViewerFrom b sid pc = b @ ''/session?'' @
    go_query ([(''sid'', sid), (''role'', ''viewer'')] @ (if pc = [] then [] else [(''spc'', pc)]))"
  by (simp add: DialViewerFrom_def go_query_def names_kept)

lemma go_query_hash: "CHR ''#'' \<notin> set (go_query kvs)"
  by (auto simp: go_query_def go_escape_plain dest!: str_join_chars)

text \<open>The relay is asked for the session, the role and the machine that were dialled, whatever they contain.\<close>

lemma request_of_Dial:
  assumes "plain_base b" "ro \<in> {''source'', ''viewer''}"
  shows "request_of (Dial b sid ro) tok = \<lparr>q_sid = sid, q_role = ro, q_bearer = tok, q_spc = []\<rparr>"
  unfolding request_of_def Dial_query [OF assms(2)] url_query_of [OF assms(1) go_query_hash] Let_def
  by (simp add: Query_Get_def go_form_query)

lemma request_of_DialViewerFrom:
  assumes "plain_base b"
  shows "request_of (DialViewerFrom b sid pc) tok = \<lparr>q_sid = sid, q_role = ''viewer'', q_bearer = tok, q_spc = pc\<rparr>"
  unfolding request_of_def DialViewerFrom_query url_query_of [OF assms go_query_hash] Let_def
  by (simp add: Query_Get_def go_form_query)

section \<open>Properties\<close>

text \<open>C15. A browser that is handed on to a relay upstream meets the same source as on the server's own
  relay: within two minutes after the grant, and as long as the role of the machine stands and the
  server is not revoked, the relay at the other end of the URL that the proxy dials admits it as a
  viewer under the very key \<^verbatim>\<open>wsViewer\<close> computes, whatever the session and the machine are called.\<close>

theorem upstream_viewer_gets_the_same_key:
  assumes "wsViewer w (Some scope) pc sid = Inr key" "plain_base up" "w_up w ''relaygrants''"
    and "w' = fst (proxyViewer self up sid (viewer_pc scope pc) dial accepted now w)"
    and "w_relaygrants w'' (relayGrantID sid ''viewer'') = w_relaygrants w' (relayGrantID sid ''viewer'')"
    and "w_now w'' < w_now w' + seconds 120" "w_up w'' ''relaygrants''" "\<not> IsRevoked w'' self"
    and "PCRole w'' (viewer_pc scope pc) = PCRole w (viewer_pc scope pc)"
  shows "ServeHTTP g w'' (request_of (DialViewerFrom up sid (viewer_pc scope pc)) []) = Inr (key, Viewer)"
proof -
  let ?pc = "viewer_pc scope pc"
  let ?q = "\<lparr>q_sid = sid, q_role = ''viewer'', q_bearer = [], q_spc = ?pc\<rparr>"
  have ws: "sid \<noteq> []" "?pc \<noteq> []" "key = (if PCRole w ?pc = ''slave'' then slaveSessionKey ?pc sid else sid)"
    using assms(1) by (auto simp: wsViewer_def Let_def split: if_splits)
  have w': "w' = PutRelayGrant self sid ''viewer'' (seconds 120) w" using assms(4) by (simp add: proxyViewer_def Let_def)
  then have "w_relaygrants w' (relayGrantID sid ''viewer'') = Some (self, w_now w + seconds 120)" "w_now w' = w_now w"
    using assms(3) ws(1) by (simp_all add: PutRelayGrant_def)
  then have "CheckRelayGrant w'' sid ''viewer''" using assms(5-8) ws(1) by (simp add: CheckRelayGrant_def)
  moreover have "NewSlaveGate g w'' ?q = NotHandled" by (simp add: NewSlaveGate_def)
  moreover have "NewViewerKey w'' ?q = key" using ws assms(9) by (simp add: NewViewerKey_def)
  ultimately show ?thesis using ws(1) by (simp add: request_of_DialViewerFrom [OF assms(2)] ServeHTTP_def role_of_def)
qed

text \<open>The shared machine of the demo, a session with a name of the kind \<^verbatim>\<open>sid#inj@pc\<close>.\<close>

theorem upstream_viewer_gets_the_same_key_witness:
  "ServeHTTP demo_signing (fst (proxyViewer ''web'' ''wss://r'' ''s1#inj@p2'' ''p1'' (\<lambda>w u. True) True 0 demo_world'))
     (request_of (DialViewerFrom ''wss://r'' ''s1#inj@p2'' ''p1'') []) = Inr (slaveSessionKey ''p1'' ''s1#inj@p2'', Viewer)"
proof -
  let ?w' = "fst (proxyViewer ''web'' ''wss://r'' ''s1#inj@p2'' ''p1'' (\<lambda>w u. True) True 0 demo_world')"
  have pc: "viewer_pc accountScope ''p1'' = ''p1''" by (simp add: viewer_pc_def)
  have key: "wsViewer demo_world' (Some accountScope) ''p1'' ''s1#inj@p2'' = Inr (slaveSessionKey ''p1'' ''s1#inj@p2'')"
    by (simp add: wsViewer_def pc allows_def PCRole_def demo_world'_def demo_world_def Let_def)
  have base: "plain_base ''wss://r''" by (simp add: plain_base_def)
  have w': "?w' = PutRelayGrant ''web'' ''s1#inj@p2'' ''viewer'' (seconds 120) demo_world'"
    by (simp add: proxyViewer_def Let_def)
  have "w_now ?w' < w_now ?w' + seconds 120" "w_up ?w' ''relaygrants''" "\<not> IsRevoked ?w' ''web''"
    "PCRole ?w' ''p1'' = PCRole demo_world' ''p1''" "w_up demo_world' ''relaygrants''"
    unfolding w' by (simp_all add: PutRelayGrant_def seconds_def IsRevoked_def PCRole_def demo_world'_def demo_world_def)
  then show ?thesis
    using upstream_viewer_gets_the_same_key [OF key base _ refl refl, of "''web''" "\<lambda>w u. True" True 0 demo_signing]
    by (simp add: pc)
qed

text \<open>The \<^verbatim>\<open>Dial\<close> of \<^verbatim>\<open>relay/relay.go\<close> does not escape: a session \<^verbatim>\<open>sid#inj\<close> never arrives, the role is lost.\<close>

lemma raw_dial_loses_derived_sessions:
  "request_of (Dial_raw ''wss://r'' ''s1#inj'' ''source'') tok = \<lparr>q_sid = ''s1'', q_role = [], q_bearer = tok, q_spc = []\<rparr>"
  "ServeHTTP g w (request_of (Dial_raw ''wss://r'' ''s1#inj'' ''source'') tok) = Inl 400"
proof -
  have q: "url_query (Dial_raw ''wss://r'' ''s1#inj'' ''source'') = ''sid=s1''"
    by (simp add: url_query_def Dial_raw_def)
  have f: "go_form ''sid=s1'' = [(''sid'', ''s1'')]" by code_simp
  show "request_of (Dial_raw ''wss://r'' ''s1#inj'' ''source'') tok = \<lparr>q_sid = ''s1'', q_role = [], q_bearer = tok, q_spc = []\<rparr>"
    by (simp add: request_of_def q f Query_Get_def)
  then show "ServeHTTP g w (request_of (Dial_raw ''wss://r'' ''s1#inj'' ''source'') tok) = Inl 400"
    by (simp add: ServeHTTP_def)
qed

text \<open>A failed dial of \<^verbatim>\<open>relayclient\<close> returns with the local end still open.\<close>

lemma failed_dial_leaves_local_open: "BridgeSourceIdle False quiet now = Unconnected False True"
  by (simp add: BridgeSourceIdle_def)

text \<open>A failed bridge of \<^verbatim>\<open>relay/relay.go\<close> leaves nothing open; the two bridges pump alike.\<close>

lemma bridges_agree:
  "BridgeSourceIdle_unix True True quiet now = BridgeSourceIdle True quiet now"
  "quiet \<le> 0 \<Longrightarrow> BridgeSourceIdle_unix dialled local_ok quiet now = BridgeSource dialled local_ok now"
  by (simp_all add: BridgeSourceIdle_unix_def BridgeSourceIdle_def BridgeSource_def idle_bridge_def idlePump_def)

end
