(* ===== verification/EndToEnd.thy ===== *)
theory EndToEnd
  imports RelayPage Dial
begin

text \<open>
  The whole way between a machine and a page: the bridge of the machine (\<^verbatim>\<open>relayclient\<close>), the relay, and
  the page behind it, directly or through the proxy of the web server. Between two of them there is
  a connection of the network, which delivers what was written from its beginning on, in order; that
  is what the hypotheses that compare what came out of one part with what went into the next say.
  The end \<open>a\<close> of the bridge is its connection to the relay, the end \<open>a\<close> of the proxy that to the relay upstream.
\<close>

section \<open>Bytes on the way\<close>

text \<open>All the bytes that were written to connection \<open>q\<close>, those of a torn message included.\<close>

definition arrived :: "relay \<Rightarrow> nat \<Rightarrow> byte list" where
  "arrived r q = concat (map d_bytes (filter (\<lambda>d. d_to d = q) (r_log r)))"

lemma concat_prefix: "prefix xs ys \<Longrightarrow> prefix (concat xs) (concat ys)"
  by (auto simp: prefix_def)

lemma arrived_prefix:
  assumes ok: "relay_ok r" and pair: "only_pair r i q"
  shows "prefix (arrived r q) (concat (reads_of r i))" "prefix (arrived r i) (concat (reads_of r q))"
proof -
  have "arrived r q = concat (map d_bytes (sends r i))" "arrived r i = concat (map d_bytes (sends r q))"
    using pair_log [OF ok pair]
    by (auto simp: arrived_def sends_def intro!: arg_cong [where f = concat] arg_cong [where f = "map d_bytes"] filter_cong)
  with flow_prefix(1) [OF relay_okD(6) [OF ok]] pair
  show "prefix (arrived r q) (concat (reads_of r i))" "prefix (arrived r i) (concat (reads_of r q))"
    by (simp_all add: only_pair_def reads_of_def)
qed

lemma prefix_chain: "prefix a b \<Longrightarrow> prefix b c \<Longrightarrow> prefix c d \<Longrightarrow> prefix a d"
  by (meson prefix_order.trans)

section \<open>Properties\<close>

text \<open>C8. Nothing is lost, doubled or changed on the way. At every moment, whatever the reads, the order of
  all the goroutines, failures, timeouts and the end of the line, what has come out at the
  browser is a prefix of what the bridge has read from the machine, and what has come out at the
  machine is a prefix of what the proxy has read from the browser.\<close>

theorem nothing_changes_on_the_way:
  assumes "s = run relay_step NewServer as" "only_pair s i q"
    and "b = run pump_step (pump_start quiet t) bs" "v = run pump_step (pump t') vs"
    and "prefix (concat (reads_of s i)) (came_out b ToA)" "prefix (went_in v ToB) (arrived s q)"
    and "prefix (concat (reads_of s q)) (came_out v ToA)" "prefix (went_in b ToB) (arrived s i)"
  shows "prefix (came_out v ToB) (went_in b ToA) \<and> prefix (came_out b ToB) (went_in v ToA)"
proof -
  have ok: "relay_ok s" unfolding assms(1) by (rule relay.inv_run)
  have b: "prefix (came_out b w) (went_in b w)" for w unfolding assms(3) by (rule pump_prefix [OF pumped.inv_run])
  have v: "prefix (came_out v w) (went_in v w)" for w unfolding assms(4) pump_def by (rule pump_prefix [OF pumped.inv_run])
  note a = arrived_prefix [OF ok assms(2)]
  have "prefix (went_in v ToB) (went_in b ToA)" by (rule prefix_chain [OF assms(6) prefix_order.trans [OF a(1) assms(5)] b])
  moreover have "prefix (went_in b ToB) (went_in v ToA)"
    by (rule prefix_chain [OF assms(8) prefix_order.trans [OF a(2) assms(7)] v])
  ultimately show ?thesis using b v by (meson prefix_order.trans)
qed

text \<open>C6. From the producer to the terminal: when the bridge, the relay and, if the page is behind one, the
  proxy have passed on what the producer has written, and that is a stream of wire v2, the page
  shows exactly what \<^verbatim>\<open>connection_shows_stream\<close> says, wherever the stream was cut on the way.\<close>

theorem bridged_stream_shows:
  fixes g :: page_env and now :: rat and d :: data_path
  assumes "b = run pump_step (pump_start quiet t) bs" "p_copier b ToA = Reading" "went_in b ToA = v2_stream v hs l"
    and "s = run relay_step NewServer as" "only_pair s i q" "h_place (hand s i) = AtRead"
    and "concat (reads_of s i) = came_out b ToA"
    and "ms = messages s q \<or> (x = run pump_step (pump t') vs \<and> p_copier x ToB = Reading \<and>
      went_in x ToB = concat (messages s q) \<and> ms = p_out x ToB)"
    and "greets v c r" "plain hs" "plain l"
  shows "let e = snd (snd d); e' = snd (snd (run (on_data g now) (new_path d) ms)) in
    flatten op_symbols (e_log e') = flatten op_symbols (e_log e) @
      map Inr ((if e_v2 e then [] else [TScrollback 5000]) @ resize_op e c r @ reset_op e v) @
      map Inl (sync_spec ((if m_histDone (fst d) then [] else hs) @ l)) \<and>
    e_v2 e' \<and> e_cols e' = c \<and> e_rows e' = r \<and> e_histGot e' = (e_histGot e \<or> brings_history v)"
proof -
  have "came_out b ToA = went_in b ToA"
    using pump_idle_copier(2) [OF pumped.inv_run, of quiet t bs ToA] assms(1,2) by simp
  moreover have "messages s q = reads_of s i"
    using pair_is_a_pipe(1) [OF relay.inv_run, of as i q] assms(4-6) by simp
  ultimately have direct: "concat (messages s q) = v2_stream v hs l" using assms(3,7) by simp
  have "concat ms = v2_stream v hs l"
    using assms(8)
  proof (elim disjE conjE)
    assume x: "x = run pump_step (pump t') vs" "p_copier x ToB = Reading" "went_in x ToB = concat (messages s q)" "ms = p_out x ToB"
    have "p_out x ToB = p_in x ToB"
      using pump_idle_copier(1) [OF pumped.inv_run, of 0 t' vs ToB] x(1,2) by (simp add: pump_def)
    with x(3,4) direct show ?thesis by (simp add: went_in_def)
  qed (simp add: direct)
  from connection_ops [OF assms(9-11) this, of g now d] show ?thesis by (simp add: Let_def)
qed

text \<open>C7. From the user to the producer: when the page has accepted these inputs, and what one of its
  sockets sent has passed the proxy, if there is one, the relay and the bridge, then what the
  machine gets is taken apart, as one stream, into the greeting, the page's size and a
  consecutive part of the inputs.\<close>

theorem bridged_input_decodes:
  assumes "c = page_run g (clampNum qrows 500) (clampNum qcols 160) d now vs" "n < length (c_socks c)"
    and "k_opened (c_socks c ! n)" "list_all input_ok us" "c_accepted c = map input_bytes us"
    and "sent = concat (k_sent (c_socks c ! n)) \<or> (x = run pump_step (pump t') xs \<and> p_copier x ToA = Reading \<and>
      went_in x ToA = concat (k_sent (c_socks c ! n)) \<and> sent = came_out x ToA)"
    and "s = run relay_step NewServer as" "only_pair s i q" "h_place (hand s q) = AtRead" "concat (reads_of s q) = sent"
    and "b = run pump_step (pump_start quiet t) bs" "p_copier b ToB = Reading" "went_in b ToB = concat (messages s i)"
  shows "\<exists>got ks. sublist ks us \<and> decode_stream (came_out b ToB) =
    Some (greeting_items (clampNum qrows 500) (clampNum qcols 160) got @ concat (map input_items ks))"
proof -
  have "sent = concat (k_sent (c_socks c ! n))"
    using assms(6)
  proof (elim disjE conjE)
    assume x: "x = run pump_step (pump t') xs" "p_copier x ToA = Reading"
      "went_in x ToA = concat (k_sent (c_socks c ! n))" "sent = came_out x ToA"
    then show ?thesis using pump_idle_copier(2) [OF pumped.inv_run, of 0 t' xs ToA] by (simp add: pump_def)
  qed
  with assms(10) have r: "concat (reads_of s q) = concat (k_sent (c_socks c ! n))" by simp
  have "came_out b ToB = concat (messages s i)"
    using pump_idle_copier(2) [OF pumped.inv_run, of quiet t bs ToB] assms(11-13) by simp
  with relayed_input_decodes [OF assms(7-9,1-3) r assms(4,5)] show ?thesis by simp
qed

section \<open>Witnesses\<close>

text \<open>A pump that has passed on one chunk.\<close>

definition carry :: "way \<Rightarrow> byte list \<Rightarrow> pump_event list" where
  "carry w p = [Read w p False, Bumped w 0, Written w]"

lemma carry_run:
  assumes s: "s = run pump_step (pump_start quiet t) (carry w p)" and p: "p \<noteq> []" "length p \<le> 32768"
  shows "p_copier s w' = Reading" "p_out s w = [p]" "went_in s w = p" "came_out s w = p"
    "w' \<noteq> w \<Longrightarrow> came_out s w' = []" "w' \<noteq> w \<Longrightarrow> went_in s w' = []"
  using p by (cases w; cases w'; simp add: s carry_def pump_run came_out_def went_in_def)+

definition there_and_back :: "pump_event list" where
  "there_and_back = carry ToA [0x41, 0x42] @ carry ToB [0x6c, 0x73]"

definition back_and_there :: "pump_event list" where
  "back_and_there = carry ToB [0x41, 0x42] @ carry ToA [0x6c, 0x73]"

theorem nothing_changes_on_the_way_witness:
  "let v = run pump_step (pump 0) back_and_there; b = run pump_step (pump_start 30000000000 0) there_and_back in
    prefix (came_out v ToB) (went_in b ToA) \<and> prefix (came_out b ToB) (went_in v ToA) \<and> came_out v ToB = [0x41, 0x42]"
proof -
  let ?s = "run relay_step NewServer (joined [0x41] [0x42] [0x6c] [0x73])"
  let ?v = "run pump_step (pump 0) back_and_there" and ?b = "run pump_step (pump_start 30000000000 0) there_and_back"
  have "[0x41] \<noteq> ([] :: byte list)" "[0x42] \<noteq> ([] :: byte list)" "[0x6c] \<noteq> ([] :: byte list)" "[0x73] \<noteq> ([] :: byte list)"
    "length [0x41 :: byte] \<le> 32768" "length [0x42 :: byte] \<le> 32768" "length [0x6c :: byte] \<le> 32768"
    "length [0x73 :: byte] \<le> 32768" by simp_all
  note st = joined_state [OF this refl]
  have arr: "arrived ?s 1 = [0x41, 0x42]" "arrived ?s 0 = [0x6c, 0x73]"
    by (simp_all add: arrived_def joined_def run_defs Let_def)
  have v: "came_out ?v ToA = [0x6c, 0x73]" "went_in ?v ToB = [0x41, 0x42]" "came_out ?v ToB = [0x41, 0x42]"
    and b: "came_out ?b ToA = [0x41, 0x42]" "went_in ?b ToB = [0x6c, 0x73]"
    by (simp_all add: there_and_back_def back_and_there_def carry_def pump_run pump_def came_out_def went_in_def)
  have "prefix (concat (reads_of ?s 0)) (came_out ?b ToA)" "prefix (went_in ?v ToB) (arrived ?s 1)"
    "prefix (concat (reads_of ?s 1)) (came_out ?v ToA)" "prefix (went_in ?b ToB) (arrived ?s 0)"
    unfolding st(4,5) arr v b by simp_all
  from nothing_changes_on_the_way [OF refl st(1) refl refl this] show ?thesis using v(3) unfolding Let_def by blast
qed

theorem bridged_stream_shows_witness:
  "let p = v2_stream demo_greeting [0x41, 0x42] [0x43];
       x = run pump_step (pump 0) (carry ToB p);
       e = snd (snd (run (on_data demo_env 0) (new_path (page_init 160 500 600)) (p_out x ToB)))
   in e_cols e = 80 \<and> e_histGot e \<and>
      flatten op_symbols (e_log e) = [Inr (TScrollback 5000), Inr (TResize 80 24),
        Inl (Byte 0x41), Inl (Byte 0x42), Inl (Byte 0x43)]"
proof -
  let ?p = "v2_stream demo_greeting [0x41, 0x42] [0x43]"
  let ?b = "run pump_step (pump_start 30000000000 0) (carry ToA ?p)" and ?x = "run pump_step (pump 0) (carry ToB ?p)"
  let ?s = "run relay_step NewServer (joined (take 1 ?p) (drop 1 ?p) HELLO_V2 [0x6c])"
  have len: "2 \<le> length ?p" "length ?p \<le> 100" by (simp_all add: v2_stream_def osc_def OSC_def ST_def)
  have "take 1 ?p \<noteq> []" "drop 1 ?p \<noteq> []" "HELLO_V2 \<noteq> []" "[0x6c] \<noteq> ([] :: byte list)"
    "length (take 1 ?p) \<le> 32768" "length (drop 1 ?p) \<le> 32768" "length HELLO_V2 \<le> 32768"
    "length [0x6c :: byte] \<le> 32768"
    using len by (auto simp: HELLO_V2_def simp del: One_nat_def)
  note st = joined_state [OF this refl]
  have p: "?p \<noteq> []" "length ?p \<le> 32768" using len by auto
  note b = carry_run [OF refl p, where quiet = 30000000000 and t = 0 and w = ToA] and x = carry_run [OF refl p, where quiet = 0 and t = 0 and w = ToB, folded pump_def]
  have r: "concat (reads_of ?s 0) = ?p" unfolding st(4) by simp
  have m: "messages ?s 1 = reads_of ?s 0" by (rule pair_is_a_pipe(1) [OF relay.inv_run st(1,2)])
  have "p_out ?x ToB = messages ?s 1 \<or> (?x = run pump_step (pump 0) (carry ToB ?p) \<and> p_copier ?x ToB = Reading \<and>
      went_in ?x ToB = concat (messages ?s 1) \<and> p_out ?x ToB = p_out ?x ToB)"
    unfolding m r x(3) using x(1) by blast
  note T = bridged_stream_shows [OF refl b(1,3) refl st(1,2) trans [OF r b(4) [symmetric]] this demo_greets(1) plain_A plain_B,
      where g = demo_env and now = 0 and d = "page_init 160 500 600"]
  have "sync_spec [0x41, 0x42, 0x43] = [Byte 0x41, Byte 0x42, Byte 0x43]" by code_simp
  moreover have "resize_op (term_init 160 500 600) 80 24 = [TResize 80 24]" "reset_op (term_init 160 500 600) demo_greeting = []"
    by (simp_all add: resize_op_def reset_op_def term_init_def)
  ultimately show ?thesis
    using T demo_greets(2) by (simp add: Let_def page_init_def term_init_def meta_init_def del: run.simps)
qed

theorem bridged_input_decodes_witness:
  "\<exists>got ks. sublist ks [Typed ''ls''] \<and>
     decode_stream (came_out (run pump_step (pump_start 30000000000 0)
       (carry ToB (HELLO_V2 @ resizeFrame 500 160 @ [0x6c, 0x73]))) ToB) =
     Some (greeting_items 500 160 got @ concat (map input_items ks))"
proof -
  let ?s = "run relay_step NewServer (joined [0x41] [0x42] HELLO_V2 (resizeFrame 500 160 @ [0x6c, 0x73]))"
  let ?c = "page_run demo_env (clampNum None 500) (clampNum None 160) (page_init 160 500 0) 0 [SockOpen 0, Input [0x6c, 0x73]]"
  let ?b = "run pump_step (pump_start 30000000000 0) (carry ToB (HELLO_V2 @ resizeFrame 500 160 @ [0x6c, 0x73]))"
  let ?sent = "concat (k_sent (c_socks ?c ! 0))"
  have grid: "clampNum None 500 = 500" "clampNum None 160 = 160" by code_simp+
  have "[0x41] \<noteq> ([] :: byte list)" "[0x42] \<noteq> ([] :: byte list)" "HELLO_V2 \<noteq> []" "resizeFrame 500 160 @ [0x6c, 0x73] \<noteq> []"
    "length [0x41 :: byte] \<le> 32768" "length [0x42 :: byte] \<le> 32768" "length HELLO_V2 \<le> 32768"
    "length (resizeFrame 500 160 @ [0x6c, 0x73]) \<le> 32768"
    by (simp_all add: HELLO_V2_def resizeFrame_def)
  note st = joined_state [OF this refl]
  have c: "0 < length (c_socks ?c)" "k_opened (c_socks ?c ! 0)" "c_accepted ?c = map input_bytes [Typed ''ls'']"
    "concat (reads_of ?s 1) = ?sent"
    using demo_typed st(5) by (simp_all add: grid Let_def byte_of_char_def del: run.simps)
  have "HELLO_V2 @ resizeFrame 500 160 @ [0x6c, 0x73] \<noteq> []" "length (HELLO_V2 @ resizeFrame 500 160 @ [0x6c, 0x73]) \<le> 32768"
    by (simp_all add: HELLO_V2_def resizeFrame_def)
  note b = carry_run [OF refl this, where quiet = 30000000000 and t = 0 and w = ToB]
  have "messages ?s 0 = reads_of ?s 1" by (rule pair_is_a_pipe(2) [OF relay.inv_run st(1,3)])
  then have w: "went_in ?b ToB = concat (messages ?s 0)" unfolding b(3) st(5) by simp
  have "list_all input_ok [Typed ''ls'']" by simp
  from bridged_input_decodes [OF refl c(1,2) this c(3) disjI1 [OF refl] refl st(1,3) c(4) refl b(1) w]
  show ?thesis by (simp add: grid del: run.simps)
qed

end
