(* ===== verification/SessionStore.thy ===== *)
theory SessionStore
  imports Prelude "HOL-Library.Char_ord" "HOL-Library.List_Lexorder"
begin

text \<open>
  The documents of the sessions (\<^verbatim>\<open>state/pushcache.go\<close>, \<^verbatim>\<open>state/state.go\<close>, \<^verbatim>\<open>state/slave.go\<close>): what an
  agent, or the server for a shared machine, pushes at every tick, and the memory in the process that
  saves it from reading and writing what has not changed. Other processes change the documents at
  any time. Each session of a push is one step; how its reads and writes can be taken apart is
  shown at the end. Times are nanoseconds.
\<close>

section \<open>Documents\<close>

text \<open>A value of \<^verbatim>\<open>map[string]any\<close>; what is no string, truth value or integer is kept as its JSON text.\<close>

datatype any = AStr string | ABool bool | AInt int | AJson string

type_synonym fields = "string \<rightharpoonup> any"

definition strField :: "fields \<Rightarrow> string \<Rightarrow> string" where
  "strField m k = (case m k of Some (AStr s) \<Rightarrow> s | _ \<Rightarrow> [])"

definition boolField :: "fields \<Rightarrow> string \<Rightarrow> bool" where
  "boolField m k = (case m k of Some (ABool b) \<Rightarrow> b | _ \<Rightarrow> False)"

definition sessionKey :: "fields \<Rightarrow> string" where
  "sessionKey m =
     (if strField m ''key'' \<noteq> [] then strField m ''key''
      else if strField m ''session_id'' \<noteq> [] then strField m ''session_id''
      else ''unknown'')"

text \<open>The content: all but the three fields the store writes itself. \<open>sha\<close> is the hash of its JSON.\<close>

definition content :: "fields \<Rightarrow> fields" where
  "content m = (\<lambda>k. if k \<in> {''version'', ''updated_at'', ''content_hash''} then None else m k)"

definition contentHash :: "(fields \<Rightarrow> 'h) \<Rightarrow> fields \<Rightarrow> 'h" where
  "contentHash sha m = sha (content m)"

text \<open>A document of \<^verbatim>\<open>pcs/{pc}/sessions\<close>: content, version and hash (another writer may not store one).\<close>

record 'h push_doc =
  x_fields :: fields
  x_version :: int
  x_hash :: "'h option"

text \<open>A collection lists its documents in the order of their ids.\<close>

type_synonym 'a collection = "(string \<times> 'a) list"

fun coll_put :: "string \<Rightarrow> 'a \<Rightarrow> 'a collection \<Rightarrow> 'a collection" where
  "coll_put k v [] = [(k, v)]"
| "coll_put k v ((k', v') # xs) =
     (if k = k' then (k, v) # xs else if k < k' then (k, v) # (k', v') # xs else (k', v') # coll_put k v xs)"

definition coll_del :: "string \<Rightarrow> 'a collection \<Rightarrow> 'a collection" where
  "coll_del k xs = filter (\<lambda>p. fst p \<noteq> k) xs"

section \<open>The memory\<close>

record 'h push_entry =
  e_hash :: 'h
  e_version :: int
  e_verifiedAt :: int

definition PushVerifyEvery :: int where
  "PushVerifyEvery = 600000000000"

definition cache_key :: "string \<Rightarrow> string \<Rightarrow> string" where
  "cache_key pc i = pc @ ''/'' @ i"

text \<open>
  \<open>st_docs\<close> are the sessions of each machine, \<open>st_pcs\<close> the documents \<^verbatim>\<open>pcs/{pc}\<close>. History: the numbers
  of documents read and written by pushes, and when and where other processes changed a session.
\<close>

record 'h store =
  st_docs :: "string \<Rightarrow> 'h push_doc collection"
  st_pcs :: "fields collection"
  st_cache :: "string \<rightharpoonup> 'h push_entry"
  st_gets :: nat
  st_sets :: nat
  st_changes :: "(int \<times> string \<times> string) list"

definition store_init :: "'h store" where
  "store_init = \<lparr>st_docs = (\<lambda>pc. []), st_pcs = [], st_cache = Map.empty, st_gets = 0, st_sets = 0, st_changes = []\<rparr>"

abbreviation doc_at :: "'h store \<Rightarrow> string \<Rightarrow> string \<Rightarrow> 'h push_doc option" where
  "doc_at s pc i \<equiv> map_of (st_docs s pc) i"

definition remember :: "string \<Rightarrow> 'h push_entry \<Rightarrow> 'h store \<Rightarrow> 'h store" where
  "remember ck e s = s\<lparr>st_cache := (st_cache s)(ck \<mapsto> e)\<rparr>"

definition forget :: "string \<Rightarrow> 'h store \<Rightarrow> 'h store" where
  "forget ck s = s\<lparr>st_cache := (st_cache s)(ck := None)\<rparr>"

definition forgetPC :: "string \<Rightarrow> 'h store \<Rightarrow> 'h store" where
  "forgetPC pc s = s\<lparr>st_cache := (\<lambda>k. if prefix (pc @ ''/'') k then None else st_cache s k)\<rparr>"

definition put_doc :: "string \<Rightarrow> string \<Rightarrow> 'h push_doc \<Rightarrow> 'h store \<Rightarrow> 'h store" where
  "put_doc pc i d s = s\<lparr>st_docs := (st_docs s)(pc := coll_put i d (st_docs s pc))\<rparr>"

definition del_doc :: "string \<Rightarrow> string \<Rightarrow> 'h store \<Rightarrow> 'h store" where
  "del_doc pc i s = s\<lparr>st_docs := (st_docs s)(pc := coll_del i (st_docs s pc))\<rparr>"

section \<open>Pushes\<close>

text \<open>The answers of Firestore: a read fails or not; a write is done, fails, or fails and is done all the same.\<close>

datatype write_answer = Done | Undone | Unsure

text \<open>The memory says that nothing has changed.\<close>

definition push_hit :: "int \<Rightarrow> int \<Rightarrow> string \<Rightarrow> 'h \<Rightarrow> 'h store \<Rightarrow> bool" where
  "push_hit verify now ck h s = (case st_cache s ck of
     Some e \<Rightarrow> e_hash e = h \<and> now - e_verifiedAt e < verify
   | None \<Rightarrow> False)"

text \<open>From the document that was read: it is up to date at this version, or is to be written with that one.\<close>

datatype push_plan = Keep int | Put int

definition push_decide :: "'h \<Rightarrow> 'h push_doc option \<Rightarrow> push_plan" where
  "push_decide h got = (case got of
     Some d \<Rightarrow> if x_hash d = Some h then Keep (x_version d) else Put (x_version d + 1)
   | None \<Rightarrow> Put 1)"

text \<open>The session is looked up and, unless it is up to date, written: the store, whether it counts as
  changed, and whether the push fails.\<close>

definition push_checked :: "(fields \<Rightarrow> 'h) \<Rightarrow> int \<Rightarrow> string \<Rightarrow> fields \<Rightarrow> bool \<Rightarrow> write_answer \<Rightarrow> 'h store \<Rightarrow>
    'h store \<times> bool \<times> bool" where
  "push_checked sha now pc m readable w s =
     (let i = sessionKey m; h = contentHash sha m; ck = cache_key pc i; s1 = s\<lparr>st_gets := Suc (st_gets s)\<rparr> in
      (case push_decide h (if readable then doc_at s pc i else None) of
         Keep ver \<Rightarrow> (remember ck \<lparr>e_hash = h, e_version = ver, e_verifiedAt = now\<rparr> s1, False, False)
       | Put ver \<Rightarrow>
           let d = \<lparr>x_fields = content m, x_version = ver, x_hash = Some h\<rparr>;
               s2 = s1\<lparr>st_sets := Suc (st_sets s1)\<rparr> in
           (case w of
              Done \<Rightarrow> (remember ck \<lparr>e_hash = h, e_version = ver, e_verifiedAt = now\<rparr> (put_doc pc i d s2), True, False)
            | Undone \<Rightarrow> (forget ck s2, True, True)
            | Unsure \<Rightarrow> (forget ck (put_doc pc i d s2), True, True))))"

definition push_one :: "(fields \<Rightarrow> 'h) \<Rightarrow> int \<Rightarrow> int \<Rightarrow> string \<Rightarrow> fields \<Rightarrow> bool \<Rightarrow> write_answer \<Rightarrow> 'h store \<Rightarrow>
    'h store \<times> bool \<times> bool" where
  "push_one sha verify now pc m readable w s =
     (if push_hit verify now (cache_key pc (sessionKey m)) (contentHash sha m) s then (s, False, False)
      else push_checked sha now pc m readable w s)"

fun push_list :: "(fields \<Rightarrow> 'h) \<Rightarrow> int \<Rightarrow> int \<Rightarrow> string \<Rightarrow> (fields \<times> bool \<times> write_answer) list \<Rightarrow> 'h store \<Rightarrow>
    'h store \<times> nat \<times> bool" where
  "push_list sha verify now pc [] s = (s, 0, False)"
| "push_list sha verify now pc ((m, readable, w) # xs) s =
     (let (s, changed, err) = push_one sha verify now pc m readable w s; n = (if changed then 1 else 0) in
      if err then (s, n, True)
      else (let (s, n', err) = push_list sha verify now pc xs s in (s, n + n', err)))"

text \<open>The document of the machine is written after a change, other fields of it kept; errors are ignored.\<close>

definition touch_pc :: "string \<Rightarrow> 'h store \<Rightarrow> 'h store" where
  "touch_pc pc s = s\<lparr>st_pcs := coll_put pc
     ((case map_of (st_pcs s) pc of None \<Rightarrow> Map.empty | Some m \<Rightarrow> m)(''id'' \<mapsto> AStr pc, ''agent_kind'' \<mapsto> AStr ''herdr-drover''))
     (st_pcs s)\<rparr>"

definition pushSessions :: "(fields \<Rightarrow> 'h) \<Rightarrow> int \<Rightarrow> int \<Rightarrow> string \<Rightarrow> (fields \<times> bool \<times> write_answer) list \<Rightarrow> bool \<Rightarrow>
    'h store \<Rightarrow> 'h store \<times> nat \<times> bool" where
  "pushSessions sha verify now pc xs touched s =
     (let (s, n, err) = push_list sha verify now pc xs s in
      if err then (s, n, True)
      else (if 0 < n \<and> touched then touch_pc pc s else s, n, False))"

section \<open>Deletions\<close>

definition DeleteSessionFor :: "string \<Rightarrow> string \<Rightarrow> bool \<Rightarrow> 'h store \<Rightarrow> 'h store" where
  "DeleteSessionFor pc i deleted s =
     (if i = [] then s
      else let s = forget (cache_key pc i) s in if deleted then del_doc pc i s else s)"

text \<open>\<open>kept\<close> are the documents whose deletion fails, or all when they cannot be listed.\<close>

definition deletePC :: "string \<Rightarrow> (string \<Rightarrow> bool) \<Rightarrow> bool \<Rightarrow> 'h store \<Rightarrow> 'h store" where
  "deletePC pc kept deleted s =
     (if pc = [] then s
      else s\<lparr>st_docs := (st_docs s)(pc := filter (\<lambda>p. kept (fst p)) (st_docs s pc)),
             st_pcs := (if deleted then coll_del pc (st_pcs s) else st_pcs s)\<rparr>)"

definition DeletePCByID :: "string \<Rightarrow> (string \<Rightarrow> bool) \<Rightarrow> bool \<Rightarrow> 'h store \<Rightarrow> 'h store" where
  "DeletePCByID pc kept deleted s = deletePC pc kept deleted (forgetPC pc s)"

section \<open>Reads\<close>

text \<open>What can be read: the list of machines, the sessions of a machine, its document.\<close>

datatype reading = Machines | SessionsOf string | MachineDoc string

definition ListPCs :: "(reading \<Rightarrow> bool) \<Rightarrow> 'h store \<Rightarrow> string list option" where
  "ListPCs up s = (if up Machines then Some (map fst (st_pcs s)) else None)"

text \<open>The contents; version, time and hash, which the store adds, are left out.\<close>

definition ListSessions :: "(reading \<Rightarrow> bool) \<Rightarrow> string \<Rightarrow> 'h store \<Rightarrow> fields list option" where
  "ListSessions up pc s = (if up (SessionsOf pc) then Some (map (\<lambda>p. x_fields (snd p)) (st_docs s pc)) else None)"

definition PCVersion :: "(reading \<Rightarrow> bool) \<Rightarrow> string \<Rightarrow> 'h store \<Rightarrow> string" where
  "PCVersion up pc s = (case map_of (st_pcs s) pc of
     Some m \<Rightarrow> if up (MachineDoc pc) then strField m ''cm_version'' else []
   | None \<Rightarrow> [])"

section \<open>Runs\<close>

text \<open>What this process does, session by session, and the changes of others (\<open>None\<close>: a deletion).\<close>

datatype 'h store_event =
    Push int string fields bool write_answer
  | Touch string
  | DelSession string string bool
  | DelPC string "string \<Rightarrow> bool" bool
  | Outside int string string "'h push_doc option"

fun store_step :: "(fields \<Rightarrow> 'h) \<Rightarrow> int \<Rightarrow> 'h store \<Rightarrow> 'h store_event \<Rightarrow> 'h store" where
  "store_step sha verify s (Push now pc m readable w) = fst (push_one sha verify now pc m readable w s)"
| "store_step sha verify s (Touch pc) = touch_pc pc s"
| "store_step sha verify s (DelSession pc i deleted) = DeleteSessionFor pc i deleted s"
| "store_step sha verify s (DelPC pc kept deleted) = DeletePCByID pc kept deleted s"
| "store_step sha verify s (Outside t pc i d) =
     (case d of None \<Rightarrow> del_doc pc i s | Some d \<Rightarrow> put_doc pc i d s)\<lparr>st_changes := (t, pc, i) # st_changes s\<rparr>"

lemmas store_defs = remember_def forget_def forgetPC_def put_doc_def del_doc_def touch_pc_def DeleteSessionFor_def
  deletePC_def DeletePCByID_def

section \<open>Collections\<close>

lemma map_of_coll_put [simp]: "map_of (coll_put k v xs) = (map_of xs)(k \<mapsto> v)"
  by (induction k v xs rule: coll_put.induct) (auto simp: fun_eq_iff)

lemma map_of_filter_key: "map_of (filter (\<lambda>p. P (fst p)) xs) k = (if P k then map_of xs k else None)"
  by (induction xs) auto

lemma map_of_coll_del [simp]: "map_of (coll_del k xs) = (map_of xs)(k := None)"
  using map_of_filter_key [of "\<lambda>x. x \<noteq> k" xs] by (auto simp: coll_del_def)

lemma coll_put_keys: "set (map fst (coll_put k v xs)) = insert k (set (map fst xs))"
  by (induction k v xs rule: coll_put.induct) auto

lemma coll_put_sorted: "sorted_wrt (<) (map fst xs) \<Longrightarrow> sorted_wrt (<) (map fst (coll_put k v xs))"
proof (induction k v xs rule: coll_put.induct)
  case (2 k v k' v' xs)
  then show ?case using coll_put_keys [of k v xs] by (auto dest: order.strict_trans)
qed simp

lemma filter_sorted: "sorted_wrt (<) (map fst xs) \<Longrightarrow> sorted_wrt (<) (map fst (filter P xs))"
  by (induction xs) auto

section \<open>What the memory knows\<close>

definition plain_pc :: "string \<Rightarrow> bool" where
  "plain_pc pc \<longleftrightarrow> CHR ''/'' \<notin> set pc"

lemma cache_key_inj: "plain_pc pc \<Longrightarrow> plain_pc pc' \<Longrightarrow> cache_key pc i = cache_key pc' i' \<longleftrightarrow> pc = pc' \<and> i = i'"
proof -
  have "takeWhile (\<lambda>c. c \<noteq> CHR ''/'') (cache_key pc i) = pc" if "plain_pc pc" for pc i
    unfolding cache_key_def using that by (subst takeWhile_append2) (auto simp: plain_pc_def)
  then show "plain_pc pc \<Longrightarrow> plain_pc pc' \<Longrightarrow> cache_key pc i = cache_key pc' i' \<longleftrightarrow> pc = pc' \<and> i = i'"
    by (metis cache_key_def same_append_eq)
qed

lemma prefix_cache_key: "plain_pc pc \<Longrightarrow> plain_pc pc' \<Longrightarrow> prefix (pc @ ''/'') (cache_key pc' i) \<longleftrightarrow> pc' = pc"
proof -
  assume pc: "plain_pc pc" "plain_pc pc'"
  have "pc' = pc" if "prefix (pc @ ''/'') (cache_key pc' i)"
  proof -
    from that obtain j where "cache_key pc' i = cache_key pc j" by (auto simp: prefix_def cache_key_def)
    with pc show ?thesis by (simp add: cache_key_inj)
  qed
  then show ?thesis by (auto simp: cache_key_def)
qed

text \<open>An entry tells the truth, or somebody else has changed the document since it was verified.\<close>

definition entry_ok :: "'h store \<Rightarrow> string \<Rightarrow> string \<Rightarrow> 'h push_entry \<Rightarrow> bool" where
  "entry_ok s pc i e \<longleftrightarrow>
     (\<exists>d. doc_at s pc i = Some d \<and> x_hash d = Some (e_hash e) \<and> x_version d = e_version e) \<or>
     (\<exists>t. (t, pc, i) \<in> set (st_changes s) \<and> e_verifiedAt e \<le> t)"

definition cache_ok :: "'h store \<Rightarrow> bool" where
  "cache_ok s \<longleftrightarrow> (\<forall>pc i e. plain_pc pc \<longrightarrow> st_cache s (cache_key pc i) = Some e \<longrightarrow> entry_ok s pc i e)"

definition honest :: "(fields \<Rightarrow> 'h) \<Rightarrow> 'h push_doc \<Rightarrow> bool" where
  "honest sha d \<longleftrightarrow> (\<forall>h. x_hash d = Some h \<longrightarrow> h = sha (x_fields d))"

definition docs_honest :: "(fields \<Rightarrow> 'h) \<Rightarrow> 'h store \<Rightarrow> bool" where
  "docs_honest sha s \<longleftrightarrow> (\<forall>pc i d. doc_at s pc i = Some d \<longrightarrow> honest sha d)"

definition clocked :: "int \<Rightarrow> 'h store \<Rightarrow> bool" where
  "clocked clock s \<longleftrightarrow> (\<forall>k e. st_cache s k = Some e \<longrightarrow> e_verifiedAt e \<le> clock)"

text \<open>Changes of others come after the pushes before them; names have no slash; others hash as we do.\<close>

fun store_run_ok :: "(fields \<Rightarrow> 'h) \<Rightarrow> int \<Rightarrow> 'h store_event list \<Rightarrow> bool" where
  "store_run_ok sha clock [] = True"
| "store_run_ok sha clock (Push now pc m readable w # es) \<longleftrightarrow> plain_pc pc \<and> store_run_ok sha (max clock now) es"
| "store_run_ok sha clock (Touch pc # es) \<longleftrightarrow> store_run_ok sha clock es"
| "store_run_ok sha clock (DelSession pc i deleted # es) \<longleftrightarrow> plain_pc pc \<and> store_run_ok sha clock es"
| "store_run_ok sha clock (DelPC pc kept deleted # es) \<longleftrightarrow> plain_pc pc \<and> store_run_ok sha clock es"
| "store_run_ok sha clock (Outside t pc i d # es) \<longleftrightarrow>
     plain_pc pc \<and> clock \<le> t \<and> (case d of None \<Rightarrow> True | Some d \<Rightarrow> honest sha d) \<and> store_run_ok sha clock es"

definition store_ok :: "(fields \<Rightarrow> 'h) \<Rightarrow> int \<Rightarrow> 'h store \<Rightarrow> bool" where
  "store_ok sha clock s \<longleftrightarrow> cache_ok s \<and> docs_honest sha s \<and> clocked clock s"

lemma store_okD:
  assumes "store_ok sha clock s"
  shows "plain_pc pc \<Longrightarrow> st_cache s (cache_key pc i) = Some e \<Longrightarrow> entry_ok s pc i e"
    "doc_at s pc i = Some d \<Longrightarrow> honest sha d" "st_cache s k = Some e \<Longrightarrow> e_verifiedAt e \<le> clock"
  using assms by (auto simp: store_ok_def cache_ok_def docs_honest_def clocked_def)

lemma store_okI:
  assumes "\<And>pc i e. plain_pc pc \<Longrightarrow> st_cache s (cache_key pc i) = Some e \<Longrightarrow> entry_ok s pc i e"
    "\<And>pc i d. doc_at s pc i = Some d \<Longrightarrow> honest sha d" "\<And>k e. st_cache s k = Some e \<Longrightarrow> e_verifiedAt e \<le> clock"
  shows "store_ok sha clock s"
  using assms by (auto simp: store_ok_def cache_ok_def docs_honest_def clocked_def)

lemma entry_ok_cong:
  "doc_at s' pc i = doc_at s pc i \<Longrightarrow> set (st_changes s) \<subseteq> set (st_changes s') \<Longrightarrow> entry_ok s pc i e \<Longrightarrow> entry_ok s' pc i e"
  by (auto simp: entry_ok_def)

text \<open>A step on one document: the entries of the others still hold, the new entry has to.\<close>

lemma store_ok_at:
  assumes ok: "store_ok sha clock s" and pc: "plain_pc pc" and clock: "clock \<le> clock'"
    and docs: "\<And>pc' i'. (pc', i') \<noteq> (pc, i) \<Longrightarrow> doc_at s' pc' i' = doc_at s pc' i'"
    and cache: "\<And>k. k \<noteq> cache_key pc i \<Longrightarrow> st_cache s' k = st_cache s k"
    and changes: "set (st_changes s) \<subseteq> set (st_changes s')"
    and doc: "\<And>d. doc_at s' pc i = Some d \<Longrightarrow> honest sha d"
    and entry: "\<And>e. st_cache s' (cache_key pc i) = Some e \<Longrightarrow> entry_ok s' pc i e \<and> e_verifiedAt e \<le> clock'"
  shows "store_ok sha clock' s'"
proof (rule store_okI)
  fix pc' i' e assume pc': "plain_pc pc'" and e: "st_cache s' (cache_key pc' i') = Some e"
  show "entry_ok s' pc' i' e"
  proof (cases "(pc', i') = (pc, i)")
    case True
    with entry e show ?thesis by simp
  next
    case False
    then have "cache_key pc' i' \<noteq> cache_key pc i" using cache_key_inj [OF pc' pc] by auto
    with cache e have "st_cache s (cache_key pc' i') = Some e" by simp
    from entry_ok_cong [OF docs [OF False] changes store_okD(1) [OF ok pc' this]] show ?thesis .
  qed
next
  fix pc' i' d assume "doc_at s' pc' i' = Some d"
  then show "honest sha d" using doc docs store_okD(2) [OF ok] by (cases "(pc', i') = (pc, i)") auto
next
  fix k e assume "st_cache s' k = Some e"
  then show "e_verifiedAt e \<le> clock'"
    using entry cache store_okD(3) [OF ok, of k e] clock by (cases "k = cache_key pc i") auto
qed

lemma doc_at_put [simp]: "doc_at (put_doc pc i d s) pc' i' = (if pc' = pc \<and> i' = i then Some d else doc_at s pc' i')"
  by (simp add: put_doc_def)

lemma doc_at_del [simp]: "doc_at (del_doc pc i s) pc' i' = (if pc' = pc \<and> i' = i then None else doc_at s pc' i')"
  by (simp add: del_doc_def)

lemma same_parts [simp]:
  "st_docs (remember ck e s) = st_docs s" "st_docs (forget ck s) = st_docs s"
  "st_cache (put_doc pc i d s) = st_cache s" "st_cache (del_doc pc i s) = st_cache s"
  "st_changes (remember ck e s) = st_changes s" "st_changes (forget ck s) = st_changes s"
  "st_changes (put_doc pc i d s) = st_changes s" "st_changes (del_doc pc i s) = st_changes s"
  "st_cache (remember ck e s) = (st_cache s)(ck \<mapsto> e)" "st_cache (forget ck s) = (st_cache s)(ck := None)"
  by (simp_all add: store_defs)

lemma new_doc_honest: "honest sha \<lparr>x_fields = content m, x_version = ver, x_hash = Some (contentHash sha m)\<rparr>"
  by (simp add: honest_def contentHash_def)

lemma push_decide_cases:
  "push_decide h got = Keep ver \<Longrightarrow> \<exists>d. got = Some d \<and> x_hash d = Some h \<and> x_version d = ver"
  by (auto simp: push_decide_def split: option.splits if_splits)

lemma push_one_ok:
  assumes ok: "store_ok sha clock s" and pc: "plain_pc pc"
  shows "store_ok sha (max clock now) (fst (push_one sha verify now pc m readable w s))"
proof -
  let ?i = "sessionKey m" and ?h = "contentHash sha m"
  let ?plan = "push_decide ?h (if readable then doc_at s pc ?i else None)"
  have old: "store_ok sha (max clock now) s"
    using store_okD [OF ok] by (intro store_okI) (auto simp: le_max_iff_disj)
  show ?thesis
  proof (cases "push_hit verify now (cache_key pc ?i) ?h s")
    case True
    with old show ?thesis by (simp add: push_one_def)
  next
    case False
    show ?thesis
    proof (cases ?plan)
      case (Keep ver)
      from push_decide_cases [OF this] obtain d where d: "doc_at s pc ?i = Some d" "x_hash d = Some ?h" "x_version d = ver"
        by (auto split: if_splits)
      with False Keep store_okD(2) [OF ok d(1)] show ?thesis
        by (intro store_ok_at [OF ok pc max.cobounded1, where i = ?i]) (auto simp: push_one_def push_checked_def Let_def entry_ok_def)
    next
      case (Put ver)
      with False new_doc_honest [of sha m ver] store_okD(2) [OF ok, of pc ?i] show ?thesis
        by (intro store_ok_at [OF ok pc max.cobounded1, where i = ?i])
          (cases w; auto simp: push_one_def push_checked_def Let_def entry_ok_def)+
    qed
  qed
qed

lemma touch_pc_parts [simp]: "st_docs (touch_pc pc s) = st_docs s" "st_cache (touch_pc pc s) = st_cache s"
  "st_changes (touch_pc pc s) = st_changes s"
  by (simp_all add: touch_pc_def)

lemma touch_pc_ok: "store_ok sha clock s \<Longrightarrow> store_ok sha clock (touch_pc pc s)"
  by (simp add: store_ok_def cache_ok_def docs_honest_def clocked_def entry_ok_def)

lemma del_session_ok:
  assumes "store_ok sha clock s" "plain_pc pc"
  shows "store_ok sha clock (DeleteSessionFor pc i deleted s)"
proof (cases "i = []")
  case False
  then show ?thesis
    using store_okD(2) [OF assms(1), of pc i]
    by (intro store_ok_at [OF assms order_refl, where i = i]) (auto simp: DeleteSessionFor_def Let_def split: if_splits)
qed (simp add: DeleteSessionFor_def assms)

lemma del_pc_ok:
  assumes ok: "store_ok sha clock s" and pc: "plain_pc pc"
  shows "store_ok sha clock (DeletePCByID pc kept deleted s)"
proof (rule store_okI)
  have docs: "doc_at (DeletePCByID pc kept deleted s) pc' i = (if pc' = pc \<and> pc \<noteq> [] \<and> \<not> kept i then None else doc_at s pc' i)" for pc' i
    by (simp add: DeletePCByID_def deletePC_def forgetPC_def map_of_filter_key)
  have cache: "st_cache (DeletePCByID pc kept deleted s) k = (if prefix (pc @ ''/'') k then None else st_cache s k)" for k
    by (simp add: DeletePCByID_def deletePC_def forgetPC_def)
  have changes: "st_changes (DeletePCByID pc kept deleted s) = st_changes s"
    by (simp add: DeletePCByID_def deletePC_def forgetPC_def)
  fix pc' i e assume pc': "plain_pc pc'" and e: "st_cache (DeletePCByID pc kept deleted s) (cache_key pc' i) = Some e"
  then have "pc' \<noteq> pc" "st_cache s (cache_key pc' i) = Some e" using prefix_cache_key [OF pc pc'] by (auto simp: cache split: if_splits)
  with store_okD(1) [OF ok pc'] show "entry_ok (DeletePCByID pc kept deleted s) pc' i e" by (simp add: entry_ok_def docs changes)
next
  fix pc' i d assume "doc_at (DeletePCByID pc kept deleted s) pc' i = Some d"
  then have "doc_at s pc' i = Some d"
    by (auto simp: DeletePCByID_def deletePC_def forgetPC_def map_of_filter_key split: if_splits)
  then show "honest sha d" by (rule store_okD(2) [OF ok])
next
  fix k e assume "st_cache (DeletePCByID pc kept deleted s) k = Some e"
  then have "st_cache s k = Some e" by (auto simp: DeletePCByID_def deletePC_def forgetPC_def split: if_splits)
  then show "e_verifiedAt e \<le> clock" by (rule store_okD(3) [OF ok])
qed

lemma outside_ok:
  assumes ok: "store_ok sha clock s" and pc: "plain_pc pc" and t: "clock \<le> t"
    and d: "case d of None \<Rightarrow> True | Some d \<Rightarrow> honest sha d"
  shows "store_ok sha clock (store_step sha verify s (Outside t pc i d))"
proof -
  have "entry_ok (store_step sha verify s (Outside t pc i d)) pc i e" if "st_cache s (cache_key pc i) = Some e" for e
    using store_okD(3) [OF ok that] t by (auto simp: entry_ok_def)
  with d store_okD(3) [OF ok] show ?thesis
    by (intro store_ok_at [OF ok pc order_refl, where i = i]) (cases d; auto)+
qed

lemma store_run:
  assumes "store_run_ok sha clock es" "store_ok sha clock s"
  shows "\<exists>clock'. store_ok sha clock' (run (store_step sha verify) s es)"
  using assms
proof (induction es arbitrary: s clock)
  case (Cons e es)
  show ?case
  proof (cases e)
    case (Push now pc m readable w)
    with Cons.prems have "store_run_ok sha (max clock now) es" "store_ok sha (max clock now) (store_step sha verify s e)"
      by (simp_all add: push_one_ok)
    from Cons.IH [OF this] show ?thesis by simp
  next
    case (Touch pc)
    with Cons.prems Cons.IH [of clock "store_step sha verify s e"] show ?thesis by (simp add: touch_pc_ok)
  next
    case (DelSession pc i deleted)
    with Cons.prems Cons.IH [of clock "store_step sha verify s e"] show ?thesis by (simp add: del_session_ok)
  next
    case (DelPC pc kept deleted)
    with Cons.prems Cons.IH [of clock "store_step sha verify s e"] show ?thesis by (simp add: del_pc_ok)
  next
    case (Outside t pc i d)
    with Cons.prems outside_ok [of sha clock s pc t d verify i] Cons.IH [of clock "store_step sha verify s e"]
    show ?thesis by simp
  qed
qed auto

lemma store_init_ok: "store_ok sha clock store_init"
  by (intro store_okI) (simp_all add: store_init_def)

section \<open>With and without the memory\<close>

text \<open>Runs without others, where reads do not fail.\<close>

fun own_event :: "'h store_event \<Rightarrow> bool" where
  "own_event (Push now pc m readable w) \<longleftrightarrow> readable \<and> plain_pc pc"
| "own_event (Touch pc) = True"
| "own_event (DelSession pc i deleted) \<longleftrightarrow> plain_pc pc"
| "own_event (DelPC pc kept deleted) \<longleftrightarrow> plain_pc pc"
| "own_event (Outside t pc i d) = False"

text \<open>The same documents, whatever either remembers.\<close>

definition same_docs :: "'h store \<Rightarrow> 'h store \<Rightarrow> bool" where
  "same_docs s s' \<longleftrightarrow> st_docs s = st_docs s' \<and> st_pcs s = st_pcs s'"

lemma no_hit_without_memory: "(\<And>k e. st_cache s k = Some e \<Longrightarrow> e_verifiedAt e \<le> now) \<Longrightarrow> \<not> push_hit 0 now ck h s"
  by (auto simp: push_hit_def split: option.splits) force

definition true_entries :: "'h store \<Rightarrow> bool" where
  "true_entries s \<longleftrightarrow> cache_ok s \<and> st_changes s = []"

lemma true_entry:
  assumes "true_entries s" "plain_pc pc" "push_hit verify now (cache_key pc i) h s"
  shows "\<exists>d. doc_at s pc i = Some d \<and> x_hash d = Some h"
proof -
  from assms(3) obtain e where e: "st_cache s (cache_key pc i) = Some e" "e_hash e = h"
    by (auto simp: push_hit_def split: option.splits)
  have "cache_ok s" "st_changes s = []" using assms(1) by (simp_all add: true_entries_def)
  with assms(2) e have "entry_ok s pc i e" by (simp add: cache_ok_def)
  with \<open>st_changes s = []\<close> e(2) show ?thesis by (auto simp: entry_ok_def)
qed

text \<open>One session pushed with the memory and without: the same effect, the same answer.\<close>

lemma push_same:
  assumes same: "same_docs s s'" and t: "true_entries s" and pc: "plain_pc pc"
    and none: "\<not> push_hit 0 now (cache_key pc (sessionKey m)) (contentHash sha m) s'"
  shows "same_docs (fst (push_one sha verify now pc m True w s)) (fst (push_one sha 0 now pc m True w s'))"
    "snd (push_one sha verify now pc m True w s) = snd (push_one sha 0 now pc m True w s')"
proof -
  let ?i = "sessionKey m" and ?h = "contentHash sha m"
  have docs: "st_docs s = st_docs s'" "st_pcs s = st_pcs s'" using same by (simp_all add: same_docs_def)
  have plain: "push_one sha 0 now pc m True w s' = push_checked sha now pc m True w s'" using none by (simp add: push_one_def)
  have "same_docs (fst (push_one sha verify now pc m True w s)) (fst (push_one sha 0 now pc m True w s')) \<and>
    snd (push_one sha verify now pc m True w s) = snd (push_one sha 0 now pc m True w s')"
  proof (cases "push_hit verify now (cache_key pc ?i) ?h s")
    case True
    from true_entry [OF t pc True] obtain d where "doc_at s' pc ?i = Some d" "x_hash d = Some ?h" by (auto simp: docs)
    then have "push_decide ?h (doc_at s' pc ?i) = Keep (x_version d)" by (simp add: push_decide_def)
    with plain True docs show ?thesis by (simp add: push_one_def push_checked_def Let_def same_docs_def remember_def)
  next
    case False
    then have "push_one sha verify now pc m True w s = push_checked sha now pc m True w s" by (simp add: push_one_def)
    with plain docs show ?thesis
      by (cases "push_decide ?h (doc_at s' pc ?i)"; cases w)
        (simp_all add: push_checked_def same_docs_def store_defs Let_def)
  qed
  then show "same_docs (fst (push_one sha verify now pc m True w s)) (fst (push_one sha 0 now pc m True w s'))"
    "snd (push_one sha verify now pc m True w s) = snd (push_one sha 0 now pc m True w s')" by auto
qed

text \<open>One call of \<^verbatim>\<open>pushSessions\<close> as steps, and what a run answers.\<close>

fun answer :: "(fields \<Rightarrow> 'h) \<Rightarrow> int \<Rightarrow> 'h store \<Rightarrow> 'h store_event \<Rightarrow> bool \<times> bool" where
  "answer sha verify s (Push now pc m readable w) = snd (push_one sha verify now pc m readable w s)"
| "answer sha verify s e = (False, False)"

fun answers :: "(fields \<Rightarrow> 'h) \<Rightarrow> int \<Rightarrow> 'h store \<Rightarrow> 'h store_event list \<Rightarrow> (bool \<times> bool) list" where
  "answers sha verify s [] = []"
| "answers sha verify s (e # es) = answer sha verify s e # answers sha verify (store_step sha verify s e) es"

text \<open>The clock of the pushes does not go back.\<close>

fun push_times :: "int \<Rightarrow> 'h store_event list \<Rightarrow> bool" where
  "push_times clock [] = True"
| "push_times clock (Push now pc m readable w # es) \<longleftrightarrow> clock \<le> now \<and> push_times now es"
| "push_times clock (e # es) \<longleftrightarrow> push_times clock es"

lemma own_changes: "own_event e \<Longrightarrow> st_changes (store_step sha verify s e) = st_changes s"
  by (cases e) (auto simp: push_one_def push_checked_def DeleteSessionFor_def DeletePCByID_def deletePC_def forgetPC_def Let_def
      split: push_plan.splits write_answer.splits)

lemma step_ok_own:
  "own_event e \<Longrightarrow> store_ok sha clock s \<Longrightarrow> \<exists>clock'. store_ok sha clock' (store_step sha verify s e)"
  by (cases e) (auto intro: push_one_ok touch_pc_ok del_session_ok del_pc_ok)

lemma delete_same:
  assumes "same_docs s s'"
  shows "same_docs (touch_pc pc s) (touch_pc pc s')" "same_docs (DeleteSessionFor pc i deleted s) (DeleteSessionFor pc i deleted s')"
    "same_docs (DeletePCByID pc kept deleted s) (DeletePCByID pc kept deleted s')"
  using assms by (simp_all add: same_docs_def store_defs Let_def)

lemma delete_clocked:
  "clocked clock s \<Longrightarrow> clocked clock (touch_pc pc s)" "clocked clock s \<Longrightarrow> clocked clock (DeleteSessionFor pc i deleted s)"
  "clocked clock s \<Longrightarrow> clocked clock (DeletePCByID pc kept deleted s)"
  by (auto simp: clocked_def store_defs Let_def split: if_splits)

lemma push_clocked:
  assumes "clocked clock s" "clock \<le> now"
  shows "clocked now (fst (push_one sha verify now pc m readable w s))"
  using assms
  by (force simp: clocked_def push_one_def push_checked_def Let_def split: push_plan.splits write_answer.splits if_splits)

text \<open>Run for run: the documents and the answers are those of a store that reads every session every time.\<close>

lemma memory_run:
  assumes "list_all own_event es" "push_times clock es"
    and "store_ok sha c0 s" "st_changes s = []" "clocked clock s'" "same_docs s s'"
  shows "same_docs (run (store_step sha verify) s es) (run (store_step sha 0) s' es) \<and>
    answers sha verify s es = answers sha 0 s' es"
  using assms
proof (induction es arbitrary: s s' clock c0)
  case (Cons e es)
  have own: "own_event e" "list_all own_event es" using Cons.prems(1) by simp_all
  obtain c1 where ok: "store_ok sha c1 (store_step sha verify s e)"
    using step_ok_own [OF own(1) Cons.prems(3)] by blast
  have changes: "st_changes (store_step sha verify s e) = []" using own_changes [OF own(1)] Cons.prems(4) by simp
  show ?case
  proof (cases "\<exists>now pc m readable w. e = Push now pc m readable w")
    case True
    then obtain now pc m readable w where e: "e = Push now pc m readable w" by blast
    then have push: "readable" "plain_pc pc" "clock \<le> now" "push_times now es" using Cons.prems(1,2) by simp_all
    have "true_entries s" using Cons.prems(3,4) by (simp add: true_entries_def store_ok_def)
    moreover have "\<not> push_hit 0 now (cache_key pc (sessionKey m)) (contentHash sha m) s'"
      using Cons.prems(5) push(3) by (intro no_hit_without_memory) (force simp: clocked_def)
    ultimately have "same_docs (store_step sha verify s e) (store_step sha 0 s' e)"
      "answer sha verify s e = answer sha 0 s' e"
      using push_same [OF Cons.prems(6) _ push(2)] push(1) by (simp_all add: e)
    moreover have "clocked now (store_step sha 0 s' e)" by (simp add: e push_clocked [OF Cons.prems(5) push(3)])
    ultimately show ?thesis using Cons.IH [OF own(2) push(4) ok changes] by simp
  next
    case False
    then have "push_times clock es" "answer sha verify s e = answer sha 0 s' e" using Cons.prems(2) by (cases e; simp)+
    moreover have "same_docs (store_step sha verify s e) (store_step sha 0 s' e)" "clocked clock (store_step sha 0 s' e)"
      using False Cons.prems(1,5,6) by (cases e; simp add: delete_same delete_clocked)+
    ultimately show ?thesis using Cons.IH [OF own(2) _ ok changes] by simp
  qed
qed simp

section \<open>What a tick costs\<close>

text \<open>The same session pushed at these times.\<close>

definition ticks :: "string \<Rightarrow> fields \<Rightarrow> int list \<Rightarrow> 'h store_event list" where
  "ticks pc m ts = map (\<lambda>t. Push t pc m True Done) ts"

lemma ticks_Cons: "ticks pc m (t # ts) = Push t pc m True Done # ticks pc m ts"
  by (simp add: ticks_def)

text \<open>Once a session has been verified, it is next read when that is \<open>verify\<close> old.\<close>

lemma ticks_cost:
  assumes "0 < verify" "sorted (t0 # ts)"
    and "st_cache s (cache_key pc (sessionKey m)) = Some e" "e_hash e = contentHash sha m" "e_verifiedAt e = t0"
    and "doc_at s pc (sessionKey m) = Some d" "x_hash d = Some (contentHash sha m)"
  shows "int (st_gets (run (store_step sha verify) s (ticks pc m ts))) \<le> int (st_gets s) + (last (t0 # ts) - t0) div verify \<and>
    st_sets (run (store_step sha verify) s (ticks pc m ts)) = st_sets s"
  using assms(2-)
proof (induction ts arbitrary: s t0 e)
  case Nil
  then show ?case by (simp add: ticks_def)
next
  case (Cons t ts)
  have last: "t \<le> last (t # ts)" using Cons.prems(1) by (cases ts) auto
  have le: "t0 \<le> t" "sorted (t0 # ts)" "sorted (t # ts)" using Cons.prems(1) by auto
  show ?case
  proof (cases "t - t0 < verify")
    case True
    then have hit: "push_hit verify t (cache_key pc (sessionKey m)) (contentHash sha m) s"
      using Cons.prems by (simp add: push_hit_def)
    have "last (t0 # ts) \<le> last (t # ts)" using le by (cases ts) auto
    then have "(last (t0 # ts) - t0) div verify \<le> (last (t # ts) - t0) div verify"
      using assms(1) by (intro zdiv_mono1) auto
    with Cons.IH [OF le(2) Cons.prems(2-)] show ?thesis by (simp add: ticks_def push_one_def hit)
  next
    case False
    then have miss: "\<not> push_hit verify t (cache_key pc (sessionKey m)) (contentHash sha m) s"
      using Cons.prems by (simp add: push_hit_def)
    let ?s = "store_step sha verify s (Push t pc m True Done)"
    have s: "?s = remember (cache_key pc (sessionKey m)) \<lparr>e_hash = contentHash sha m, e_version = x_version d, e_verifiedAt = t\<rparr>
        (s\<lparr>st_gets := Suc (st_gets s)\<rparr>)"
      using Cons.prems miss by (simp add: push_one_def push_checked_def push_decide_def Let_def)
    have "int (st_gets (run (store_step sha verify) ?s (ticks pc m ts))) \<le> int (st_gets ?s) + (last (t # ts) - t) div verify \<and>
        st_sets (run (store_step sha verify) ?s (ticks pc m ts)) = st_sets ?s"
      unfolding s
      by (rule Cons.IH [OF le(3), where e = "\<lparr>e_hash = contentHash sha m, e_version = x_version d, e_verifiedAt = t\<rparr>"])
        (simp_all add: Cons.prems)
    moreover have "(last (t # ts) - t) div verify + 1 \<le> (last (t # ts) - t0) div verify"
    proof -
      have "(last (t # ts) - t) div verify + 1 = (last (t # ts) - t + verify) div verify"
        using div_add_self2 [of verify "last (t # ts) - t"] assms(1) by simp
      also have "\<dots> \<le> (last (t # ts) - t0) div verify" using False assms(1) by (intro zdiv_mono1) auto
      finally show ?thesis .
    qed
    moreover have "st_gets ?s = Suc (st_gets s)" "st_sets ?s = st_sets s" unfolding s by (simp_all add: remember_def)
    moreover have "last (t0 # t # ts) = last (t # ts)" by simp
    ultimately show ?thesis by (simp add: ticks_Cons del: store_step.simps last.simps)
  qed
qed

section \<open>What a push leaves behind\<close>

definition stored :: "(fields \<Rightarrow> 'h) \<Rightarrow> 'h store \<Rightarrow> string \<Rightarrow> fields \<Rightarrow> bool" where
  "stored sha s pc m \<longleftrightarrow> (\<exists>d. doc_at s pc (sessionKey m) = Some d \<and> x_hash d = Some (contentHash sha m) \<and>
     sha (x_fields d) = sha (content m))"

definition unchanged_since :: "int \<Rightarrow> 'h store \<Rightarrow> string \<Rightarrow> string \<Rightarrow> bool" where
  "unchanged_since t s pc i \<longleftrightarrow> list_all (\<lambda>(t', pc', i'). pc' = pc \<and> i' = i \<longrightarrow> t' \<le> t) (st_changes s)"

lemma stored_doc:
  assumes "store_ok sha clock s" "doc_at s pc (sessionKey m) = Some d" "x_hash d = Some (contentHash sha m)"
  shows "stored sha s pc m"
  using assms(2,3) store_okD(2) [OF assms(1,2)] by (auto simp: stored_def honest_def contentHash_def)

lemma push_one_stored:
  assumes ok: "store_ok sha clock s" and pc: "plain_pc pc"
    and p: "push_one sha verify now pc m readable w s = (s', changed, False)"
    and quiet: "unchanged_since (now - verify) s pc (sessionKey m)"
  shows "stored sha s' pc m"
proof -
  let ?i = "sessionKey m" and ?h = "contentHash sha m"
  have ok': "store_ok sha (max clock now) s'" using push_one_ok [OF ok pc, of now verify m readable w] by (simp add: p)
  show ?thesis
  proof (cases "push_hit verify now (cache_key pc ?i) ?h s")
    case True
    then obtain e where e: "st_cache s (cache_key pc ?i) = Some e" "e_hash e = ?h" "now - e_verifiedAt e < verify"
      by (auto simp: push_hit_def split: option.splits)
    have "\<not> ((t, pc, ?i) \<in> set (st_changes s) \<and> e_verifiedAt e \<le> t)" for t
      using quiet e(3) by (auto simp: unchanged_since_def list_all_iff)
    with store_okD(1) [OF ok pc e(1)] obtain d where "doc_at s pc ?i = Some d" "x_hash d = Some ?h"
      by (auto simp: entry_ok_def e(2))
    with ok True p show ?thesis by (intro stored_doc [OF ok']) (auto simp: push_one_def)
  next
    case False
    with p have c: "push_checked sha now pc m readable w s = (s', changed, False)" by (simp add: push_one_def)
    have "\<exists>d. doc_at s' pc ?i = Some d \<and> x_hash d = Some ?h"
    proof (cases "push_decide ?h (if readable then doc_at s pc ?i else None)")
      case (Keep ver)
      from push_decide_cases [OF this] c Keep show ?thesis
        by (auto simp: push_checked_def Let_def split: if_splits)
    next
      case (Put ver)
      with c show ?thesis by (cases w) (auto simp: push_checked_def Let_def)
    qed
    then show ?thesis using stored_doc [OF ok'] by blast
  qed
qed

lemma push_one_keeps:
  "i \<noteq> sessionKey m \<Longrightarrow> doc_at (fst (push_one sha verify now pc m readable w s)) pc i = doc_at s pc i"
  "st_changes (fst (push_one sha verify now pc m readable w s)) = st_changes s"
  by (simp_all add: push_one_def push_checked_def Let_def split: push_plan.splits write_answer.splits)

lemma push_list_keeps:
  "i \<notin> (sessionKey \<circ> fst) ` set xs \<Longrightarrow> doc_at (fst (push_list sha verify now pc xs s)) pc i = doc_at s pc i"
proof (induction xs arbitrary: s)
  case (Cons x xs)
  obtain m readable w where x: "x = (m, readable, w)" by (cases x)
  obtain s1 ch err where p: "push_one sha verify now pc m readable w s = (s1, ch, err)" by (metis prod_cases3)
  have "doc_at s1 pc i = doc_at s pc i" using push_one_keeps(1) [of i m sha verify now pc readable w s] Cons.prems by (simp add: p x)
  with Cons.IH [of s1] Cons.prems show ?case by (simp add: x p Let_def split_beta)
qed simp

lemma push_list_stored:
  assumes "store_ok sha clock s" "plain_pc pc" "push_list sha verify now pc xs s = (s', n, False)"
    and "distinct (map (sessionKey \<circ> fst) xs)"
    and "\<And>m. m \<in> fst ` set xs \<Longrightarrow> unchanged_since (now - verify) s pc (sessionKey m)"
  shows "\<forall>m \<in> fst ` set xs. stored sha s' pc m"
  using assms
proof (induction xs arbitrary: s clock n)
  case (Cons x xs)
  obtain m readable w where x: "x = (m, readable, w)" by (cases x)
  obtain s1 ch err where p: "push_one sha verify now pc m readable w s = (s1, ch, err)" by (metis prod_cases3)
  obtain s2 n2 err2 where ps: "push_list sha verify now pc xs s1 = (s2, n2, err2)" by (metis prod_cases3)
  have no: "err = False" "err2 = False" "s2 = s'" using Cons.prems(3) by (auto simp: x p ps Let_def split: if_splits)
  have "stored sha s1 pc m"
    using push_one_stored [OF Cons.prems(1,2)] p no(1) Cons.prems(5) by (simp add: x)
  then have "stored sha s' pc m"
    using push_list_keeps [of "sessionKey m" xs sha verify now pc s1] Cons.prems(4) ps no(3) by (auto simp: stored_def x)
  moreover have "store_ok sha (max clock now) s1" using push_one_ok [OF Cons.prems(1,2), of now verify m readable w] by (simp add: p)
  moreover have "st_changes s1 = st_changes s" using push_one_keeps(2) [of sha verify now pc m readable w s] by (simp add: p)
  ultimately show ?case
    using Cons.IH [of "max clock now" s1 n2] Cons.prems(2,4,5) ps no by (auto simp: x unchanged_since_def)
qed simp

section \<open>Properties\<close>

text \<open>A push that reports no error has brought every one of its sessions into the store, with the hash of
  its content, whatever was pushed, deleted, failed or changed by others before: unless somebody else changed
  that very document within the last ten minutes (the memory may not know of it yet).\<close>

lemma pushed_sessions_are_stored:
  fixes sha :: "fields \<Rightarrow> 'h"
  assumes "store_run_ok sha clock es" "s = run (store_step sha verify) store_init es" "plain_pc pc"
    and "pushSessions sha verify now pc xs touched s = (s', n, False)" "distinct (map (sessionKey \<circ> fst) xs)"
    and "m \<in> fst ` set xs" "list_all (\<lambda>x. unchanged_since (now - verify) s pc (sessionKey (fst x))) xs"
  shows "\<exists>d. doc_at s' pc (sessionKey m) = Some d \<and> x_hash d = Some (contentHash sha m) \<and>
    sha (x_fields d) = sha (content m)"
proof -
  obtain c where ok: "store_ok sha c s" using store_run [OF assms(1) store_init_ok] unfolding assms(2) by blast
  obtain s1 n1 err where p: "push_list sha verify now pc xs s = (s1, n1, err)" by (metis prod_cases3)
  have e: "err = False" "doc_at s' pc = doc_at s1 pc"
    using assms(4) by (auto simp: pushSessions_def p Let_def split: if_splits)
  have "stored sha s1 pc m"
    using push_list_stored [OF ok assms(3) p [unfolded e(1)] assms(5)] assms(6,7) by (auto simp: list_all_iff)
  then show ?thesis by (simp add: stored_def e(2))
qed

text \<open>C24. The memory changes nothing but the cost. As long as no other process writes and no read fails,
  the documents and the answers of every push are, run for run, those of the store that keeps no memory
  and reads every session at every tick, also when writes fail and sessions or machines are deleted.\<close>

theorem memory_changes_nothing:
  fixes sha :: "fields \<Rightarrow> 'h"
  assumes "list_all own_event es" "push_times 0 es"
  shows "let s = run (store_step sha verify) store_init es; s' = run (store_step sha 0) store_init es in
    st_docs s = st_docs s' \<and> st_pcs s = st_pcs s' \<and>
    answers sha verify store_init es = answers sha 0 store_init es"
proof -
  have "clocked 0 (store_init :: 'h store)" "st_changes (store_init :: 'h store) = []"
    by (simp_all add: clocked_def store_init_def)
  from memory_run [OF assms store_init_ok this(2,1)] show ?thesis by (simp add: same_docs_def Let_def)
qed

text \<open>C37. What a session costs that does not change: from its first push on, a run of ticks reads it at most
  once per interval of verification, and never writes it again.\<close>

theorem quiet_session_costs_little:
  fixes sha :: "fields \<Rightarrow> 'h"
  assumes "0 < verify" "sorted (t0 # ts)" "push_one sha verify t0 pc m True Done s = (s0, changed, False)"
    and "\<not> push_hit verify t0 (cache_key pc (sessionKey m)) (contentHash sha m) s"
  shows "let s1 = run (store_step sha verify) s0 (ticks pc m ts) in
    int (st_gets s1) \<le> int (st_gets s) + 1 + (last (t0 # ts) - t0) div verify \<and> st_sets s1 = st_sets s0 \<and>
    st_sets s0 \<le> Suc (st_sets s)"
proof -
  let ?i = "sessionKey m" and ?h = "contentHash sha m"
  have c: "push_checked sha t0 pc m True Done s = (s0, changed, False)" using assms(3,4) by (simp add: push_one_def)
  have "\<exists>e d. st_cache s0 (cache_key pc ?i) = Some e \<and> e_hash e = ?h \<and> e_verifiedAt e = t0 \<and>
      doc_at s0 pc ?i = Some d \<and> x_hash d = Some ?h \<and> st_gets s0 = Suc (st_gets s) \<and> st_sets s0 \<le> Suc (st_sets s)"
  proof (cases "push_decide ?h (doc_at s pc ?i)")
    case (Keep ver)
    from push_decide_cases [OF this] c Keep show ?thesis by (auto simp: push_checked_def Let_def remember_def)
  next
    case (Put ver)
    with c show ?thesis by (auto simp: push_checked_def Let_def remember_def put_doc_def)
  qed
  then obtain e d where at: "st_cache s0 (cache_key pc ?i) = Some e" "e_hash e = ?h" "e_verifiedAt e = t0"
    "doc_at s0 pc ?i = Some d" "x_hash d = Some ?h" and n: "st_gets s0 = Suc (st_gets s)" "st_sets s0 \<le> Suc (st_sets s)" by blast
  from ticks_cost [OF assms(1,2) at] n show ?thesis by (simp add: Let_def)
qed

section \<open>Witnesses\<close>

definition demo_session :: fields where
  "demo_session = [''key'' \<mapsto> AStr ''s1'', ''agent_status'' \<mapsto> AStr ''working'', ''is_active'' \<mapsto> ABool True]"

definition demo_later :: fields where
  "demo_later = demo_session(''agent_status'' \<mapsto> AStr ''idle'')"

lemma demo_keys: "sessionKey demo_session = ''s1''" "sessionKey demo_later = ''s1''" "content demo_session = demo_session"
  "content demo_later = demo_later" "demo_later \<noteq> demo_session" "demo_session \<noteq> demo_later"
proof -
  show "sessionKey demo_session = ''s1''" "sessionKey demo_later = ''s1''"
    by (simp_all add: sessionKey_def strField_def demo_session_def demo_later_def)
  show "content demo_session = demo_session" "content demo_later = demo_later"
    by (simp_all add: content_def demo_session_def demo_later_def fun_eq_iff)
  have "demo_later ''agent_status'' \<noteq> demo_session ''agent_status''" by (simp add: demo_session_def demo_later_def)
  then show "demo_later \<noteq> demo_session" "demo_session \<noteq> demo_later" by metis+
qed

lemmas push_run_defs = push_one_def push_checked_def push_hit_def push_decide_def contentHash_def store_defs cache_key_def
  store_init_def demo_keys

text \<open>The session is pushed, deleted by another process a minute later, and pushed again after eleven minutes.\<close>

definition demo_events :: "fields store_event list" where
  "demo_events = [Push 0 ''p1'' demo_session True Done, Outside 60000000000 ''p1'' ''s1'' None]"

lemma demo_push:
  assumes s: "s = run (store_step id PushVerifyEvery) store_init demo_events"
  shows "st_docs s ''p1'' = []" "st_changes s = [(60000000000, ''p1'', ''s1'')]"
    "st_cache s (cache_key ''p1'' ''s1'') = Some \<lparr>e_hash = demo_session, e_version = 1, e_verifiedAt = 0\<rparr>"
  by (simp_all add: s demo_events_def push_run_defs Let_def coll_del_def)

lemma demo_pushed:
  fixes s :: "fields store"
  assumes "st_docs s ''p1'' = []"
    "st_cache s (cache_key ''p1'' ''s1'') = Some \<lparr>e_hash = demo_session, e_version = 1, e_verifiedAt = 0\<rparr>"
  shows "\<exists>s'. pushSessions id PushVerifyEvery 660000000000 ''p1'' [(demo_session, True, Done)] True s = (s', 1, False)"
  using assms by (simp add: pushSessions_def push_one_def push_checked_def push_hit_def push_decide_def contentHash_def
      demo_keys PushVerifyEvery_def Let_def)

lemma pushed_sessions_are_stored_witness:
  "\<exists>s' d. pushSessions id PushVerifyEvery 660000000000 ''p1'' [(demo_session, True, Done)] True
      (run (store_step id PushVerifyEvery) store_init demo_events) = (s', 1, False) \<and>
     doc_at s' ''p1'' ''s1'' = Some d \<and> x_hash d = Some demo_session"
proof -
  let ?s = "run (store_step id PushVerifyEvery) store_init demo_events"
  obtain s' where p: "pushSessions id PushVerifyEvery 660000000000 ''p1'' [(demo_session, True, Done)] True ?s = (s', 1, False)"
    using demo_pushed [OF demo_push(1,3) [OF refl]] by blast
  have pc: "plain_pc ''p1''" by (simp add: plain_pc_def)
  have r: "store_run_ok id 0 demo_events" by (simp add: demo_events_def pc)
  have q: "list_all (\<lambda>x. unchanged_since (660000000000 - PushVerifyEvery) ?s ''p1'' (sessionKey (fst x))) [(demo_session, True, Done)]"
    unfolding unchanged_since_def demo_push(2) [OF refl] by (simp add: PushVerifyEvery_def)
  from pushed_sessions_are_stored [OF r refl pc p _ _ q, of demo_session]
  have "\<exists>d. doc_at s' ''p1'' ''s1'' = Some d \<and> x_hash d = Some demo_session"
    by (auto simp: demo_keys contentHash_def)
  with p show ?thesis by blast
qed

definition demo_own :: "fields store_event list" where
  "demo_own = [Push 0 ''p1'' demo_session True Done, Push 1 ''p1'' demo_session True Done, DelSession ''p1'' ''s1'' True,
     Push 2 ''p1'' demo_later True Unsure, Push 3 ''p1'' demo_later True Done]"

theorem memory_changes_nothing_witness:
  "let s = run (store_step id PushVerifyEvery) store_init demo_own in
    st_docs s = st_docs (run (store_step id 0) store_init demo_own) \<and> doc_at s ''p1'' ''s1'' \<noteq> None"
proof -
  let ?s = "run (store_step id PushVerifyEvery) store_init demo_own"
  have "list_all own_event demo_own" "push_times 0 demo_own" by (simp_all add: demo_own_def plain_pc_def)
  from memory_changes_nothing [OF this, of id PushVerifyEvery]
  have "st_docs ?s = st_docs (run (store_step id 0) store_init demo_own)" unfolding Let_def by blast
  moreover have "doc_at ?s ''p1'' ''s1'' \<noteq> None"
    by (simp add: demo_own_def push_run_defs PushVerifyEvery_def Let_def coll_del_def)
  ultimately show ?thesis unfolding Let_def by blast
qed

theorem quiet_session_costs_little_witness:
  "let s1 = run (store_step id PushVerifyEvery) (fst (push_one id PushVerifyEvery 0 ''p1'' demo_session True Done store_init))
      (ticks ''p1'' demo_session [5000000000, 10000000000, 700000000000])
   in int (st_gets s1) \<le> 2 \<and> st_sets s1 \<le> 1"
proof -
  let ?p = "push_one id PushVerifyEvery 0 ''p1'' demo_session True Done store_init"
  have p: "?p = (fst ?p, True, False)" by (simp add: push_run_defs Let_def)
  have miss: "\<not> push_hit PushVerifyEvery 0 (cache_key ''p1'' (sessionKey demo_session)) (contentHash id demo_session) store_init"
    by (simp add: push_run_defs)
  have v: "0 < PushVerifyEvery" "(700000000000 :: int) div PushVerifyEvery = 1" by (simp_all add: PushVerifyEvery_def)
  have "st_gets (store_init :: fields store) = 0" "st_sets (store_init :: fields store) = 0" by (simp_all add: store_init_def)
  with quiet_session_costs_little [OF v(1) _ p miss, of "[5000000000, 10000000000, 700000000000]"]
  show ?thesis by (simp add: Let_def v(2) del: run.simps)
qed

section \<open>What can go wrong\<close>

text \<open>A read that fails counts as no document: the version starts again at one.\<close>

lemma failed_read_resets_version:
  "map_option x_version (doc_at (run (store_step id PushVerifyEvery) store_init
     [Push 0 ''p1'' demo_session True Done, Push 1 ''p1'' demo_later True Done, Push 2 ''p1'' demo_session False Done]) ''p1'' ''s1'') =
   Some 1"
  by (simp add: push_run_defs PushVerifyEvery_def Let_def)

text \<open>The write of the machine's document fails: the session is there, and no later tick lists the machine.\<close>

lemma machine_never_listed:
  "let s = fst (pushSessions id PushVerifyEvery 0 ''p1'' [(demo_session, True, Done)] False store_init);
       (s', n, err) = pushSessions id PushVerifyEvery t ''p1'' [(demo_session, True, Done)] True s
   in doc_at s' ''p1'' ''s1'' \<noteq> None \<and> st_pcs s' = [] \<and> n = 0 \<and> \<not> err"
  by (simp add: pushSessions_def push_run_defs PushVerifyEvery_def Let_def)

text \<open>Two pushes of one machine at the same time. Both have read that there is no document; the later one
  writes last and remembers first: from then on the first content counts as stored, and is not
  written for ten minutes, while the store has the other.\<close>

lemma concurrent_pushes_mislead_the_memory:
  fixes s :: "fields store"
  assumes "doc_at s ''p1'' ''s1'' = None"
  defines "entry m \<equiv> \<lparr>e_hash = contentHash id m, e_version = 1, e_verifiedAt = 0\<rparr>"
    and "doc m \<equiv> \<lparr>x_fields = content m, x_version = 1, x_hash = Some (contentHash id m)\<rparr>"
  shows "let s1 = put_doc ''p1'' ''s1'' (doc demo_later) (put_doc ''p1'' ''s1'' (doc demo_session) s);
      s2 = remember (cache_key ''p1'' ''s1'') (entry demo_session) (remember (cache_key ''p1'' ''s1'') (entry demo_later) s1);
      s3 = fst (push_one id PushVerifyEvery 5000000000 ''p1'' demo_session True Done s2)
    in map_option x_fields (doc_at s3 ''p1'' ''s1'') = Some demo_later"
  by (simp add: assms push_one_def push_hit_def remember_def demo_keys PushVerifyEvery_def Let_def)

end
