(* ===== verification/Listing.thy ===== *)
theory Listing
  imports SessionStore Dial
begin

text \<open>
  The lists behind the pages (\<^verbatim>\<open>web/web.go\<close>: \<^verbatim>\<open>devicePCs\<close>, \<^verbatim>\<open>apiDevices\<close>, \<^verbatim>\<open>apiSessions\<close>), put together with the store of the
  sessions on one side and with \<^verbatim>\<open>main\<close> of \<^verbatim>\<open>web/static/devices.js\<close> on the other. \<open>up\<close> says which
  reads succeed.
\<close>

section \<open>The handlers\<close>

definition devicePCs :: "(reading \<Rightarrow> bool) \<Rightarrow> string \<Rightarrow> 'h store \<Rightarrow> string list" where
  "devicePCs up scope s =
     (if scope = accountScope then (case ListPCs up s of None \<Rightarrow> [] | Some ps \<Rightarrow> ps) else [scope])"

definition apiDevices :: "(reading \<Rightarrow> bool) \<Rightarrow> string \<Rightarrow> 'h store \<Rightarrow> device list" where
  "apiDevices up scope s =
     map (\<lambda>pc. let ss = (case ListSessions up pc s of None \<Rightarrow> [] | Some ss \<Rightarrow> ss) in
        \<lparr>d_id = pc, d_cm_version = Some (PCVersion up pc s), d_sessions = int (length ss),
         d_active = int (length (filter (\<lambda>x. boolField x ''is_active'') ss))\<rparr>) (devicePCs up scope s)"

text \<open>A session as the scripts read its JSON.\<close>

definition opt_str :: "fields \<Rightarrow> string \<Rightarrow> string option" where
  "opt_str m k = (case m k of Some (AStr v) \<Rightarrow> Some v | _ \<Rightarrow> None)"

definition session_json :: "fields \<Rightarrow> device_session" where
  "session_json m = \<lparr>j_key = strField m ''key'', j_short_dir = opt_str m ''short_dir'', j_agent = opt_str m ''agent'',
     j_cm_version = opt_str m ''cm_version'', j_is_active = boolField m ''is_active'', j_semi_auto = boolField m ''semi_auto''\<rparr>"

definition apiSessions :: "(reading \<Rightarrow> bool) \<Rightarrow> string \<Rightarrow> string \<Rightarrow> 'h store \<Rightarrow> device_session list option response" where
  "apiSessions up scope pc s =
     (let pc = (if pc = [] \<and> scope \<noteq> accountScope then scope else pc) in
      if pc = [] \<or> \<not> allows scope pc then Response 403 None
      else (case ListSessions up pc s of
          None \<Rightarrow> Response 500 None
        | Some ss \<Rightarrow> Response 200 (Some (map session_json ss))))"

text \<open>The requests of a page that is signed in with this scope.\<close>

definition get_sessions :: "(reading \<Rightarrow> bool) \<Rightarrow> string \<Rightarrow> 'h store \<Rightarrow> string \<Rightarrow> device_session list option response" where
  "get_sessions up scope s url = apiSessions up scope (Query_Get (url_query url) ''pc'') s"

definition list_page :: "(reading \<Rightarrow> bool) \<Rightarrow> string \<Rightarrow> string option response \<Rightarrow> 'h store \<Rightarrow> devices_page" where
  "list_page up scope version s =
     devices_main version (Response 200 (apiDevices up scope s)) (get_sessions up scope s)"

section \<open>The query of a page, read by the server\<close>





section \<open>The page\<close>





section \<open>From the push to the page\<close>








section \<open>What can go wrong\<close>

text \<open>A list of machines that cannot be read is shown as an account without devices.\<close>

lemma unreadable_list_shows_no_devices:
  "\<not> up Machines \<Longrightarrow> s_stat (list_page up accountScope version s) = NoDevices"
proof -
  assume "\<not> up Machines"
  then have "apiDevices up accountScope s = []" by (simp add: apiDevices_def devicePCs_def ListPCs_def)
  then show ?thesis by (simp add: list_page_def devices_main_def jget_def ok_status_def)
qed

end
