(* ===== verification/Dispatch.thy ===== *)
theory Dispatch
  imports Webhook SessionStore
begin

text \<open>
  The notifications of a shared machine (\<^verbatim>\<open>web/webhookdispatch.go\<close>, \<^verbatim>\<open>slavePush\<close> and \<^verbatim>\<open>slaveDelete\<close> of
  \<^verbatim>\<open>web/slave.go\<close>, \<^verbatim>\<open>Send\<close> of \<^verbatim>\<open>webhook/webhook.go\<close>): at every push the server compares what it is told
  with what the store held, and calls the webhook of the owner for the sessions that have finished.
  The specification keeps nothing but the last status it was told of each session.
\<close>

section \<open>The dispatch\<close>

definition NotifyStates :: "string set" where
  "NotifyStates = {''idle'', ''done'', ''blocked''}"

definition sessionStatusByKey :: "(reading \<Rightarrow> bool) \<Rightarrow> string \<Rightarrow> 'h store \<Rightarrow> string \<rightharpoonup> string" where
  "sessionStatusByKey up pc s = (case ListSessions up pc s of
     None \<Rightarrow> Map.empty
   | Some ss \<Rightarrow> foldl (\<lambda>out x. let key = strField x ''key'' in
       if key = [] then out else out(key \<mapsto> strField x ''agent_status'')) Map.empty ss)"

record hook_payload =
  y_pc :: string
  y_sid :: string
  y_window_name :: string
  y_agent :: string
  y_cwd :: string
  y_old_status :: string
  y_new_status :: string
  y_at :: int

text \<open>The calls the loop starts, each in its own goroutine.\<close>

fun dispatch_list :: "int \<Rightarrow> string \<Rightarrow> (string \<rightharpoonup> string) \<Rightarrow> fields list \<Rightarrow> hook_payload list" where
  "dispatch_list now pc old [] = []"
| "dispatch_list now pc old (x # xs) =
     (let key = strField x ''key''; newStatus = strField x ''agent_status'' in
      if key = [] then dispatch_list now pc old xs
      else if newStatus \<notin> NotifyStates then dispatch_list now pc old xs
      else (case old key of
          None \<Rightarrow> dispatch_list now pc old xs
        | Some oldStatus \<Rightarrow>
            if oldStatus \<noteq> ''working'' \<or> oldStatus = newStatus then dispatch_list now pc old xs
            else \<lparr>y_pc = pc, y_sid = key, y_window_name = strField x ''window_name'', y_agent = strField x ''agent'',
                y_cwd = strField x ''cwd'', y_old_status = oldStatus, y_new_status = newStatus, y_at = now\<rparr> #
              dispatch_list now pc old xs))"

definition dispatchWebhooksForTransitions :: "fs_read \<Rightarrow> int \<Rightarrow> string \<Rightarrow> (string \<rightharpoonup> string) \<Rightarrow> fields list \<Rightarrow> hook_payload list" where
  "dispatchWebhooksForTransitions settings now pc old sessions = (case GetWebhookConfig settings of
     None \<Rightarrow> []
   | Some cfg \<Rightarrow> if \<not> g_enabled cfg then [] else dispatch_list now pc old sessions)"


section \<open>The handlers\<close>

text \<open>A push: each session comes with the answers of the store to its read and its write. The answer, the
  store and the calls of the webhook.\<close>

definition slavePush :: "(fields \<Rightarrow> 'h) \<Rightarrow> int \<Rightarrow> (reading \<Rightarrow> bool) \<Rightarrow> fs_read \<Rightarrow> int \<Rightarrow> string \<Rightarrow>
    (fields \<times> bool \<times> write_answer) list option \<Rightarrow> bool \<Rightarrow> 'h store \<Rightarrow> nat option response \<times> 'h store \<times> hook_payload list" where
  "slavePush sha verify up settings now pc body touched s = (case body of
     None \<Rightarrow> (Response 400 None, s, [])
   | Some xs \<Rightarrow>
       let oldStatus = sessionStatusByKey up pc s; (s', changed, err) = pushSessions sha verify now pc xs touched s in
       if err then (Response 500 None, s', [])
       else (Response 200 (Some changed), s', dispatchWebhooksForTransitions settings now pc oldStatus (map fst xs)))"




section \<open>Specification\<close>




section \<open>What the store says of a session\<close>














section \<open>The calls\<close>






section \<open>Runs\<close>




section \<open>The requests\<close>




section \<open>Properties\<close>


section \<open>Witness\<close>



lemma demo_fields: "strField demo_session ''key'' = ''s1''" "strField demo_later ''key'' = ''s1''"
  "strField demo_session ''agent_status'' = ''working''" "strField demo_later ''agent_status'' = ''idle''"
  by (simp_all add: strField_def demo_session_def demo_later_def)


section \<open>What can go wrong\<close>

text \<open>A push that fails after it has written a session is answered with an error before anything is sent; when
  the machine pushes again, the store already has the new status, and nothing is sent either.\<close>

lemma failed_push_loses_the_notification:
  assumes "s0 = fst (push_one id PushVerifyEvery 0 ''p1'' demo_session True Done store_init)"
    and "slavePush id PushVerifyEvery (\<lambda>_. True) settings 1 ''p1'' (Some [(demo_later, True, Unsure)]) True s0 = (r1, s1, calls1)"
    and "slavePush id PushVerifyEvery (\<lambda>_. True) settings 2 ''p1'' (Some [(demo_later, True, Done)]) True s1 = (r2, s2, calls2)"
  shows "r1 = Response 500 None \<and> calls1 = [] \<and> r2 = Response 200 (Some 0) \<and> calls2 = []"
proof -
  have s1: "r1 = Response 500 None \<and> calls1 = [] \<and> st_docs s1 ''p1'' =
      [(''s1'', \<lparr>x_fields = demo_later, x_version = 2, x_hash = Some demo_later\<rparr>)] \<and> st_cache s1 (cache_key ''p1'' ''s1'') = None"
    using assms(1,2) by (auto simp: slavePush_def pushSessions_def push_run_defs PushVerifyEvery_def Let_def)
  moreover have "sessionStatusByKey (\<lambda>_. True) ''p1'' s1 ''s1'' = Some ''idle''"
    using s1 by (simp add: sessionStatusByKey_def ListSessions_def demo_fields)
  ultimately show ?thesis
    using assms(3)
    by (auto simp: slavePush_def pushSessions_def push_one_def push_checked_def push_hit_def push_decide_def contentHash_def
        demo_keys demo_fields dispatchWebhooksForTransitions_def Let_def remember_def split: option.splits if_splits)
qed

end
