(* ===== verification/SignIn.thy ===== *)
theory SignIn
  imports Access Query
begin

text \<open>
  How people and machines come in (\<^verbatim>\<open>webauth/webauth.go\<close>; \<^verbatim>\<open>web/web.go\<close>: \<^verbatim>\<open>New\<close>, \<^verbatim>\<open>auth\<close>, \<^verbatim>\<open>authGoogle\<close>,
  \<^verbatim>\<open>apiEnroll\<close>, \<^verbatim>\<open>enroll\<close>; \<^verbatim>\<open>state/state.go\<close>: \<^verbatim>\<open>CreatePairing\<close>, \<^verbatim>\<open>ConsumePairing\<close>, \<^verbatim>\<open>ClearRevoked\<close>): a login with Google
  gives a signed cookie for twelve hours; with the cookie one makes a code for a new machine, which
  is good for a quarter of an hour; the machine exchanges the code for what it needs. The Google
  verifier, the MAC with the encoding of the cookie, and the hash of the codes are parameters;
  upper and lower case and white space are those of ASCII.
\<close>

section \<open>Codes\<close>

definition codeAlphabet :: string where
  "codeAlphabet = ''ABCDEFGHJKMNPQRSTUVWXYZ23456789''"

text \<open>\<open>None\<close>: there is no randomness; else the eight random bytes.\<close>

definition GenCode :: "8 word list option \<Rightarrow> string option" where
  "GenCode b = map_option (map (\<lambda>x. codeAlphabet ! (unat x mod length codeAlphabet))) b"

definition go_upper :: "string \<Rightarrow> string" where
  "go_upper = map (\<lambda>c. if c \<in> set ''abcdefghijklmnopqrstuvwxyz'' then char_of (of_char c - 32 :: nat) else c)"

definition go_lower :: "string \<Rightarrow> string" where
  "go_lower = map (\<lambda>c. if c \<in> set ''ABCDEFGHIJKLMNOPQRSTUVWXYZ'' then char_of (of_char c + 32 :: nat) else c)"

definition go_space :: "char \<Rightarrow> bool" where
  "go_space c \<longleftrightarrow> of_char c \<in> {9, 10, 11, 12, 13, 32 :: nat}"

definition TrimSpace :: "string \<Rightarrow> string" where
  "TrimSpace s = rev (dropWhile go_space (rev (dropWhile go_space s)))"

definition NormalizeCode :: "string \<Rightarrow> string" where
  "NormalizeCode s = filter (\<lambda>c. c \<noteq> CHR '' '') (filter (\<lambda>c. c \<noteq> CHR ''-'') (go_upper (TrimSpace s)))"

definition HashCode :: "(string \<Rightarrow> string) \<Rightarrow> string \<Rightarrow> string" where
  "HashCode sha256Hex code = sha256Hex (NormalizeCode code)"

section \<open>Cookies\<close>

record web_token =
  tk_pc :: string
  tk_scope :: string
  tk_exp :: int

text \<open>The payload of a token (base64url of its JSON) with the way back, and the signature of a payload.\<close>

record cookie_signer =
  ck_payload :: "web_token \<Rightarrow> string"
  ck_read :: "string \<Rightarrow> web_token option"
  ck_mac :: "string \<Rightarrow> string"

definition Sign :: "cookie_signer \<Rightarrow> web_token \<Rightarrow> string" where
  "Sign k t = (let p = ck_payload k t; sig = ck_mac k p in p @ ''.'' @ sig)"

definition Verify :: "cookie_signer \<Rightarrow> nat \<Rightarrow> string \<Rightarrow> web_token option" where
  "Verify k now tok = (case str_indexOf tok ''.'' of
     None \<Rightarrow> None
   | Some i \<Rightarrow>
       if i = 0 \<or> i = length tok - 1 then None
       else let p = take i tok; sig = drop (i + 1) tok in
         if sig \<noteq> ck_mac k p then None
         else (case ck_read k p of
             None \<Rightarrow> None
           | Some t \<Rightarrow> if tk_exp t \<noteq> 0 \<and> int (unix now) > tk_exp t then None else Some t))"

section \<open>The server\<close>

record site_config =
  u_signer :: cookie_signer
  u_clientID :: string
  u_allowedEmails :: string
  u_enrollSA :: string
  u_sha256Hex :: "string \<Rightarrow> string"
  u_google :: "string \<Rightarrow> string \<Rightarrow> (string \<times> bool) option"

definition allowed :: "site_config \<Rightarrow> string set" where
  "allowed cfg = set (filter (\<lambda>e. e \<noteq> []) (map (\<lambda>e. go_lower (TrimSpace e)) (str_split CHR '','' (u_allowedEmails cfg))))"

definition auth :: "site_config \<Rightarrow> nat \<Rightarrow> string option \<Rightarrow> web_token option" where
  "auth cfg now cookie = (case cookie of None \<Rightarrow> None | Some c \<Rightarrow> Verify (u_signer cfg) now c)"

definition cookieTTL :: nat where
  "cookieTTL = seconds 43200"

record login_request =
  lr_post :: bool
  lr_csrf_cookie :: "string option"
  lr_csrf :: string
  lr_credential :: string

text \<open>The status of an error, or a token and the cookie that is set.\<close>

definition authGoogle :: "site_config \<Rightarrow> nat \<Rightarrow> login_request \<Rightarrow> nat + web_token \<times> string" where
  "authGoogle cfg now q =
     (if \<not> lr_post q then Inl 405
      else if (case lr_csrf_cookie q of None \<Rightarrow> True | Some v \<Rightarrow> v = [] \<or> v \<noteq> lr_csrf q) then Inl 403
      else if lr_credential q = [] then Inl 400
      else (case u_google cfg (lr_credential q) (u_clientID cfg) of
          None \<Rightarrow> Inl 401
        | Some (email, verified) \<Rightarrow>
            if email = [] \<or> \<not> verified then Inl 401
            else if go_lower email \<notin> allowed cfg then Inl 403
            else let t = \<lparr>tk_pc = email, tk_scope = accountScope, tk_exp = int (unix (now + cookieTTL))\<rparr>
              in Inr (t, Sign (u_signer cfg) t)))"

text \<open>\<^verbatim>\<open>pairings/{hash}\<close>: the scope and the time in seconds.\<close>

record pairing =
  pg_pc :: string
  pg_scope :: string
  pg_expires_at :: nat

type_synonym pairings = "string \<rightharpoonup> pairing"

definition CreatePairing :: "bool \<Rightarrow> nat \<Rightarrow> string \<Rightarrow> string \<Rightarrow> string \<Rightarrow> nat \<Rightarrow> pairings \<Rightarrow> pairings option" where
  "CreatePairing writable now h pc scope ttl ps =
     (if writable then Some (ps(h \<mapsto> \<lparr>pg_pc = pc, pg_scope = scope, pg_expires_at = unix (now + ttl)\<rparr>)) else None)"

definition ConsumePairing :: "bool \<Rightarrow> bool \<Rightarrow> nat \<Rightarrow> string \<Rightarrow> pairings \<Rightarrow> (string \<times> string) option \<times> pairings" where
  "ConsumePairing rd deleted now h ps = (case (if rd then ps h else None) of
     None \<Rightarrow> (None, ps)
   | Some d \<Rightarrow>
       let ps = (if deleted then ps(h := None) else ps) in
       if now > seconds (pg_expires_at d) then (None, ps) else (Some (pg_pc d, pg_scope d), ps))"

definition enrollTTL :: nat where
  "enrollTTL = seconds 900"

text \<open>The handler for the owner, behind \<^verbatim>\<open>apiGuard\<close>: a status, or the code.\<close>

definition apiEnroll :: "site_config \<Rightarrow> nat \<Rightarrow> string option \<Rightarrow> string \<Rightarrow> 8 word list option \<Rightarrow> bool \<Rightarrow> pairings \<Rightarrow>
    (nat + string) \<times> pairings" where
  "apiEnroll cfg now cookie role bytes writable ps = (case auth cfg now cookie of
     None \<Rightarrow> (Inl 401, ps)
   | Some t \<Rightarrow> (case GenCode bytes of
       None \<Rightarrow> (Inl 500, ps)
     | Some code \<Rightarrow>
         let scope = (if role = ''slave'' then ''enroll-slave'' else ''enroll'') in
         (case CreatePairing writable now (HashCode (u_sha256Hex cfg) code) [] scope enrollTTL ps of
            None \<Rightarrow> (Inl 500, ps)
          | Some ps \<Rightarrow> (Inr code, ps))))"

definition ClearRevoked :: "string \<Rightarrow> world \<Rightarrow> world" where
  "ClearRevoked pc w = (if pc = [] \<or> \<not> w_up w ''revoked'' then w else w\<lparr>w_revoked := (w_revoked w)(pc := False)\<rparr>)"

text \<open>What the exchange of a code answers: an error; the key of the service account, if there is one; or
  the secret of a shared machine. \<open>secret\<close> is its randomness, \<open>bound\<close> says whether the transaction succeeds.\<close>

datatype exchange_answer = Rejected nat | JoinedMaster "string option" | JoinedSlave string string

definition enroll_machine :: "site_config \<Rightarrow> bool \<Rightarrow> string \<Rightarrow> string \<Rightarrow> string \<Rightarrow> string option \<Rightarrow> bool \<Rightarrow> bool \<Rightarrow> bool \<Rightarrow> world \<Rightarrow> pairings \<Rightarrow>
    exchange_answer \<times> world \<times> pairings" where
  "enroll_machine cfg post form_code json_code pc secret rd deleted bound w ps =
     (let code = (if form_code = [] then json_code else form_code) in
      if \<not> post then (Rejected 405, w, ps)
      else if code = [] then (Rejected 400, w, ps)
      else (case ConsumePairing rd deleted (w_now w) (HashCode (u_sha256Hex cfg) code) ps of
          (None, ps) \<Rightarrow> (Rejected 401, w, ps)
        | (Some (p, scope), ps) \<Rightarrow>
            if scope \<noteq> ''enroll'' \<and> scope \<noteq> ''enroll-slave'' then (Rejected 401, w, ps)
            else if scope = ''enroll-slave''
            then (if pc = [] then (Rejected 400, w, ps)
              else if \<not> ValidPCName pc then (Rejected 400, w, ps)
              else (case secret of
                  None \<Rightarrow> (Rejected 500, w, ps)
                | Some secret \<Rightarrow>
                    if \<not> bound then (Rejected 500, w, ps)
                    else let (okBind, w) = BindSlave pc (u_sha256Hex cfg secret) w in
                      if \<not> okBind then (Rejected 409, w, ps)
                      else (JoinedSlave pc secret, ClearRevoked pc w, ps)))
            else (JoinedMaster (if u_enrollSA cfg \<noteq> [] then Some (u_enrollSA cfg) else None), w, ps)))"

section \<open>Runs\<close>

text \<open>History: the logins and the codes given out, and the hashes of the codes that were taken.\<close>

record login =
  in_at :: nat
  in_request :: login_request
  in_token :: web_token
  in_cookie :: string

record invitation =
  iv_at :: nat
  iv_code :: string
  iv_slave :: bool
  iv_token :: web_token

record site =
  s_world :: world
  s_pairings :: pairings
  s_logins :: "login list"
  s_invites :: "invitation list"
  s_taken :: "string list"

definition site_init :: "world \<Rightarrow> site" where
  "site_init w = \<lparr>s_world = w, s_pairings = Map.empty, s_logins = [], s_invites = [], s_taken = []\<rparr>"

datatype site_event =
    LogIn login_request
  | Invite_machine "string option" string "8 word list option" bool
  | Exchange bool string string string "string option" bool bool bool
  | Meanwhile "world \<Rightarrow> world" nat

fun let_in :: "exchange_answer \<Rightarrow> bool" where
  "let_in (Rejected n) = False"
| "let_in (JoinedMaster sa) = True"
| "let_in (JoinedSlave pc secret) = True"

text \<open>Anything may happen to the other documents meanwhile; the time goes on.\<close>

fun site_step :: "site_config \<Rightarrow> site \<Rightarrow> site_event \<Rightarrow> site" where
  "site_step cfg s (LogIn q) = (case authGoogle cfg (w_now (s_world s)) q of
     Inl n \<Rightarrow> s
   | Inr (t, c) \<Rightarrow> s\<lparr>s_logins := s_logins s @ [\<lparr>in_at = w_now (s_world s), in_request = q, in_token = t, in_cookie = c\<rparr>]\<rparr>)"
| "site_step cfg s (Invite_machine cookie role bytes writable) =
     (case apiEnroll cfg (w_now (s_world s)) cookie role bytes writable (s_pairings s) of
        (Inl n, ps) \<Rightarrow> s\<lparr>s_pairings := ps\<rparr>
      | (Inr code, ps) \<Rightarrow> s\<lparr>s_pairings := ps, s_invites := s_invites s @ [\<lparr>iv_at = w_now (s_world s), iv_code = code,
          iv_slave = (role = ''slave''), iv_token = the (auth cfg (w_now (s_world s)) cookie)\<rparr>]\<rparr>)"
| "site_step cfg s (Exchange post fc jc pc secret rd deleted bound) =
     (let (a, w, ps) = enroll_machine cfg post fc jc pc secret rd deleted bound (s_world s) (s_pairings s) in
      s\<lparr>s_world := w, s_pairings := ps, s_taken := (if let_in a
        then s_taken s @ [HashCode (u_sha256Hex cfg) (if fc = [] then jc else fc)] else s_taken s)\<rparr>)"
| "site_step cfg s (Meanwhile f n) = s\<lparr>s_world := (f (s_world s))\<lparr>w_now := w_now (s_world s) + n\<rparr>\<rparr>"

text \<open>Encodings have no dot and read back; nobody but the server signs: a cookie whose signature
  fits carries the payload of a token that a login gave out.\<close>

definition signer_ok :: "cookie_signer \<Rightarrow> bool" where
  "signer_ok k \<longleftrightarrow> (\<forall>t. ck_read k (ck_payload k t) = Some t \<and> ck_payload k t \<noteq> [] \<and> CHR ''.'' \<notin> set (ck_payload k t) \<and>
     ck_mac k (ck_payload k t) \<noteq> [])"

definition unforged :: "site_config \<Rightarrow> site \<Rightarrow> string option \<Rightarrow> bool" where
  "unforged cfg s cookie \<longleftrightarrow> (\<forall>p. cookie = Some (p @ ''.'' @ ck_mac (u_signer cfg) p) \<longrightarrow>
     p \<in> (\<lambda>l. ck_payload (u_signer cfg) (in_token l)) ` set (s_logins s))"

fun unforged_run :: "site_config \<Rightarrow> site \<Rightarrow> site_event list \<Rightarrow> bool" where
  "unforged_run cfg s [] = True"
| "unforged_run cfg s (e # es) \<longleftrightarrow>
     (case e of Invite_machine cookie role bytes writable \<Rightarrow> unforged cfg s cookie | _ \<Rightarrow> True) \<and>
     unforged_run cfg (site_step cfg s e) es"

section \<open>Documents that are used once\<close>

text \<open>What a client may rely on when it takes a document (\<^verbatim>\<open>ConsumePairing\<close>, and \<^verbatim>\<open>ConsumeOAuthCode\<close>): it was
  there and still good, and if the deletion succeeds nobody takes it again.\<close>

locale one_time =
  fixes consume :: "bool \<Rightarrow> bool \<Rightarrow> nat \<Rightarrow> string \<Rightarrow> (string \<rightharpoonup> 'd) \<Rightarrow> 'r option \<times> (string \<rightharpoonup> 'd)"
    and good :: "nat \<Rightarrow> 'd \<Rightarrow> bool" and view :: "'d \<Rightarrow> 'r"
  assumes taken: "consume rd del now h ps = (Some r, ps') \<Longrightarrow> \<exists>d. ps h = Some d \<and> good now d \<and> r = view d"
    and deleted: "consume rd True now h ps = (Some r, ps') \<Longrightarrow> ps' = ps(h := None)"
    and only_less: "snd (consume rd del now h ps) h' = Some d \<Longrightarrow> ps h' = Some d"
begin

lemma gone: "ps h = None \<Longrightarrow> fst (consume rd del now h ps) = None"
  using taken by (cases "consume rd del now h ps"; cases "fst (consume rd del now h ps)") force+

lemma taken_once:
  assumes "consume rd True now h ps = (Some r, ps')" "\<And>d. ps'' h = Some d \<Longrightarrow> ps' h = Some d"
  shows "fst (consume rd' del' now' h ps'') = None"
proof -
  from deleted [OF assms(1)] have "ps' h = None" by simp
  with assms(2) have "ps'' h = None" by (metis option.exhaust)
  then show ?thesis by (rule gone)
qed

end

section \<open>Cookies and codes read back\<close>

lemma indexOf_dot: "str_indexOf s ''.'' = Some i \<Longrightarrow> s = take i s @ ''.'' @ drop (i + 1) s \<and> i < length s"
proof (induction s arbitrary: i)
  case (Cons c s)
  then show ?case by (cases i) (auto split: if_splits)
qed simp

lemma Verify_SomeD:
  assumes "Verify k now tok = Some t"
  shows "\<exists>p. tok = p @ ''.'' @ ck_mac k p \<and> ck_read k p = Some t \<and> (tk_exp t = 0 \<or> int (unix now) \<le> tk_exp t)"
proof -
  from assms obtain i where i: "str_indexOf tok ''.'' = Some i" "drop (i + 1) tok = ck_mac k (take i tok)"
    "ck_read k (take i tok) = Some t" "tk_exp t = 0 \<or> int (unix now) \<le> tk_exp t"
    by (auto simp: Verify_def Let_def not_less split: option.splits if_splits)
  from indexOf_dot [OF i(1)] i(2-4) show ?thesis by metis
qed

text \<open>A cookie reads back until its time has passed; without a time it always does.\<close>

lemma Verify_Sign:
  assumes "signer_ok k"
  shows "Verify k now (Sign k t) = (if tk_exp t \<noteq> 0 \<and> int (unix now) > tk_exp t then None else Some t)"
proof -
  have k: "ck_read k (ck_payload k t) = Some t" "ck_payload k t \<noteq> []" "CHR ''.'' \<notin> set (ck_payload k t)"
    "ck_mac k (ck_payload k t) \<noteq> []" using assms by (simp_all add: signer_ok_def)
  from k(2,4) have "length (ck_payload k t) \<noteq> 0" "length (ck_payload k t) \<noteq> length (Sign k t) - 1"
    by (simp_all add: Sign_def Let_def)
  with str_indexOf_char [OF k(3), of "ck_mac k (ck_payload k t)"] k(1) show ?thesis by (simp add: Verify_def Sign_def Let_def)
qed

lemma alphabet_char:
  "c \<in> set codeAlphabet \<Longrightarrow>
   \<not> go_space c \<and> c \<notin> set ''abcdefghijklmnopqrstuvwxyz'' \<and> c \<noteq> CHR ''-'' \<and> c \<noteq> CHR '' ''"
  by (auto simp: codeAlphabet_def go_space_def)

lemma GenCode_chars: "GenCode b = Some code \<Longrightarrow> set code \<subseteq> set codeAlphabet"
  by (auto simp: GenCode_def codeAlphabet_def intro!: nth_mem simp del: set_simps)

lemma NormalizeCode_code:
  assumes "set code \<subseteq> set codeAlphabet"
  shows "NormalizeCode code = code"
proof -
  have c: "\<not> go_space c" "c \<notin> set ''abcdefghijklmnopqrstuvwxyz''" "c \<noteq> CHR ''-''" "c \<noteq> CHR '' ''" if "c \<in> set code" for c
    using alphabet_char assms that by blast+
  have trim: "dropWhile go_space xs = xs" if "set xs \<subseteq> set code" for xs
    using c(1) that by (cases xs) auto
  have "TrimSpace code = code" by (simp add: TrimSpace_def trim)
  moreover have "go_upper code = code" unfolding go_upper_def by (rule map_idI) (use c(2) in auto)
  ultimately show ?thesis using c(3,4) by (simp add: NormalizeCode_def filter_id_conv)
qed

section \<open>The invariant\<close>

definition login_ok :: "site_config \<Rightarrow> login \<Rightarrow> bool" where
  "login_ok cfg l \<longleftrightarrow> authGoogle cfg (in_at l) (in_request l) = Inr (in_token l, in_cookie l)"

definition invite_ok :: "login list \<Rightarrow> invitation \<Rightarrow> bool" where
  "invite_ok ls v \<longleftrightarrow> set (iv_code v) \<subseteq> set codeAlphabet \<and>
     (\<exists>l \<in> set ls. in_at l \<le> iv_at v \<and> in_token l = iv_token v \<and> int (unix (iv_at v)) \<le> tk_exp (iv_token v))"

definition pairing_ok :: "site_config \<Rightarrow> invitation list \<Rightarrow> string \<Rightarrow> pairing \<Rightarrow> bool" where
  "pairing_ok cfg vs h d \<longleftrightarrow> (\<exists>v \<in> set vs. h = HashCode (u_sha256Hex cfg) (iv_code v) \<and>
     d = \<lparr>pg_pc = [], pg_scope = (if iv_slave v then ''enroll-slave'' else ''enroll''), pg_expires_at = unix (iv_at v + enrollTTL)\<rparr>)"

definition site_ok :: "site_config \<Rightarrow> site \<Rightarrow> bool" where
  "site_ok cfg s \<longleftrightarrow>
     list_all (\<lambda>l. login_ok cfg l \<and> in_at l \<le> w_now (s_world s)) (s_logins s) \<and>
     list_all (\<lambda>v. invite_ok (s_logins s) v \<and> iv_at v \<le> w_now (s_world s)) (s_invites s) \<and>
     (\<forall>h d. s_pairings s h = Some d \<longrightarrow> pairing_ok cfg (s_invites s) h d)"

lemma authGoogle_token:
  assumes "authGoogle cfg now q = Inr (t, c)"
  shows "c = Sign (u_signer cfg) t \<and> tk_exp t = int (unix (now + cookieTTL)) \<and> tk_exp t \<noteq> 0 \<and>
    (\<exists>email. u_google cfg (lr_credential q) (u_clientID cfg) = Some (email, True) \<and> go_lower email \<in> allowed cfg \<and> tk_pc t = email)"
proof -
  have "unix (now + cookieTTL) \<noteq> 0" by (simp add: unix_def cookieTTL_def seconds_def)
  with assms show ?thesis by (auto simp: authGoogle_def Let_def split: if_splits option.splits)
qed

lemma unforged_token:
  assumes "signer_ok (u_signer cfg)" "unforged cfg s cookie" "auth cfg now cookie = Some t"
  shows "\<exists>l \<in> set (s_logins s). in_token l = t \<and> (tk_exp t = 0 \<or> int (unix now) \<le> tk_exp t)"
proof -
  from assms(3) obtain c where c: "cookie = Some c" "Verify (u_signer cfg) now c = Some t"
    by (auto simp: auth_def split: option.splits)
  from Verify_SomeD [OF c(2)] obtain p where p: "c = p @ ''.'' @ ck_mac (u_signer cfg) p" "ck_read (u_signer cfg) p = Some t"
    "tk_exp t = 0 \<or> int (unix now) \<le> tk_exp t" by blast
  from assms(2) c(1) p(1) obtain l where l: "l \<in> set (s_logins s)" "p = ck_payload (u_signer cfg) (in_token l)"
    by (auto simp: unforged_def)
  with p(2) assms(1) have "in_token l = t" by (simp add: signer_ok_def)
  with l p(3) show ?thesis by blast
qed

lemma invite_ok_more: "invite_ok ls v \<Longrightarrow> invite_ok (ls @ ls') v"
  by (auto simp: invite_ok_def)

lemma pairing_ok_more: "pairing_ok cfg vs h d \<Longrightarrow> pairing_ok cfg (vs @ vs') h d"
  by (auto simp: pairing_ok_def)

lemma site_ok_later:
  assumes "site_ok cfg s" "w_now (s_world s) \<le> w_now (s_world s')" "s_logins s' = s_logins s" "s_invites s' = s_invites s"
    and "\<And>h d. s_pairings s' h = Some d \<Longrightarrow> s_pairings s h = Some d"
  shows "site_ok cfg s'"
  using assms by (fastforce simp: site_ok_def list_all_iff)

lemma login_step:
  assumes "site_ok cfg s"
  shows "site_ok cfg (site_step cfg s (LogIn q))"
proof (cases "authGoogle cfg (w_now (s_world s)) q")
  case (Inr tc)
  with assms show ?thesis by (cases tc) (auto simp: site_ok_def login_ok_def list_all_iff intro: invite_ok_more)
qed (simp add: assms)

lemma invite_step:
  assumes ok: "site_ok cfg s" and k: "signer_ok (u_signer cfg)" and f: "unforged cfg s cookie"
  shows "site_ok cfg (site_step cfg s (Invite_machine cookie role bytes writable))"
proof (cases "apiEnroll cfg (w_now (s_world s)) cookie role bytes writable (s_pairings s)")
  case (Pair r ps)
  let ?now = "w_now (s_world s)"
  show ?thesis
  proof (cases r)
    case (Inl n)
    then have "ps = s_pairings s" using Pair by (auto simp: apiEnroll_def Let_def split: option.splits)
    with Pair Inl ok show ?thesis by (simp add: site_ok_def)
  next
    case (Inr code)
    with Pair obtain t where t: "auth cfg ?now cookie = Some t" "GenCode bytes = Some code"
      and ps: "ps = (s_pairings s)(HashCode (u_sha256Hex cfg) code \<mapsto> \<lparr>pg_pc = [],
          pg_scope = (if role = ''slave'' then ''enroll-slave'' else ''enroll''), pg_expires_at = unix (?now + enrollTTL)\<rparr>)"
      by (auto simp: apiEnroll_def CreatePairing_def Let_def split: option.splits if_splits)
    let ?v = "\<lparr>iv_at = ?now, iv_code = code, iv_slave = (role = ''slave''), iv_token = t\<rparr>"
    have s': "site_step cfg s (Invite_machine cookie role bytes writable) = s\<lparr>s_pairings := ps, s_invites := s_invites s @ [?v]\<rparr>"
      using Pair Inr t(1) by simp
    obtain l where l: "l \<in> set (s_logins s)" "in_token l = t" "tk_exp t = 0 \<or> int (unix ?now) \<le> tk_exp t"
      using unforged_token [OF k f t(1)] by blast
    with ok authGoogle_token [of cfg "in_at l" "in_request l" t "in_cookie l"] have "in_at l \<le> ?now" "tk_exp t \<noteq> 0"
      by (auto simp: site_ok_def login_ok_def list_all_iff)
    with l GenCode_chars [OF t(2)] have v: "invite_ok (s_logins s) ?v" by (auto simp: invite_ok_def)
    have "pairing_ok cfg (s_invites s @ [?v]) h d" if "ps h = Some d" for h d
      using that ok pairing_ok_more [of cfg "s_invites s" h d "[?v]"]
      by (auto simp: ps site_ok_def pairing_ok_def split: if_splits)
    with v ok show ?thesis unfolding s' by (simp add: site_ok_def)
  qed
qed

interpretation pairing: one_time ConsumePairing "\<lambda>now d. now \<le> seconds (pg_expires_at d)" "\<lambda>d. (pg_pc d, pg_scope d)"
  by unfold_locales (auto simp: ConsumePairing_def Let_def not_less split: option.splits if_splits)

lemma enroll_pairings:
  "snd (snd (enroll_machine cfg post fc jc pc secret rd deleted bound w ps)) \<in>
   {ps, snd (ConsumePairing rd deleted (w_now w) (HashCode (u_sha256Hex cfg) (if fc = [] then jc else fc)) ps)}"
  by (cases "ConsumePairing rd deleted (w_now w) (HashCode (u_sha256Hex cfg) (if fc = [] then jc else fc)) ps")
    (auto simp: enroll_machine_def Let_def split_beta split: option.splits)

lemma enroll_now: "w_now (fst (snd (enroll_machine cfg post fc jc pc secret rd deleted bound w ps))) = w_now w"
  by (auto simp: enroll_machine_def Let_def split_beta BindSlave_def ClearRevoked_def split: option.splits)

lemma exchange_step:
  assumes "site_ok cfg s"
  shows "site_ok cfg (site_step cfg s (Exchange post fc jc pc secret rd deleted bound))"
proof -
  obtain a w ps where e: "enroll_machine cfg post fc jc pc secret rd deleted bound (s_world s) (s_pairings s) = (a, w, ps)"
    by (metis prod_cases3)
  have now: "w_now w = w_now (s_world s)"
    using enroll_now [of cfg post fc jc pc secret rd deleted bound "s_world s" "s_pairings s"] by (simp add: e)
  have "s_pairings s h = Some d" if "ps h = Some d" for h d
    using enroll_pairings [of cfg post fc jc pc secret rd deleted bound "s_world s" "s_pairings s"] pairing.only_less that
    by (auto simp: e)
  with now show ?thesis by (intro site_ok_later [OF assms]) (simp_all add: e)
qed

lemma site_run_ok:
  assumes "signer_ok (u_signer cfg)" "site_ok cfg s" "unforged_run cfg s es"
  shows "site_ok cfg (run (site_step cfg) s es)"
  using assms(2-)
proof (induction es arbitrary: s)
  case (Cons e es)
  have "site_ok cfg (site_step cfg s e)"
  proof (cases e)
    case (LogIn q)
    with login_step [OF Cons.prems(1)] show ?thesis by simp
  next
    case (Invite_machine cookie role bytes writable)
    with invite_step [OF Cons.prems(1) assms(1)] Cons.prems(2) show ?thesis by simp
  next
    case (Exchange post fc jc pc secret rd deleted bound)
    with exchange_step [OF Cons.prems(1)] show ?thesis by simp
  next
    case (Meanwhile f n)
    then show ?thesis by (intro site_ok_later [OF Cons.prems(1)]) simp_all
  qed
  with Cons show ?case by simp
qed simp

lemma enroll_joined:
  assumes "enroll_machine cfg post fc jc pc secret rd deleted bound w ps = (a, w', ps')" "let_in a"
  shows "\<exists>p scope. ConsumePairing rd deleted (w_now w) (HashCode (u_sha256Hex cfg) (if fc = [] then jc else fc)) ps = (Some (p, scope), ps') \<and>
    (case a of JoinedSlave pc secret \<Rightarrow> scope = ''enroll-slave'' \<and> ValidPCName pc | _ \<Rightarrow> scope = ''enroll'')"
proof -
  obtain r ps1 where c: "ConsumePairing rd deleted (w_now w) (HashCode (u_sha256Hex cfg) (if fc = [] then jc else fc)) ps = (r, ps1)"
    by fastforce
  show ?thesis
  proof (cases r)
    case None
    with assms c show ?thesis by (auto simp: enroll_machine_def Let_def split: if_splits)
  next
    case (Some ro)
    obtain p scope where r: "r = Some (p, scope)" using Some by (cases ro) auto
    from assms c r show ?thesis by (auto simp: enroll_machine_def Let_def split_beta split: if_splits option.splits)
  qed
qed

section \<open>Codes are used up\<close>

fun deletes :: "site_event \<Rightarrow> bool" where
  "deletes (Exchange post fc jc pc secret rd deleted bound) = deleted"
| "deletes _ = True"

definition given_out :: "site_config \<Rightarrow> site \<Rightarrow> string list" where
  "given_out cfg s = map (\<lambda>v. HashCode (u_sha256Hex cfg) (iv_code v)) (s_invites s)"

definition unused :: "pairings \<Rightarrow> string \<Rightarrow> nat" where
  "unused ps h = (case ps h of None \<Rightarrow> 0 | Some d \<Rightarrow> 1)"

definition used_up :: "site_config \<Rightarrow> site \<Rightarrow> bool" where
  "used_up cfg s \<longleftrightarrow> (\<forall>h. count_list (s_taken s) h + unused (s_pairings s) h \<le> count_list (given_out cfg s) h)"

lemma used_up_more:
  assumes "used_up cfg s"
    and "\<And>h. count_list (s_taken s') h + unused (s_pairings s') h + count_list (given_out cfg s) h \<le>
      count_list (s_taken s) h + unused (s_pairings s) h + count_list (given_out cfg s') h"
  shows "used_up cfg s'"
  unfolding used_up_def
proof
  fix h
  have "count_list (s_taken s) h + unused (s_pairings s) h \<le> count_list (given_out cfg s) h"
    using assms(1) by (simp add: used_up_def)
  with assms(2) [of h] show "count_list (s_taken s') h + unused (s_pairings s') h \<le> count_list (given_out cfg s') h" by linarith
qed

lemma unused_fewer: "(\<And>d. ps' h = Some d \<Longrightarrow> ps h = Some d) \<Longrightarrow> unused ps' h \<le> unused ps h"
  by (cases "ps' h") (simp_all add: unused_def)

lemma used_up_step:
  assumes "used_up cfg s" "deletes e"
  shows "used_up cfg (site_step cfg s e)"
proof (cases e)
  case (LogIn q)
  then show ?thesis by (intro used_up_more [OF assms(1)]) (auto simp: given_out_def split: sum.split)
next
  case (Invite_machine cookie role bytes writable)
  obtain r ps where c: "apiEnroll cfg (w_now (s_world s)) cookie role bytes writable (s_pairings s) = (r, ps)" by fastforce
  show ?thesis
  proof (cases r)
    case (Inl n)
    with c have "ps = s_pairings s" by (auto simp: apiEnroll_def Let_def split: option.splits)
    with c Inl show ?thesis by (intro used_up_more [OF assms(1)]) (simp add: Invite_machine given_out_def)
  next
    case (Inr code)
    with c obtain d where "ps = (s_pairings s)(HashCode (u_sha256Hex cfg) code \<mapsto> d)"
      by (auto simp: apiEnroll_def CreatePairing_def Let_def split: option.splits if_splits)
    with c Inr show ?thesis
      by (intro used_up_more [OF assms(1)]) (simp add: Invite_machine given_out_def unused_def split: option.split)
  qed
next
  case (Exchange post fc jc pc secret rd deleted bound)
  obtain a w ps where c: "enroll_machine cfg post fc jc pc secret rd deleted bound (s_world s) (s_pairings s) = (a, w, ps)"
    by (metis prod_cases3)
  have d: "deleted = True" using assms(2) by (simp add: Exchange)
  let ?h = "HashCode (u_sha256Hex cfg) (if fc = [] then jc else fc)"
  show ?thesis
  proof (cases "let_in a")
    case True
    from enroll_joined [OF c True] d obtain r where "ConsumePairing rd True (w_now (s_world s)) ?h (s_pairings s) = (Some r, ps)" by blast
    from pairing.taken [OF this] pairing.deleted [OF this] have h: "s_pairings s ?h \<noteq> None" "ps = (s_pairings s)(?h := None)" by auto
    have "site_step cfg s e = s\<lparr>s_world := w, s_pairings := ps, s_taken := s_taken s @ [?h]\<rparr>" using c True by (simp add: Exchange)
    then show ?thesis using h by (intro used_up_more [OF assms(1)]) (auto simp: given_out_def unused_def)
  next
    case False
    have "s_pairings s h = Some d" if "ps h = Some d" for h d
      using enroll_pairings [of cfg post fc jc pc secret rd deleted bound "s_world s" "s_pairings s"] pairing.only_less that
      by (auto simp: c)
    then have "unused ps h \<le> unused (s_pairings s) h" for h by (rule unused_fewer)
    with c False show ?thesis by (intro used_up_more [OF assms(1)]) (simp add: Exchange given_out_def)
  qed
next
  case (Meanwhile f n)
  then show ?thesis by (intro used_up_more [OF assms(1)]) (simp add: given_out_def)
qed

text \<open>No code lets in more machines than it was given out for, as long as the deletions succeed.\<close>

lemma codes_used_up:
  assumes "list_all deletes es"
  shows "count_list (s_taken (run (site_step cfg) (site_init w) es)) h \<le>
    count_list (given_out cfg (run (site_step cfg) (site_init w) es)) h"
proof -
  have "used_up cfg s \<Longrightarrow> used_up cfg (run (site_step cfg) s es)" for s
    using assms by (induction es arbitrary: s) (simp_all add: used_up_step)
  moreover have "used_up cfg (site_init w)" by (simp add: used_up_def site_init_def unused_def)
  ultimately show ?thesis by (meson add_leD1 used_up_def)
qed

section \<open>Properties\<close>

text \<open>C12. Every machine that is let in was invited: whoever exchanges a code, at whatever time and after whatever
  logins, requests and changes of the documents, gets in only with a code that the server gave out at most a
  quarter of an hour before, as the kind of machine it was given out for, to a browser which carried the cookie of a
  login at most twelve hours old (to the second) that Google had verified for an address on the list. The
  key of the service account never goes to a shared machine.\<close>

theorem enrolled_machines_were_invited:
  assumes "signer_ok (u_signer cfg)" "inj (u_sha256Hex cfg)" "unforged_run cfg (site_init w) es"
    and "s = run (site_step cfg) (site_init w) es" "code = (if fc = [] then jc else fc)"
    and "enroll_machine cfg post fc jc pc secret rd deleted bound (s_world s) (s_pairings s) = (a, w', ps')" "let_in a"
  shows "\<exists>v l email. v \<in> set (s_invites s) \<and> l \<in> set (s_logins s) \<and> NormalizeCode code = iv_code v \<and>
    iv_at v \<le> w_now (s_world s) \<and> w_now (s_world s) \<le> iv_at v + enrollTTL \<and>
    (case a of JoinedSlave pc secret \<Rightarrow> iv_slave v \<and> ValidPCName pc | _ \<Rightarrow> \<not> iv_slave v) \<and>
    in_at l \<le> iv_at v \<and> unix (iv_at v) \<le> unix (in_at l + cookieTTL) \<and>
    u_google cfg (lr_credential (in_request l)) (u_clientID cfg) = Some (email, True) \<and> go_lower email \<in> allowed cfg"
proof -
  let ?h = "HashCode (u_sha256Hex cfg) code" and ?now = "w_now (s_world s)"
  have "site_ok cfg (site_init w)" by (simp add: site_ok_def site_init_def)
  from site_run_ok [OF assms(1) this assms(3)] have ok: "site_ok cfg s" by (simp add: assms(4))
  from enroll_joined [OF assms(6,7)] obtain p scope where c: "ConsumePairing rd deleted ?now ?h (s_pairings s) = (Some (p, scope), ps')"
    and a: "case a of JoinedSlave pc secret \<Rightarrow> scope = ''enroll-slave'' \<and> ValidPCName pc | _ \<Rightarrow> scope = ''enroll''"
    unfolding assms(5) by blast
  from pairing.taken [OF c] obtain d where d: "s_pairings s ?h = Some d" "?now \<le> seconds (pg_expires_at d)"
    "scope = pg_scope d" by auto
  with ok obtain v where v: "v \<in> set (s_invites s)" "?h = HashCode (u_sha256Hex cfg) (iv_code v)"
    "pg_expires_at d = unix (iv_at v + enrollTTL)" "scope = (if iv_slave v then ''enroll-slave'' else ''enroll'')"
    by (force simp: site_ok_def pairing_ok_def)
  from ok v(1) have at: "iv_at v \<le> ?now" "invite_ok (s_logins s) v" by (auto simp: site_ok_def list_all_iff)
  then obtain l where l: "l \<in> set (s_logins s)" "in_at l \<le> iv_at v" "in_token l = iv_token v" "int (unix (iv_at v)) \<le> tk_exp (iv_token v)"
    and chars: "set (iv_code v) \<subseteq> set codeAlphabet" by (auto simp: invite_ok_def)
  from v(2) assms(2) NormalizeCode_code [OF chars] have code: "NormalizeCode code = iv_code v" by (simp add: HashCode_def inj_eq)
  have "seconds (unix t) \<le> t" for t by (simp add: seconds_def unix_def)
  with d(2) v(3) have time: "?now \<le> iv_at v + enrollTTL" by (metis order_trans)
  from ok l(1) have "authGoogle cfg (in_at l) (in_request l) = Inr (iv_token v, in_cookie l)"
    by (auto simp: site_ok_def login_ok_def list_all_iff l(3))
  with authGoogle_token obtain email where "tk_exp (iv_token v) = int (unix (in_at l + cookieTTL))"
    "u_google cfg (lr_credential (in_request l)) (u_clientID cfg) = Some (email, True)" "go_lower email \<in> allowed cfg" by blast
  with v(1) l code at(1) time a v(4) show ?thesis by (intro exI conjI) (auto split: exchange_answer.splits if_splits)
qed

section \<open>Witness\<close>

text \<open>A signer whose payloads read back: the three fields percent-encoded.\<close>

definition demo_quote :: "string \<Rightarrow> string" where
  "demo_quote s = concat (map pct s)"

definition demo_signer :: cookie_signer where
  "demo_signer = \<lparr>ck_payload = (\<lambda>t. str_join CHR ''/'' [demo_quote (tk_pc t), demo_quote (tk_scope t), demo_quote (int_to_string (tk_exp t))]),
     ck_read = (\<lambda>p. case str_split CHR ''/'' p of
         [a, b, c] \<Rightarrow> map_option (\<lambda>e. \<lparr>tk_pc = percent_decode a, tk_scope = percent_decode b, tk_exp = e\<rparr>) (js_parseInt (percent_decode c))
       | _ \<Rightarrow> None),
     ck_mac = (\<lambda>p. ''sig'')\<rparr>"

lemma demo_quote_reads: "percent_decode (demo_quote s) = s" "set (demo_quote s) \<subseteq> set (CHR ''%'' # alnum)"
proof -
  show "percent_decode (demo_quote s) = s" by (induction s) (simp_all add: demo_quote_def percent_decode_pct)
  show "set (demo_quote s) \<subseteq> set (CHR ''%'' # alnum)" using pct_chars by (force simp: demo_quote_def)
qed

lemma demo_signer_ok: "signer_ok demo_signer"
proof -
  have plain: "CHR ''/'' \<notin> set (demo_quote s)" "CHR ''.'' \<notin> set (demo_quote s)" for s
    using demo_quote_reads(2) [of s] by (auto simp: alnum_def)
  have "str_split CHR ''/'' (str_join CHR ''/'' [demo_quote a, demo_quote b, demo_quote c]) = [demo_quote a, demo_quote b, demo_quote c]" for a b c
    by (rule str_split_join) (auto simp: plain)
  with plain(2) show ?thesis
    by (auto simp: signer_ok_def demo_signer_def demo_quote_reads(1) parseInt_int_to_string simp del: str_join.simps) (auto)
qed

definition demo_site :: site_config where
  "demo_site = \<lparr>u_signer = demo_signer, u_clientID = ''c'', u_allowedEmails = ''A@b , d'', u_enrollSA = ''key'', u_sha256Hex = id,
     u_google = (\<lambda>cred client. if cred = ''g'' then Some (''a@b'', True) else None)\<rparr>"

definition demo_token :: web_token where
  "demo_token = \<lparr>tk_pc = ''a@b'', tk_scope = ''*'', tk_exp = 43200\<rparr>"

text \<open>A login, an hour later a code, and five minutes later its exchange.\<close>

definition demo_visit :: "site_event list" where
  "demo_visit = [LogIn \<lparr>lr_post = True, lr_csrf_cookie = Some ''x'', lr_csrf = ''x'', lr_credential = ''g''\<rparr>,
     Meanwhile id (seconds 3600), Invite_machine (Some (Sign demo_signer demo_token)) [] (Some (replicate 8 0)) True,
     Meanwhile id (seconds 300)]"

lemma demo_login:
  "authGoogle demo_site 0 \<lparr>lr_post = True, lr_csrf_cookie = Some ''x'', lr_csrf = ''x'', lr_credential = ''g''\<rparr> =
    Inr (demo_token, Sign demo_signer demo_token)"
proof -
  have "str_split CHR '','' ''A@b , d'' = [''A@b '', '' d'']" by simp
  moreover have "go_lower (TrimSpace ''A@b '') = ''a@b''" "go_lower ''a@b'' = ''a@b''" by code_simp+
  ultimately have "go_lower ''a@b'' \<in> allowed demo_site" by (simp add: allowed_def demo_site_def)
  then show ?thesis
    by (simp add: authGoogle_def Let_def demo_site_def demo_token_def accountScope_def unix_def cookieTTL_def seconds_def)
qed

lemma demo_code: "GenCode (Some (replicate 8 0)) = Some ''AAAAAAAA''" "NormalizeCode ''AAAAAAAA'' = ''AAAAAAAA''"
  "NormalizeCode '' aaaa-aaaa'' = ''AAAAAAAA''"
  by code_simp+

lemma demo_auth: "auth demo_site (seconds 3600) (Some (Sign demo_signer demo_token)) = Some demo_token"
  using Verify_Sign [OF demo_signer_ok, of "seconds 3600" demo_token]
  by (simp add: auth_def demo_site_def) (simp add: demo_token_def unix_def seconds_def)

lemma demo_signer_at: "u_signer demo_site = demo_signer" "u_sha256Hex demo_site = id"
  by (simp_all add: demo_site_def)

lemma demo_visited:
  assumes s: "s = run (site_step demo_site) (site_init demo_world) demo_visit"
  shows "w_now (s_world s) = seconds 3900" "s_invites s = [\<lparr>iv_at = seconds 3600, iv_code = ''AAAAAAAA'', iv_slave = False, iv_token = demo_token\<rparr>]"
    "s_pairings s = [''AAAAAAAA'' \<mapsto> \<lparr>pg_pc = [], pg_scope = ''enroll'', pg_expires_at = 4500\<rparr>]"
    "unforged_run demo_site (site_init demo_world) demo_visit"
proof -
  let ?q = "\<lparr>lr_post = True, lr_csrf_cookie = Some ''x'', lr_csrf = ''x'', lr_credential = ''g''\<rparr>"
  let ?s2 = "site_step demo_site (site_step demo_site (site_init demo_world) (LogIn ?q)) (Meanwhile id (seconds 3600))"
  have w: "w_now demo_world = 0" by (simp add: demo_world_def)
  have s2: "?s2 = \<lparr>s_world = demo_world\<lparr>w_now := seconds 3600\<rparr>, s_pairings = Map.empty,
      s_logins = [\<lparr>in_at = 0, in_request = ?q, in_token = demo_token, in_cookie = Sign demo_signer demo_token\<rparr>], s_invites = [], s_taken = []\<rparr>"
    by (simp add: site_init_def w demo_login)
  have expires: "unix (seconds 3600 + enrollTTL) = 4500" by (simp add: unix_def seconds_def enrollTTL_def)
  have later: "seconds 3600 + seconds 300 = seconds 3900" by (simp add: seconds_def)
  have invite: "apiEnroll demo_site (seconds 3600) (Some (Sign demo_signer demo_token)) [] (Some (replicate 8 0)) True Map.empty =
      (Inr ''AAAAAAAA'', [''AAAAAAAA'' \<mapsto> \<lparr>pg_pc = [], pg_scope = ''enroll'', pg_expires_at = 4500\<rparr>])"
    unfolding apiEnroll_def demo_auth option.case demo_code(1) CreatePairing_def HashCode_def demo_signer_at demo_code(2)
    by (simp add: expires)
  have run: "s = site_step demo_site (site_step demo_site ?s2 (Invite_machine (Some (Sign demo_signer demo_token)) [] (Some (replicate 8 0)) True))
      (Meanwhile id (seconds 300))"
    by (simp only: s demo_visit_def run.simps)
  have fin: "s = \<lparr>s_world = demo_world\<lparr>w_now := seconds 3900\<rparr>, s_pairings = [''AAAAAAAA'' \<mapsto> \<lparr>pg_pc = [], pg_scope = ''enroll'', pg_expires_at = 4500\<rparr>],
      s_logins = [\<lparr>in_at = 0, in_request = ?q, in_token = demo_token, in_cookie = Sign demo_signer demo_token\<rparr>],
      s_invites = [\<lparr>iv_at = seconds 3600, iv_code = ''AAAAAAAA'', iv_slave = False, iv_token = demo_token\<rparr>], s_taken = []\<rparr>"
    unfolding run s2 by (simp add: invite demo_auth later)
  from fin show "w_now (s_world s) = seconds 3900" "s_invites s = [\<lparr>iv_at = seconds 3600, iv_code = ''AAAAAAAA'', iv_slave = False, iv_token = demo_token\<rparr>]"
    "s_pairings s = [''AAAAAAAA'' \<mapsto> \<lparr>pg_pc = [], pg_scope = ''enroll'', pg_expires_at = 4500\<rparr>]" by simp_all
  have "unforged demo_site ?s2 (Some (Sign demo_signer demo_token))"
    unfolding s2 by (simp add: unforged_def demo_signer_at Sign_def Let_def) (simp add: demo_signer_def)
  then show "unforged_run demo_site (site_init demo_world) demo_visit" by (simp add: demo_visit_def)
qed

theorem enrolled_machines_were_invited_witness:
  "let s = run (site_step demo_site) (site_init demo_world) demo_visit in \<exists>w' ps' v l.
     enroll_machine demo_site True '' aaaa-aaaa'' [] [] None True True True (s_world s) (s_pairings s) = (JoinedMaster (Some ''key''), w', ps') \<and>
     v \<in> set (s_invites s) \<and> iv_code v = ''AAAAAAAA'' \<and> l \<in> set (s_logins s) \<and> in_at l \<le> iv_at v"
proof -
  let ?s = "run (site_step demo_site) (site_init demo_world) demo_visit"
  have e: "enroll_machine demo_site True '' aaaa-aaaa'' [] [] None True True True (s_world ?s) (s_pairings ?s) =
      (JoinedMaster (Some ''key''), s_world ?s, Map.empty)"
    unfolding enroll_machine_def HashCode_def demo_signer_at
    by (simp add: demo_code(3) demo_visited(1,3) [OF refl] ConsumePairing_def seconds_def) (simp add: demo_site_def)
  have "inj (u_sha256Hex demo_site)" "signer_ok (u_signer demo_site)" by (simp_all add: demo_signer_at demo_signer_ok)
  from enrolled_machines_were_invited [OF this(2,1) demo_visited(4) [OF refl] refl refl e] demo_code(3)
  show ?thesis using e by (fastforce simp: Let_def)
qed

section \<open>What can go wrong\<close>

text \<open>A code whose deletion fails lets in a second machine: the error of the deletion is ignored.\<close>

lemma code_used_twice:
  assumes "ps (HashCode (u_sha256Hex cfg) code) = Some \<lparr>pg_pc = [], pg_scope = ''enroll'', pg_expires_at = e\<rparr>" "w_now w \<le> seconds e" "code \<noteq> []"
  shows "let (a, w', ps') = enroll_machine cfg True code [] [] None True False True w ps;
      (a', w'', ps'') = enroll_machine cfg True code [] [] None True True True w' ps' in let_in a \<and> let_in a'"
  using assms by (simp add: enroll_machine_def ConsumePairing_def Let_def)

end
