(* ===== verification/OAuth.thy ===== *)
theory OAuth
  imports SignIn
begin

text \<open>
  The authorization server for clients of the MCP interface (\<^verbatim>\<open>oauth/\<close>, \<^verbatim>\<open>state/oauth.go\<close>): a client registers its
  redirect addresses, the owner consents to it in the browser, the client exchanges the code it gets
  back for an access and a refresh token, and the refresh token for the next pair. Codes and tokens
  are stored under their hashes. Parameters are the hashes, \<^verbatim>\<open>url.Parse\<close>, and all randomness; white
  space is that of ASCII, the documents decode, and a write that fails leaves nothing behind.
\<close>

section \<open>Redirect addresses\<close>

record url_parts =
  ul_scheme :: string
  ul_host :: string
  ul_port :: string
  ul_path :: string

record redirect_rule =
  rr_port :: string
  rr_path :: string

fun last_index :: "char \<Rightarrow> string \<Rightarrow> nat option" where
  "last_index c [] = None"
| "last_index c (d # s) = (case last_index c s of Some i \<Rightarrow> Some (Suc i) | None \<Rightarrow> if d = c then Some 0 else None)"

text \<open>An entry of the list: \<^verbatim>\<open>host\<close>, \<^verbatim>\<open>host/path\<close>, \<^verbatim>\<open>host:port\<close> or \<^verbatim>\<open>host:port/path\<close>.\<close>

definition redirect_entry :: "string \<Rightarrow> (string \<times> redirect_rule) option" where
  "redirect_entry h =
     (let h = TrimSpace h in
      if h = [] then None
      else let (hostPort, path) = (case str_indexOf h ''/'' of Some i \<Rightarrow> (take i h, drop i h) | None \<Rightarrow> (h, []));
               (host, port) = (case last_index CHR '':'' hostPort of
                  Some i \<Rightarrow> (take i hostPort, drop (i + 1) hostPort) | None \<Rightarrow> (hostPort, []));
               host = go_lower host
           in if host \<noteq> [] then Some (host, \<lparr>rr_port = port, rr_path = path\<rparr>) else None)"




text \<open>\<open>o_selfBase\<close> is the address of the server without slashes at its end, \<open>o_url\<close> is \<^verbatim>\<open>url.Parse\<close> with \<^verbatim>\<open>Hostname\<close> and \<^verbatim>\<open>Port\<close>, \<open>o_challenge\<close> the challenge of a verifier.\<close>

record oauth_config =
  o_site :: site_config
  o_redirectHosts :: string
  o_selfBase :: string
  o_url :: "string \<Rightarrow> url_parts option"
  o_challenge :: "string \<Rightarrow> string"


section \<open>Documents\<close>

record oauth_code =
  oc_client_id :: string
  oc_email :: string
  oc_scopes :: "string list"
  oc_code_challenge :: string
  oc_redirect_uri :: string
  oc_resource :: string
  oc_exp :: nat

record oauth_token =
  ot_kind :: string
  ot_email :: string
  ot_client_id :: string
  ot_scopes :: "string list"
  ot_exp :: nat
  ot_family :: string
  ot_superseded :: bool

text \<open>History: the clients that were registered, what the owner consented to, and the codes that were exchanged.\<close>

record consent =
  cs_at :: nat
  cs_cookie :: "string option"
  cs_code :: oauth_code

record redemption =
  re_at :: nat
  re_code :: oauth_code
  re_verifier :: string

record oauth =
  oa_now :: nat
  oa_clients :: "string \<rightharpoonup> string \<times> string list"
  oa_codes :: "string \<rightharpoonup> oauth_code"
  oa_tokens :: "string \<rightharpoonup> oauth_token"
  oa_registered :: "(string \<times> string list) list"
  oa_consents :: "consent list"
  oa_redeemed :: "redemption list"




definition CreateOAuthToken :: "string \<Rightarrow> oauth_token \<Rightarrow> oauth \<Rightarrow> oauth" where
  "CreateOAuthToken h t s = s\<lparr>oa_tokens := (oa_tokens s)(h \<mapsto> t\<lparr>ot_superseded := False\<rparr>)\<rparr>"

definition GetOAuthTokenRaw :: "bool \<Rightarrow> string \<Rightarrow> oauth \<Rightarrow> oauth_token option" where
  "GetOAuthTokenRaw rd h s = (if rd then oa_tokens s h else None)"

text \<open>A merge into a document that is not there makes one with nothing but the mark.\<close>

definition no_token :: oauth_token where
  "no_token = \<lparr>ot_kind = [], ot_email = [], ot_client_id = [], ot_scopes = [], ot_exp = 0, ot_family = [], ot_superseded = False\<rparr>"

definition MarkOAuthTokenSuperseded :: "string \<Rightarrow> oauth \<Rightarrow> oauth" where
  "MarkOAuthTokenSuperseded h s = s\<lparr>oa_tokens := (oa_tokens s)(h \<mapsto>
     (case oa_tokens s h of None \<Rightarrow> no_token | Some t \<Rightarrow> t)\<lparr>ot_superseded := True\<rparr>)\<rparr>"



text \<open>\<open>kept\<close> are the documents not deleted: the listing or a deletion has failed before it came to them.\<close>

definition RevokeOAuthTokenFamily :: "(string \<Rightarrow> bool) \<Rightarrow> string \<Rightarrow> oauth \<Rightarrow> oauth" where
  "RevokeOAuthTokenFamily kept family s = s\<lparr>oa_tokens := (\<lambda>h. case oa_tokens s h of
     None \<Rightarrow> None
   | Some t \<Rightarrow> if ot_family t = family \<and> \<not> kept h then None else Some t)\<rparr>"

section \<open>The handlers\<close>











definition accessTTLFor :: "string list \<Rightarrow> nat" where
  "accessTTLFor scopes = (if ''drover.admin'' \<in> set scopes then seconds 900 else seconds 3600)"

definition refreshTokenTTL :: nat where
  "refreshTokenTTL = seconds (30 * 24 * 3600)"

text \<open>A pair: the two tokens, the seconds the first one lives, and the scopes. The random strings are
  \<open>None\<close> when there is no randomness; \<open>wa\<close> and \<open>wr\<close> say which write succeeds.\<close>

datatype token_answer = TokenError nat | TokenPair string string nat "string list"

record token_luck =
  rn_family :: "string option"
  rn_access :: "string option"
  rn_refresh :: "string option"
  rn_wa :: bool
  rn_wr :: bool

definition issueTokenPair :: "oauth_config \<Rightarrow> string \<Rightarrow> string \<Rightarrow> string list \<Rightarrow> string \<Rightarrow> token_luck \<Rightarrow> oauth \<Rightarrow> token_answer \<times> oauth" where
  "issueTokenPair cfg email clientID scopes family rn s =
     (case (if family = [] then rn_family rn else Some family) of
        None \<Rightarrow> (TokenError 500, s)
      | Some family \<Rightarrow> (case rn_access rn of
          None \<Rightarrow> (TokenError 500, s)
        | Some access \<Rightarrow> (case rn_refresh rn of
            None \<Rightarrow> (TokenError 500, s)
          | Some refresh \<Rightarrow>
              let accessTTL = accessTTLFor scopes;
                  sha = u_sha256Hex (o_site cfg);
                  t = \<lparr>ot_kind = ''access'', ot_email = email, ot_client_id = clientID, ot_scopes = scopes,
                       ot_exp = oa_now s + accessTTL, ot_family = family, ot_superseded = False\<rparr> in
              if \<not> rn_wa rn then (TokenError 500, s)
              else let s = CreateOAuthToken (sha access) t s in
                if \<not> rn_wr rn then (TokenError 500, s)
                else let s = CreateOAuthToken (sha refresh)
                       (t\<lparr>ot_kind := ''refresh'', ot_exp := oa_now s + refreshTokenTTL\<rparr>) s
                     in (TokenPair access refresh (unix accessTTL) scopes, s))))"


text \<open>The check of a refresh token, and the exchange; \<open>marked\<close> says whether the mark is written.\<close>

definition refresh_check :: "oauth_config \<Rightarrow> string \<Rightarrow> bool \<Rightarrow> (string \<Rightarrow> bool) \<Rightarrow> oauth \<Rightarrow> (oauth_token + nat) \<times> oauth" where
  "refresh_check cfg raw rd kept s =
     (if raw = [] then (Inr 400, s)
      else (case GetOAuthTokenRaw rd (u_sha256Hex (o_site cfg) raw) s of
          None \<Rightarrow> (Inr 400, s)
        | Some t \<Rightarrow>
            if ot_kind t \<noteq> ''refresh'' then (Inr 400, s)
            else if ot_superseded t then (Inr 400, RevokeOAuthTokenFamily kept (ot_family t) s)
            else if oa_now s > ot_exp t then (Inr 400, s)
            else (Inl t, s)))"

definition refresh_exchange :: "oauth_config \<Rightarrow> string \<Rightarrow> oauth_token \<Rightarrow> bool \<Rightarrow> token_luck \<Rightarrow> oauth \<Rightarrow> token_answer \<times> oauth" where
  "refresh_exchange cfg raw t marked rn s =
     (if \<not> marked then (TokenError 500, s)
      else issueTokenPair cfg (ot_email t) (ot_client_id t) (ot_scopes t) (ot_family t) rn
        (MarkOAuthTokenSuperseded (u_sha256Hex (o_site cfg) raw) s))"





section \<open>Runs\<close>



section \<open>Where a token comes from\<close>






















section \<open>Families of tokens\<close>

definition family_gone :: "string \<Rightarrow> oauth \<Rightarrow> bool" where
  "family_gone f s \<longleftrightarrow> (\<forall>h t. oa_tokens s h = Some t \<longrightarrow> ot_family t \<noteq> f)"







lemma family_gone_same [simp]: "family_gone f (s\<lparr>oa_codes := cs\<rparr>) = family_gone f s"
  "family_gone f (s\<lparr>oa_codes := cs, oa_redeemed := rs\<rparr>) = family_gone f s"
  by (simp_all add: family_gone_def)













section \<open>Properties\<close>



section \<open>Witnesses\<close>












section \<open>What can go wrong\<close>

text \<open>The check and the exchange are two steps. Two requests with the same refresh token that are both checked
  before one is exchanged both get a pair, and nothing is found out.\<close>

lemma refreshed_twice_at_once:
  assumes "refresh_check cfg raw True kept s = (Inl t, s)" "rn_access rn \<noteq> None" "rn_refresh rn \<noteq> None" "rn_wa rn" "rn_wr rn" "ot_family t \<noteq> []"
  shows "let (r1, s1) = refresh_exchange cfg raw t True rn s; (r2, s2) = refresh_exchange cfg raw t True rn s1 in
    (\<exists>a r n sc. r1 = TokenPair a r n sc) \<and> (\<exists>a r n sc. r2 = TokenPair a r n sc)"
  using assms(2-) by (auto simp: refresh_exchange_def issueTokenPair_def Let_def split: option.split)

text \<open>An exchange that was checked before the family is revoked brings it back to life.\<close>

lemma revoked_family_comes_back:
  assumes "refresh_check cfg raw True kept s = (Inl t, s)" "rn_access rn = Some a" "rn_refresh rn = Some r" "rn_wa rn" "rn_wr rn" "ot_family t \<noteq> []"
    and "s1 = RevokeOAuthTokenFamily (\<lambda>h. False) (ot_family t) s" "u_sha256Hex (o_site cfg) a \<noteq> u_sha256Hex (o_site cfg) r"
  shows "map_option ot_family (oa_tokens (snd (refresh_exchange cfg raw t True rn s1)) (u_sha256Hex (o_site cfg) a)) = Some (ot_family t)"
  using assms(2-) by (simp add: refresh_exchange_def issueTokenPair_def CreateOAuthToken_def Let_def)

text \<open>No entry of the list admits the third loopback host, \<^verbatim>\<open>::1\<close>: what follows the last colon is taken for a port.\<close>

lemma ipv6_loopback_is_never_listed:
  "redirect_entry ''::1'' = Some ('':'', \<lparr>rr_port = ''1'', rr_path = []\<rparr>)"
  "redirect_entry ''[::1]'' = Some (''[:'', \<lparr>rr_port = ''1]'', rr_path = []\<rparr>)"
  "redirect_entry ''[::1]:8787/cb'' = Some (''[::1]'', \<lparr>rr_port = ''8787'', rr_path = ''/cb''\<rparr>)"
  by code_simp+

end
