(* ===== verification/Spec2Isabelle.thy ===== *)
theory Spec2Isabelle
  imports Wire Mailbox Notifications Webhook Isolation Startup PageStart PageRefinement LoopBounds EndToEnd
  Listing Dispatch OAuth
begin

text \<open>
  \<^bold>\<open>drover-cloud, the browser side and the relay behind it.\<close> A relay server pairs a producer (an
  agent's terminal on some PC) with a page in the browser. The scripts under \<^verbatim>\<open>src/web/static\<close> are that page:
  \<^verbatim>\<open>term.js\<close> and \<^verbatim>\<open>sync.js\<close> show one terminal, \<^verbatim>\<open>devices.js\<close> lists the PCs and their
  sessions, \<^verbatim>\<open>firebase-messaging-sw.js\<close> shows push notifications while no page is open.
  This development models these scripts and proves what makes them correct; of the server, in Go, it
  models the parts the scripts rest on: the relay, who is let in to it, the bridges on the machines and
  the proxy in the web server, the queue of remote commands, the store of the sessions behind the lists, the
  settings of the webhook and its calls, the login, the enrolment of machines, and the authorization server
  for MCP clients.

  \<^bold>\<open>How the parts interact.\<close> A message of the WebSocket goes through the META filter
  (\<^verbatim>\<open>cmMakeMetaFilter\<close>), which takes out the control payloads (\<^verbatim>\<open>onMeta\<close>) and a history
  the page already has, then through the synchronized-update shim (\<^verbatim>\<open>cmMakeSyncFilter\<close>),
  which holds a screen update back until it is complete, to \<^verbatim>\<open>term.write\<close>. Input goes through
  \<^verbatim>\<open>sendBytes\<close> to the current socket or to a queue; the gates decide when a closed line is
  dialled again. The semi-auto switch, the restart buttons and the image path use the same line
  or the command API. Links lead from the list of devices, and from the switch buttons, to the page
  of a console. On the server, each WebSocket is a call of \<^verbatim>\<open>serve\<close> with a goroutine of its own; the calls
  of one session key pair up and copy what they read to the other side; the key is chosen at
  admission, from the grants, tokens and cookies. On a machine, a bridge pumps bytes between its
  connection to the relay and the terminal, until the line is quiet; where the relay is another
  server, the web server pumps in the same way between the browser and that relay. A command that a page posts becomes a document
  in the queue of a machine, which claims it once.

  Machines push the state of their sessions at every tick; the store writes what has changed, and
  the list of devices shows it. A push of a shared machine also calls the webhook of the owner. The owner
  signs in with Google, and makes the codes with which new machines enrol; with the same cookie he
  consents to clients of the MCP interface, which exchange their codes for tokens.

  \<^bold>\<open>Theories, in the order of their imports.\<close>
  \<^item> \<open>Prelude\<close>: bytes, prefixes, labelled runs with an invariant (locale \<open>guarded_system\<close>) and
    filters fed chunk by chunk (locale \<open>chunked_filter\<close>).
  \<^item> \<open>ByteSearch\<close> (\<^verbatim>\<open>sync.js\<close>): \<^verbatim>\<open>indexOf\<close>, \<^verbatim>\<open>tailPrefix\<close>, \<^verbatim>\<open>concat\<close>, their
    specification, and the locale \<open>marker_machine\<close> of filters that cut a stream at markers;
    its one law about cutting (\<open>seek_append\<close>) is proved from the search itself.
  \<^item> \<open>SyncFilter\<close> (\<^verbatim>\<open>sync.js\<close>) and \<open>MetaFilter\<close> (\<^verbatim>\<open>term.js\<close>): the two filters as the
    loops of the code, shown to be marker machines; each refines a lexer of the whole stream,
    loses nothing and does not depend on where messages are cut.
  \<^item> \<open>MetaSearch\<close> (\<^verbatim>\<open>term.js\<close>): the search functions that \<^verbatim>\<open>cmMakeMetaFilter\<close> has of its
    own, shown to be those of the shim. \<open>LoopBounds\<close>: the loops of both filters pass by pass, with
    the number of passes they take at most.
  \<^item> \<open>JsRuntime\<close>, \<open>Query\<close>: the string, number, percent-encoding and query functions of
    JavaScript the scripts call, with their round trips.
  \<^item> \<open>Frames\<close> (\<^verbatim>\<open>term.js\<close>): \<^verbatim>\<open>resizeFrame\<close>, \<^verbatim>\<open>HELLO_V2\<close>, \<^verbatim>\<open>PAD_KEYS\<close>,
    \<^verbatim>\<open>cmImageExt\<close>, \<^verbatim>\<open>cmImageFrame\<close> and a decoder of the documented layout.
  \<^item> \<open>Geometry\<close> (\<^verbatim>\<open>term.js\<close>): \<^verbatim>\<open>cmLastContentRow\<close>, \<^verbatim>\<open>cmTrackScroll\<close>,
    \<^verbatim>\<open>fitFont\<close>, the scroll proxy of wire v2, the floating pad.
  \<^item> \<open>Terminal\<close> (\<^verbatim>\<open>term.js\<close>): \<^verbatim>\<open>cmParseMeta\<close>, \<^verbatim>\<open>onMeta\<close>, the settle and scroll
    handlers and the data path; \<open>e_log\<close> holds the calls made to xterm.js in order.
  \<^item> \<open>PageInvariant\<close>: the well-formed states of these variables and what the filters hold back,
    over all events of the page.
  \<^item> \<open>SemiAuto\<close> (\<^verbatim>\<open>term.js\<close>): \<^verbatim>\<open>cmSemiAutoView\<close> and the handlers of the switch.
  \<^item> \<open>Connection\<close> (\<^verbatim>\<open>term.js\<close>): \<^verbatim>\<open>cmReconnectGate\<close>, \<^verbatim>\<open>cmWatchGate\<close>, the sockets
    with \<^verbatim>\<open>onopen\<close>, \<^verbatim>\<open>onmessage\<close>, \<^verbatim>\<open>onclose\<close>, \<^verbatim>\<open>onerror\<close>, \<^verbatim>\<open>requestConnect\<close>,
    \<^verbatim>\<open>sendBytes\<close>, \<^verbatim>\<open>flushQ\<close>, the document listener, the watch tick and the retry timer. The
    record \<open>conn\<close> holds the variables of \<^verbatim>\<open>run\<close> (\<open>c_ws\<close> is \<^verbatim>\<open>ws\<close>, \<open>c_q\<close> is
    \<^verbatim>\<open>inputQ\<close>, and so on); \<open>conn_step\<close> takes one event of the browser or the user.
  \<^item> \<open>Mailbox\<close>: what the data line promises, as a step relation; that the line implements it; and that
    no input stays in the queue for good.
  \<^item> \<open>Isolation\<close>: events of sockets that are not current leave no trace. \<open>Startup\<close>: whole
    connections from end to end, through both filters, \<^verbatim>\<open>onMeta\<close> and the sockets.
  \<^item> \<open>PageRefinement\<close>: the page behind the sockets is the page of \<open>Terminal\<close>, so its invariants
    hold whatever the line does.
  \<^item> \<open>PageStart\<close> (\<^verbatim>\<open>term.js\<close>): the start of \<^verbatim>\<open>run\<close>, the URL of the WebSocket, the push
    subscription with its failures, \<^verbatim>\<open>scheduleLand\<close>.
  \<^item> \<open>Console\<close> (\<^verbatim>\<open>term.js\<close>): page parameters, \<^verbatim>\<open>buildConsoleList\<close>, \<^verbatim>\<open>termURL\<close>,
    \<^verbatim>\<open>setupSwitch\<close>.
  \<^item> \<open>Commands\<close> (\<^verbatim>\<open>term.js\<close>): key handlers, \<^verbatim>\<open>sendImageBlob\<close> and its callers, the
    two restart buttons.
  \<^item> \<open>Wire\<close>: what the producer reads on a socket, all messages as one stream of bytes.
  \<^item> \<open>Versions\<close> (\<^verbatim>\<open>devices.js\<close>): \<^verbatim>\<open>relNum\<close>, \<^verbatim>\<open>cmpRel\<close>, \<^verbatim>\<open>updateAvailable\<close>,
    \<^verbatim>\<open>statusDot\<close>, against releases as an instance of \<open>linorder\<close>.
  \<^item> \<open>DevicesPage\<close> (\<^verbatim>\<open>devices.js\<close>): \<^verbatim>\<open>jget\<close>, \<^verbatim>\<open>postCmd\<close>, \<^verbatim>\<open>main\<close>,
    \<^verbatim>\<open>cmdAudit\<close>, the buttons of a card, \<^verbatim>\<open>setupAdd\<close>.
  \<^item> \<open>Webhook\<close>: \<^verbatim>\<open>setupWebhook\<close> of \<^verbatim>\<open>devices.js\<close> with the handlers it talks to
    (\<^verbatim>\<open>web/webhooksettings.go\<close>, \<^verbatim>\<open>state/webhook.go\<close>, \<^verbatim>\<open>webhook/webhook.go\<close>) as one
    system of requests, answers and the stored document.
  \<^item> \<open>Notifications\<close>: \<^verbatim>\<open>setupPush\<close> of \<^verbatim>\<open>devices.js\<close>, and
    \<^verbatim>\<open>firebase-messaging-sw.js\<close>.
  \<^item> \<open>Relay\<close> (\<^verbatim>\<open>relay/relay.go\<close>): \<^verbatim>\<open>serve\<close>, \<^verbatim>\<open>writePeer\<close> and the lone timer as steps of
    goroutines in any order: a step is a section under the mutex, or one call on a connection with the
    answer of the network. \<open>place\<close> says where a call of \<^verbatim>\<open>serve\<close> is, \<open>r_heap\<close> holds the
    \<^verbatim>\<open>sess\<close> objects, \<open>r_sessions\<close> the map; \<open>h_reads\<close> and \<open>r_log\<close> are history.
  \<^item> \<open>RelayPage\<close>: page, relay and producer put together, in both directions.
  \<^item> \<open>Access\<close> (\<^verbatim>\<open>relay/relay.go\<close>, \<^verbatim>\<open>web/slave.go\<close>, \<^verbatim>\<open>web/slavetoken.go\<close>, \<^verbatim>\<open>web/web.go\<close>,
    \<^verbatim>\<open>state/slave.go\<close>, \<^verbatim>\<open>state/state.go\<close>): \<^verbatim>\<open>ServeHTTP\<close>, \<^verbatim>\<open>wsViewer\<close>, the gate and the API of shared
    machines, over the documents (\<open>world\<close>) and the relay as one system (\<open>cloud\<close>).
  \<^item> \<open>CommandQueue\<close> (\<^verbatim>\<open>web/web.go\<close>, \<^verbatim>\<open>state/commands.go\<close>): \<^verbatim>\<open>apiCommand\<close> on the forms of the pages,
    and the queue with its claims.
  \<^item> \<open>Pump\<close> (\<^verbatim>\<open>relayclient/relayclient.go\<close>): \<^verbatim>\<open>pump\<close> and \<^verbatim>\<open>idlePump\<close>, two copiers and the waiter with
    its ticker as steps in any order. \<open>Dial\<close>: the URLs of \<^verbatim>\<open>Dial\<close> and \<^verbatim>\<open>DialViewerFrom\<close>, the bridges, and
    \<^verbatim>\<open>relayUpstream\<close> and \<^verbatim>\<open>proxyViewer\<close> of \<^verbatim>\<open>web/web.go\<close>.
  \<^item> \<open>EndToEnd\<close>: machine, bridge, relay, proxy and page put together.
  \<^item> \<open>SessionStore\<close> (\<^verbatim>\<open>state/pushcache.go\<close>, \<^verbatim>\<open>state/state.go\<close>, \<^verbatim>\<open>state/slave.go\<close>): \<^verbatim>\<open>pushSessions\<close> with its
    memory (\<open>st_cache\<close>), the deletions and the reads of lists. \<open>st_docs\<close> and \<open>st_pcs\<close> are the collections,
    \<open>st_changes\<close> is history; the invariant \<open>store_ok\<close> says what an entry of the memory is worth.
  \<^item> \<open>Listing\<close> (\<^verbatim>\<open>web/web.go\<close>): \<^verbatim>\<open>apiDevices\<close> and \<^verbatim>\<open>apiSessions\<close> between the store and \<^verbatim>\<open>main\<close> of \<^verbatim>\<open>devices.js\<close>.
  \<^item> \<open>Dispatch\<close> (\<^verbatim>\<open>web/webhookdispatch.go\<close>, \<^verbatim>\<open>web/slave.go\<close>, \<^verbatim>\<open>webhook/webhook.go\<close>): \<^verbatim>\<open>slavePush\<close>,
    \<^verbatim>\<open>dispatchWebhooksForTransitions\<close>, \<^verbatim>\<open>Send\<close>, against a specification (\<open>due\<close>) that remembers one status per session.
  \<^item> \<open>SignIn\<close> (\<^verbatim>\<open>webauth/webauth.go\<close>, \<^verbatim>\<open>web/web.go\<close>, \<^verbatim>\<open>state/state.go\<close>): cookies (\<^verbatim>\<open>Sign\<close>, \<^verbatim>\<open>Verify\<close>),
    \<^verbatim>\<open>authGoogle\<close>, \<^verbatim>\<open>apiEnroll\<close>, \<^verbatim>\<open>enroll\<close>, \<^verbatim>\<open>ConsumePairing\<close>, over the documents of \<open>Access\<close>;
    and the locale \<open>one_time\<close> of codes that work once.
  \<^item> \<open>OAuth\<close> (\<^verbatim>\<open>oauth/\<close>, \<^verbatim>\<open>state/oauth.go\<close>): \<^verbatim>\<open>register\<close>, \<^verbatim>\<open>authorize\<close>, \<^verbatim>\<open>token\<close> with its two grants, \<^verbatim>\<open>Verify\<close>. The
    record \<open>oauth\<close> holds the three collections and, as history, what was registered, consented to and
    redeemed; the invariant \<open>oauth_ok\<close> ties each document to it.

  \<^bold>\<open>What is shown.\<close> Refinement of the two filters, termination of their loops, and independence of the
  page from message borders; what a whole connection adds to the terminal, in any state of the
  page; well-formed page variables; a history once per page; the terminal reset at most once. What
  the producer reads on a socket is what the user did; input neither lost nor reordered between
  \<^verbatim>\<open>sendBytes\<close> and the sockets, one handshake per socket, one live socket, bounded queue, spaced
  dials, no dial from a background page, nothing lost but push when the subscription fails.
  The live row visible after settling, which waits for the end of a burst; frames, payloads,
  queries and links that read back as what was written; the order of releases; the notifications
  kept per session; the secret of the webhook, which survives the panel; no input that waits for ever.
  Through the relay: no gaps, nothing from a replaced connection, no connection closed that is
  current but by its own timer, no goroutine and no session left behind. Through a pump: the same
  bytes, a quiet line closed, and closed in time, nothing left behind. Hence the stream of a
  producer on the terminal, and the input of the user at the producer, as sent, with the bridge and the
  proxy between. A viewer handed on to another relay meets the source it would have met here. Bytes only
  between connections admitted for the same session of the same machine, and shared machines
  only with a fresh grant of their own. Commands stored as the page meant them, and run at most once.
  Sessions that were pushed are stored and listed, with a link to their console; the memory of the
  store changes nothing but the cost, which is bounded; each end of a session is told once. A machine
  enrols only with a fresh code that the owner, signed in with Google, has made. A bearer token goes
  back to a consent of the owner, and a refresh token that is shown twice ends its family.
  Some theorems and lemmas show behaviour that the comments of the code do not promise or contradict: the retry of queued input that gives up, the timer of an earlier
  semi-auto click, a history cut short that is shown again or never asked for again, the history
  box filled twice, a deleted session that counts as active, switch buttons that do nothing, a secret lost
  when a read fails, a status line cleared too early, a pair taken down by the replacement of one of
  them, a pair closed by a timer that came too late, a key that two kinds of session share, a role
  that is lost when a read fails, a command that its own acknowledgement queues again, an idle time that
  follows the wall clock, a local end left open by a failed dial, a version that starts again after a
  failed read, a machine that is never listed, a memory misled by two pushes at once, a notification
  lost with a push that failed half way, an unreadable list shown as an empty one, a code that two machines use, a refresh token exchanged twice
  at once, a revoked family that comes back, a loopback address that cannot be listed.

  \<^bold>\<open>Modelling choices.\<close> A \<^verbatim>\<open>Uint8Array\<close> is a list of \<open>8 word\<close>; a string is the list of its
  UTF-8 bytes. Numbers are integers, and lengths in pixels rationals: the rounding of doubles is
  left out. What the browser measures and what xterm.js makes of a resize are parameters
  (\<open>page_env\<close>); the length of its buffer, the scroll position and the height of the host change by
  events of their own, at any time. Times are milliseconds and never go back within \<open>Connection\<close>. The
  browser changes \<^verbatim>\<open>readyState\<close> and runs the handler in one step, as the WebSocket standard
  does. META fields that are no integers count as not positive in comparisons. All loops
  are recursive functions with a termination proof. Fuel is used twice: the length of the string
  when \<^verbatim>\<open>parseInt\<close> skips white space, where each step drops at least one byte; and the
  count of passes in \<open>LoopBounds\<close>, where two more than there are bytes are proved enough. The relay
  runs for ever by design; that its goroutines end when nothing new comes in is proved by a measure.
  Its deadlines may fire at any time, and any call on a connection may fail at any time, so the
  theorems hold for every timing. Signatures, base64 and JSON of the tokens are parameters
  (\<open>signing\<close>, \<open>cookie_signer\<close>); the theorems that need it assume that the key signs no name that
  \<^verbatim>\<open>BindSlave\<close> would refuse (\<open>signs_valid_names\<close>), and that nobody but the server makes a cookie whose
  signature fits (\<open>unforged\<close>). Hashes are parameters, where needed without collisions (\<open>inj\<close>).
  The database is a record of maps whose reads may fail per collection, or per document in \<open>SessionStore\<close>,
  where a write may also be done although it reports an error.

  \<^bold>\<open>Not modelled.\<close> xterm.js and its addon (third-party; the calls made to them are logged), the
  Firebase SDK and the API answers (parameters), the layout of elements, the texts of
  dialogs. Of the scripts nothing else is left: what the map does not cover are comments, the two helpers
  that look up and make elements, and the names of elements. Of the Go server: the pages it delivers, the wakes and
  watches, presence, the token of Firebase and the cache of the target release, \<^verbatim>\<open>Ping\<close> on a bridge, and
  the services around it (MCP, glasses, push, self-update, and of OAuth its copy of the login page and its
  metadata), which mostly call libraries and other servers that are not part of the repository.
\<close>

section \<open>The list of devices and the switch buttons\<close>

text \<open>The sessions as the terminal page reads them: the same answers, less the fields it ignores.\<close>

definition as_term_reads :: "(string \<Rightarrow> device_session list option response) \<Rightarrow> string \<Rightarrow> api_session list option response" where
  "as_term_reads get url = map_response (map_option (map api_session.truncate)) (get url)"

lemma term_jget_as_read:
  "term_jget (as_term_reads get url) =
     (case jget (get url) of Inl _ \<Rightarrow> Failed | Inr ss \<Rightarrow> Json (map_option (map api_session.truncate) ss))"
  by (cases "get url") (auto simp: as_term_reads_def term_jget_def jget_def ok_status_def)

lemma collect_consoles_links:
  "(case collect_consoles (as_term_reads get) (map d_id ds) of
      Failed \<Rightarrow> None
    | Json cs \<Rightarrow> Some (map (termURL (open_page generic [])) cs)) =
   (case load_cards target get ds of
      (cards, None) \<Rightarrow> Some (concat (map (\<lambda>k. map o_link (a_rows k)) cards))
    | (cards, Some e) \<Rightarrow> None)"
proof (induction ds)
  case (Cons d ds)
  have links: "map o_link (a_rows (card_of target d ss)) =
      map (termURL (open_page generic []))
        (map (console_of (d_id d)) (case map_option (map api_session.truncate) ss of None \<Rightarrow> [] | Some xs \<Rightarrow> xs))" for ss
    by (cases ss) (simp_all add: card_of_def row_of_def session_link_termURL [of _ _ generic])
  from Cons links show ?case
    by (auto simp: term_jget_as_read split_beta split: sum.splits fetched.splits option.splits prod.splits)
qed simp

text \<open>The switch buttons of the terminal page and the list of devices agree: where all sessions
  can be read, the consoles the buttons go through have, in the same order, exactly the links
  of the rows of the list; where some cannot, the buttons stay disabled.\<close>

lemma switch_order_is_list_order:
  "(case buildConsoleList (Response 200 (map d_id ds)) (as_term_reads get) of
      Failed \<Rightarrow> None
    | Json cs \<Rightarrow> Some (map (termURL (open_page generic [])) cs)) =
   (if list_all (readable get) (map d_id ds)
    then Some (concat (map (\<lambda>k. map o_link (a_rows k)) (s_cards (devices_main version (Response 200 ds) get))))
    else None)"
proof -
  let ?t = "case jget version of Inl _ \<Rightarrow> [] | Inr t \<Rightarrow> or_opt t []"
  have "term_jget (Response 200 x) = Json x" for x :: "string list"
    by (simp add: term_jget_def ok_status_def)
  then have "buildConsoleList (Response 200 (map d_id ds)) (as_term_reads get) =
      collect_consoles (as_term_reads get) (map d_id ds)"
    by (simp add: buildConsoleList_def)
  moreover have "s_cards (devices_main version (Response 200 ds) get) = fst (load_cards ?t get ds)"
  proof -
    have "jget (Response 200 j) = Inr j" for j :: "device list" by (simp add: jget_def ok_status_def)
    then show ?thesis
      by (cases "ds = []") (auto simp: devices_main_def page_failed_def Let_def split_beta split: option.splits)
  qed
  ultimately show ?thesis
    using collect_consoles_links [where get = get and ds = ds and generic = generic and target = ?t] load_cards_error [where get = get and ds = ds and target = ?t]
    by (cases "load_cards ?t get ds") (auto split: option.splits)
qed

end
